(* ===== verification/Prelude.thy ===== *)
theory Prelude
  imports Main "HOL-Library.Word" "HOL-Library.Monad_Syntax" "HOL-Library.AList"
    "HOL-Library.Multiset" "HOL-Library.List_Lexorder"
begin

text \<open>
  Shared vocabulary of the development: the machine integers of the Rust sources, the way
  panics and \<open>Result\<close>s are represented, the list idioms the sources use
  (\<open>position\<close> followed by \<open>remove\<close>, insertion into a hash map) and the generic lemmas
  about them.

  A Rust panic (\<open>unwrap\<close> on an error, \<open>expect\<close>, an index out of range, a zero
  divisor) is \<^term>\<open>None\<close> in the option monad; a \<open>Result\<close> is a sum whose left summand
  is the error.  Unsigned integers are words of their width, so \<open>+\<close> and \<open>-\<close> wrap as
  they do in the release build the README asks for.
\<close>

named_theorems ock_defs \<open>definitions unfolded together by the component proofs\<close>

type_synonym u8 = "8 word"
type_synonym u64 = "64 word"
type_synonym u256 = "256 word"
type_synonym bytes = "u8 list"
type_synonym view = u64
type_synonym address = "160 word"

section \<open>Results and panics\<close>

text \<open>Evaluation by rewriting stops at the branches of a case, not at a bind.\<close>

lemma bind_as_case [code_unfold]: "Option.bind x f = (case x of None \<Rightarrow> None | Some y \<Rightarrow> f y)"
  by (cases x) simp_all

text \<open>\<open>Result::unwrap\<close>: the value, or a panic.\<close>

definition unwrap :: "'e + 'a \<Rightarrow> 'a option" where
  "unwrap r = (case r of Inl e \<Rightarrow> None | Inr a \<Rightarrow> Some a)"

lemma unwrap_simps [simp]:
  "unwrap (Inl e) = None"
  "unwrap (Inr a) = Some a"
  by (simp_all add: unwrap_def)

lemma unwrap_eq_Some [simp]: "unwrap r = Some a \<longleftrightarrow> r = Inr a"
  by (cases r) simp_all

text \<open>\<open>Result<Option<T>>::unwrap_or(None)\<close> and \<open>ok().flatten()\<close>: errors read as absence.\<close>

definition ok_flatten :: "'e + 'a option \<Rightarrow> 'a option" where
  "ok_flatten r = (case r of Inl e \<Rightarrow> None | Inr a \<Rightarrow> a)"

lemma ok_flatten_simps [simp]:
  "ok_flatten (Inl e) = None"
  "ok_flatten (Inr a) = a"
  by (simp_all add: ok_flatten_def)

lemma ok_flatten_eq_Some: "ok_flatten r = Some a \<longleftrightarrow> r = Inr (Some a)"
  by (cases r) auto

text \<open>\<open>map_err\<close>.\<close>

definition map_err :: "('e \<Rightarrow> 'f) \<Rightarrow> 'e + 'a \<Rightarrow> 'f + 'a" where
  "map_err f r = (case r of Inl e \<Rightarrow> Inl (f e) | Inr a \<Rightarrow> Inr a)"

lemma map_err_simps [simp]:
  "map_err f (Inl e) = Inl (f e)"
  "map_err f (Inr a) = Inr a"
  by (simp_all add: map_err_def)

lemma map_err_eq_Inr [simp]: "map_err f r = Inr a \<longleftrightarrow> r = Inr a"
  by (cases r) simp_all

text \<open>The \<open>?\<close> operator: go on with the value, or return the error.\<close>

definition and_then :: "'e + 'a \<Rightarrow> ('a \<Rightarrow> 'e + 'b) \<Rightarrow> 'e + 'b" where
  "and_then r f = (case r of Inl e \<Rightarrow> Inl e | Inr a \<Rightarrow> f a)"

lemma and_then_simps [simp]:
  "and_then (Inl e) f = Inl e"
  "and_then (Inr a) f = f a"
  by (simp_all add: and_then_def)

lemma and_then_eq_Inr: "and_then r f = Inr b \<longleftrightarrow> (\<exists>a. r = Inr a \<and> f a = Inr b)"
  by (cases r) simp_all

section \<open>Big-endian byte strings\<close>

text \<open>\<open>to_be_bytes\<close>: the \<open>n\<close> low bytes of a word, most significant first.\<close>

definition be_bytes :: "nat \<Rightarrow> 'a::len word \<Rightarrow> bytes" where
  "be_bytes n w = map (\<lambda>i. ucast (drop_bit (8 * i) w)) (rev [0..<n])"

lemma length_be_bytes [simp]: "length (be_bytes n w) = n"
  by (simp add: be_bytes_def)

lemma be_bytes_bit:
  assumes "be_bytes n v = be_bytes n w" and "k < 8 * n"
  shows "bit v k = bit w k"
proof -
  let ?i = "k div 8"
  have i: "?i \<in> set (rev [0..<n])" using assms(2) by auto
  have "(ucast (drop_bit (8 * ?i) v) :: u8) = ucast (drop_bit (8 * ?i) w)"
    using assms(1) i by (auto simp: be_bytes_def)
  then have "bit (ucast (drop_bit (8 * ?i) v) :: u8) (k mod 8)
           = bit (ucast (drop_bit (8 * ?i) w) :: u8) (k mod 8)" by simp
  then show ?thesis
    by (simp add: bit_ucast_iff bit_drop_bit_eq div_mult_mod_eq mult.commute)
qed

lemma be_bytes_inject:
  fixes v w :: "'a::len word"
  assumes "LENGTH('a) = 8 * n"
  shows "be_bytes n v = be_bytes n w \<longleftrightarrow> v = w"
proof
  assume eq: "be_bytes n v = be_bytes n w"
  show "v = w"
  proof (rule bit_word_eqI)
    fix k assume "k < LENGTH('a)"
    then show "bit v k = bit w k" using be_bytes_bit [OF eq, of k] assms by simp
  qed
qed simp

lemma unat_plus_u64: "unat a + unat b < 2 ^ 64 \<Longrightarrow> unat (a + b) = unat a + unat b" for a b :: u64
  by (simp add: unat_word_ariths)

section \<open>List idioms\<close>

text \<open>\<open>iter().position(p)\<close> and \<open>Vec::remove(pos)\<close>.\<close>

fun position :: "('a \<Rightarrow> bool) \<Rightarrow> 'a list \<Rightarrow> nat option" where
  "position p [] = None"
| "position p (x # xs) = (if p x then Some 0 else map_option Suc (position p xs))"

definition remove_at :: "nat \<Rightarrow> 'a list \<Rightarrow> 'a list" where
  "remove_at i xs = take i xs @ drop (Suc i) xs"

text \<open>The idiom \<open>if let Some(pos) = xs.iter().position(p) { xs.remove(pos); }\<close>.\<close>

definition remove_first :: "('a \<Rightarrow> bool) \<Rightarrow> 'a list \<Rightarrow> 'a list" where
  "remove_first p xs = (case position p xs of None \<Rightarrow> xs | Some i \<Rightarrow> remove_at i xs)"

lemma remove_first_simps [simp]:
  "remove_first p [] = []"
  "remove_first p (x # xs) = (if p x then xs else x # remove_first p xs)"
  by (auto simp: remove_first_def remove_at_def split: option.splits)

lemma remove_first_eq_remove1 [simp]: "remove_first (\<lambda>x. x = a) xs = remove1 a xs"
  by (induction xs) auto

lemma position_eq_None: "position p xs = None \<longleftrightarrow> (\<forall>x\<in>set xs. \<not> p x)"
  by (induction xs) auto

lemma set_remove_first_subset: "set (remove_first p xs) \<subseteq> set xs"
  by (induction xs) auto

lemma distinct_remove_first: "distinct xs \<Longrightarrow> distinct (remove_first p xs)"
  using set_remove_first_subset by (induction xs) fastforce+

lemma distinct_map_remove_first:
  "distinct (map f xs) \<Longrightarrow> distinct (map f (remove_first p xs))"
proof (induction xs)
  case (Cons x xs)
  then show ?case using set_remove_first_subset [of p xs] by auto
qed simp

lemma mset_remove_first:
  "position p xs = Some i \<Longrightarrow> add_mset (xs ! i) (mset (remove_first p xs)) = mset xs"
  by (induction xs arbitrary: i) (auto split: if_splits)

lemma position_SomeD: "position p xs = Some i \<Longrightarrow> i < length xs \<and> p (xs ! i)"
  by (induction xs arbitrary: i) (auto split: if_splits)

section \<open>Hash maps that are iterated: association lists with distinct keys\<close>

type_synonym ('k, 'v) hmap = "('k \<times> 'v) list"

definition hm_wf :: "('k, 'v) hmap \<Rightarrow> bool" where
  "hm_wf m = distinct (map fst m)"

lemma hm_wf_Nil [simp]: "hm_wf []"
  by (simp add: hm_wf_def)

lemma hm_wf_update [simp]: "hm_wf m \<Longrightarrow> hm_wf (AList.update k v m)"
  by (simp add: hm_wf_def distinct_update)

lemma hm_wf_delete [simp]: "hm_wf m \<Longrightarrow> hm_wf (AList.delete k m)"
  by (simp add: hm_wf_def distinct_delete)

lemma map_of_hm_update [simp]: "map_of (AList.update k v m) = (map_of m)(k \<mapsto> v)"
  by (simp add: update_conv')

lemma map_of_hm_delete [simp]: "map_of (AList.delete k m) = (map_of m)(k := None)"
  by (simp add: delete_conv')

lemma hm_in_set_iff: "hm_wf m \<Longrightarrow> (k, v) \<in> set m \<longleftrightarrow> map_of m k = Some v"
  by (simp add: hm_wf_def)

end
