(* ===== verification/Crypto.thy ===== *)
theory Crypto
  imports Prelude
begin

text \<open>
  The model of \<open>src/src/crypto.rs\<close>: hashes, BLS keys and signatures, signing, verification,
  aggregation, the VRF and key generation.

  The \<open>blst\<close>, \<open>sha2\<close> and \<open>alloy_primitives\<close> crates are not part of the repository.
  They are the fields of the record \<open>blst_lib\<close>, an argument of every definition that calls
  them.  A point of the curve is represented by its compressed encoding (\<open>to_bytes\<close>), and a
  32-byte array by the 256-bit word with those big-endian bytes.  Later theories extend the
  record with the further libraries they call.
\<close>

section \<open>Hashes, keys and signatures\<close>

datatype hash = Hash (hash_val: "256 word")

definition default_hash :: hash where
  "default_hash = Hash 0"

definition hash_bytes :: "hash \<Rightarrow> bytes" where
  "hash_bytes h = be_bytes 32 (hash_val h)"

datatype public_key = PublicKey (pk_bytes: bytes)

datatype private_key = PrivateKey (sk_bytes: bytes)

datatype signature = Signature (sig_bytes: bytes)

text \<open>\<open>impl Ord for PublicKey\<close> compares the encodings byte by byte.\<close>

definition public_key_le :: "public_key \<Rightarrow> public_key \<Rightarrow> bool" where
  "public_key_le a b = (pk_bytes a \<le> pk_bytes b)"

instantiation public_key :: linorder
begin

definition less_eq_public_key :: "public_key \<Rightarrow> public_key \<Rightarrow> bool" where
  "less_eq_public_key a b = public_key_le a b"

definition less_public_key :: "public_key \<Rightarrow> public_key \<Rightarrow> bool" where
  "less_public_key a b = (pk_bytes a < pk_bytes b)"

instance
  by standard (auto simp: less_eq_public_key_def less_public_key_def public_key_le_def public_key.expand)

end

section \<open>The cryptographic libraries\<close>

datatype blst_error = BLST_SUCCESS | BLST_BAD_ENCODING | BLST_POINT_NOT_ON_CURVE
  | BLST_POINT_NOT_IN_GROUP | BLST_AGGR_TYPE_MISMATCH | BLST_VERIFY_FAIL
  | BLST_PK_IS_INFINITY | BLST_BAD_SCALAR

record blst_lib =
  key_gen :: "bytes \<Rightarrow> bytes \<Rightarrow> blst_error + bytes"
  sk_to_pk :: "bytes \<Rightarrow> bytes"
  blst_sign :: "bytes \<Rightarrow> bytes \<Rightarrow> bytes \<Rightarrow> bytes \<Rightarrow> bytes"
  blst_verify :: "bytes \<Rightarrow> bool \<Rightarrow> bytes \<Rightarrow> bytes \<Rightarrow> bytes \<Rightarrow> bytes \<Rightarrow> bool \<Rightarrow> blst_error"
  blst_aggregate :: "bytes list \<Rightarrow> bool \<Rightarrow> blst_error + bytes"
  blst_fast_aggregate_verify ::
    "bytes \<Rightarrow> bool \<Rightarrow> bytes \<Rightarrow> bytes \<Rightarrow> bytes list \<Rightarrow> blst_error"
  blst_pk_from_bytes :: "bytes \<Rightarrow> blst_error + bytes"
  blst_sig_from_bytes :: "bytes \<Rightarrow> blst_error + bytes"
  sha256 :: "bytes \<Rightarrow> 256 word"
  keccak256 :: "bytes \<Rightarrow> 256 word"

section \<open>Serialization of keys and signatures\<close>

definition serialize_public_key :: "public_key \<Rightarrow> bytes" where
  "serialize_public_key pk = pk_bytes pk"

definition deserialize_public_key ::
  "('x) blst_lib_scheme \<Rightarrow> bytes \<Rightarrow> blst_error + public_key" where
  "deserialize_public_key X bs =
     (case blst_pk_from_bytes X bs of Inl e \<Rightarrow> Inl e | Inr p \<Rightarrow> Inr (PublicKey p))"

definition serialize_signature :: "signature \<Rightarrow> bytes" where
  "serialize_signature s = sig_bytes s"

definition deserialize_signature ::
  "('x) blst_lib_scheme \<Rightarrow> bytes \<Rightarrow> blst_error + signature" where
  "deserialize_signature X bs =
     (case blst_sig_from_bytes X bs of Inl e \<Rightarrow> Inl e | Inr s \<Rightarrow> Inr (Signature s))"

section \<open>Key generation\<close>

text \<open>\<open>PrivateKey::generate\<close>: the 32 random bytes are the argument.\<close>

definition private_key_generate :: "('x) blst_lib_scheme \<Rightarrow> bytes \<Rightarrow> private_key option" where
  "private_key_generate X ikm = map_option PrivateKey (unwrap (key_gen X ikm []))"

definition public_key_of :: "('x) blst_lib_scheme \<Rightarrow> private_key \<Rightarrow> public_key" where
  "public_key_of X sk = PublicKey (sk_to_pk X (sk_bytes sk))"

definition generate_keypair ::
  "('x) blst_lib_scheme \<Rightarrow> bytes \<Rightarrow> (public_key \<times> private_key) option" where
  "generate_keypair X ikm = do {
     sk \<leftarrow> private_key_generate X ikm;
     Some (public_key_of X sk, sk)
   }"

definition ikm_of_id :: "u64 \<Rightarrow> bytes" where
  "ikm_of_id i = replicate 24 0 @ be_bytes 8 i"

definition generate_keypair_from_id ::
  "('x) blst_lib_scheme \<Rightarrow> u64 \<Rightarrow> (public_key \<times> private_key) option" where
  "generate_keypair_from_id X i = do {
     sk \<leftarrow> unwrap (key_gen X (ikm_of_id i) []);
     Some (PublicKey (sk_to_pk X sk), PrivateKey sk)
   }"

section \<open>Signing, verification, aggregation\<close>

definition DST :: bytes where
  "DST = map of_char ''BLS_SIG_BLS12381G1_XMD:SHA-256_SSWU_RO_POP_''"

definition default_signature :: "('x) blst_lib_scheme \<Rightarrow> signature option" where
  "default_signature X = do {
     sk \<leftarrow> unwrap (key_gen X (replicate 32 0) []);
     Some (Signature (blst_sign X sk [] [] []))
   }"

definition sign :: "('x) blst_lib_scheme \<Rightarrow> private_key \<Rightarrow> bytes \<Rightarrow> signature" where
  "sign X sk message = Signature (blst_sign X (sk_bytes sk) message DST [])"

definition verify :: "('x) blst_lib_scheme \<Rightarrow> public_key \<Rightarrow> bytes \<Rightarrow> signature \<Rightarrow> bool" where
  "verify X pk message s =
     (blst_verify X (sig_bytes s) True message DST [] (pk_bytes pk) True = BLST_SUCCESS)"

text \<open>
  \<open>hash_data\<close> hashes the JSON encoding of its argument; \<open>unwrap_or_default\<close> makes an
  encoding failure the empty string.  The encoding itself (\<open>serde_json\<close>) is an argument.
\<close>

definition hash_data :: "('x) blst_lib_scheme \<Rightarrow> bytes option \<Rightarrow> hash" where
  "hash_data X serialized = Hash (sha256 X (case serialized of Some b \<Rightarrow> b | None \<Rightarrow> []))"

datatype vrf_proof = VRFProof (vrf_sig: signature)

definition vrf_to_hash :: "('x) blst_lib_scheme \<Rightarrow> vrf_proof \<Rightarrow> hash" where
  "vrf_to_hash X p = Hash (sha256 X (sig_bytes (vrf_sig p)))"

definition vrf_prove :: "('x) blst_lib_scheme \<Rightarrow> private_key \<Rightarrow> bytes \<Rightarrow> vrf_proof" where
  "vrf_prove X sk seed = VRFProof (sign X sk seed)"

definition vrf_verify ::
  "('x) blst_lib_scheme \<Rightarrow> public_key \<Rightarrow> bytes \<Rightarrow> vrf_proof \<Rightarrow> bool" where
  "vrf_verify X pk seed p = verify X pk seed (vrf_sig p)"

definition aggregate :: "('x) blst_lib_scheme \<Rightarrow> signature list \<Rightarrow> signature option" where
  "aggregate X sigs =
     (if sigs = [] then None
      else (case blst_aggregate X (map sig_bytes sigs) True of
              Inr agg \<Rightarrow> Some (Signature agg)
            | Inl _ \<Rightarrow> None))"

definition verify_aggregate ::
  "('x) blst_lib_scheme \<Rightarrow> public_key list \<Rightarrow> bytes \<Rightarrow> signature \<Rightarrow> bool" where
  "verify_aggregate X pks message s =
     (if pks = [] then False
      else blst_fast_aggregate_verify X (sig_bytes s) True message DST (map pk_bytes pks)
           = BLST_SUCCESS)"

section \<open>What the sources rely on\<close>

text \<open>
  Documented behaviour of \<open>blst\<close>: a signature made with a secret key verifies under its
  public key; signatures that each verify on one message aggregate, and the aggregate verifies
  on that message under the list of their keys; a serialized point parses back.
\<close>

definition blst_sign_ok :: "('x) blst_lib_scheme \<Rightarrow> bool" where
  "blst_sign_ok X = (\<forall>sk m dst aug.
     blst_verify X (blst_sign X sk m dst aug) True m dst aug (sk_to_pk X sk) True = BLST_SUCCESS)"

definition blst_aggregate_ok :: "('x) blst_lib_scheme \<Rightarrow> bool" where
  "blst_aggregate_ok X = (\<forall>ps m dst. ps \<noteq> [] \<longrightarrow>
     (\<forall>(pk, s) \<in> set ps. blst_verify X s True m dst [] pk True = BLST_SUCCESS) \<longrightarrow>
     (\<exists>agg. blst_aggregate X (map snd ps) True = Inr agg \<and>
        blst_fast_aggregate_verify X agg True m dst (map fst ps) = BLST_SUCCESS))"

section \<open>Lemmas\<close>

lemma hash_bytes_inject [simp]: "hash_bytes a = hash_bytes b \<longleftrightarrow> a = b"
  by (simp add: hash_bytes_def be_bytes_inject hash.expand)
     (metis hash.collapse)

lemma length_hash_bytes [simp]: "length (hash_bytes h) = 32"
  by (simp add: hash_bytes_def)

lemma verify_sign [intro]:
  "blst_sign_ok X \<Longrightarrow> verify X (public_key_of X sk) m (sign X sk m)"
  by (simp add: verify_def sign_def public_key_of_def blst_sign_ok_def)

lemma ikm_of_id_inject: "ikm_of_id i = ikm_of_id j \<longleftrightarrow> i = j"
  by (simp add: ikm_of_id_def be_bytes_inject)

lemma length_ikm_of_id: "length (ikm_of_id i) = 32"
  by (simp add: ikm_of_id_def)

lemma aggregate_verifies:
  assumes "blst_aggregate_ok X" and "ps \<noteq> []"
    and "\<And>pk s. (pk, s) \<in> set ps \<Longrightarrow> verify X pk m s"
  shows "\<exists>agg. aggregate X (map snd ps) = Some agg \<and> verify_aggregate X (map fst ps) m agg"
proof -
  let ?qs = "map (map_prod pk_bytes sig_bytes) ps"
  have "\<forall>(pk, s) \<in> set ?qs. blst_verify X s True m DST [] pk True = BLST_SUCCESS"
    using assms(3) by (auto simp: verify_def)
  moreover have "?qs \<noteq> []" using assms(2) by simp
  ultimately obtain agg where
    agg: "blst_aggregate X (map snd ?qs) True = Inr agg"
      "blst_fast_aggregate_verify X agg True m DST (map fst ?qs) = BLST_SUCCESS"
    using assms(1) unfolding blst_aggregate_ok_def by blast
  have [simp]: "map snd ?qs = map (sig_bytes \<circ> snd) ps" "map fst ?qs = map (pk_bytes \<circ> fst) ps"
    by (simp_all add: comp_def)
  from agg assms(2) show ?thesis
    by (intro exI [of _ "Signature agg"]) (simp add: aggregate_def verify_aggregate_def comp_def)
qed

lemma generate_keypair_from_id_pk:
  "generate_keypair_from_id X i = Some (pk, sk) \<Longrightarrow> pk = public_key_of X sk"
  by (auto simp: generate_keypair_from_id_def public_key_of_def split: bind_splits)

end
