(* ===== verification/Types.thy ===== *)
theory Types
  imports Crypto
begin

text \<open>
  The model of \<open>src/src/types.rs\<close>: transactions, blocks, votes, quorum certificates,
  equivocation evidence, receipts and the sync messages, with the derivation of the sender
  address, the signature hash, and the Merkle root of the receipts.

  Field names carry the record they belong to (\<open>v_view\<close>, \<open>qc_view\<close>, \<open>b_view\<close>).  The JSON
  encoders that \<open>hash_data\<close> is applied to (\<open>serde_json\<close> over derived serializers) are fields
  of \<open>types_lib\<close>; \<^term>\<open>None\<close> is an encoding error.
\<close>

section \<open>Constants\<close>

definition DEFAULT_BLOCK_GAS_LIMIT :: u64 where
  "DEFAULT_BLOCK_GAS_LIMIT = 30000000"

definition MAX_TX_GAS_LIMIT :: u64 where
  "MAX_TX_GAS_LIMIT = 16777216"

definition INITIAL_BASE_FEE :: u64 where
  "INITIAL_BASE_FEE = 10000000"

section \<open>Data\<close>

record access_list_item =
  al_address :: address
  al_storage_keys :: "u256 list"

record transaction =
  tx_chain_id :: u64
  tx_nonce :: u64
  tx_max_priority_fee_per_gas :: u256
  tx_max_fee_per_gas :: u256
  tx_gas_limit :: u64
  tx_to :: "address option"
  tx_value :: u256
  tx_data :: bytes
  tx_access_list :: "access_list_item list"
  tx_public_key :: public_key
  tx_signature :: signature

datatype vote_type = Notarize | Finalize

record vote =
  v_view :: view
  v_block_hash :: hash
  v_vote_type :: vote_type
  v_author :: public_key
  v_signature :: signature

record equivocation_evidence =
  vote_a :: vote
  vote_b :: vote

record quorum_certificate =
  qc_view :: view
  qc_block_hash :: hash
  qc_signature :: signature
  qc_signers :: "public_key list"

record block =
  b_author :: public_key
  b_view :: view
  b_parent_hash :: hash
  b_justify :: quorum_certificate
  b_state_root :: hash
  b_receipts_root :: hash
  b_payload :: "transaction list"
  b_is_dummy :: bool
  b_base_fee_per_gas :: u256
  b_gas_used :: u64
  b_evidence :: "equivocation_evidence list"
  b_committee_hash :: hash

record log =
  log_address :: address
  log_topics :: "hash list"
  log_data :: bytes

record receipt =
  r_status :: u8
  r_cumulative_gas_used :: u64
  r_logs :: "log list"

datatype sync_message = RequestBlock hash | ResponseBlock block

section \<open>The encoders the hashes are taken over\<close>

type_synonym sighash_fields =
  "u64 \<times> u64 \<times> u256 \<times> u256 \<times> u64 \<times> address option \<times> u256 \<times> bytes \<times> access_list_item list"

record types_lib = blst_lib +
  json_block :: "block \<Rightarrow> bytes option"
  json_transaction :: "transaction \<Rightarrow> bytes option"
  json_sighash :: "sighash_fields \<Rightarrow> bytes option"
  json_receipt :: "receipt \<Rightarrow> bytes option"
  json_committee :: "public_key list \<Rightarrow> bytes option"

definition hash_block :: "('x) types_lib_scheme \<Rightarrow> block \<Rightarrow> hash" where
  "hash_block X b = hash_data X (json_block X b)"

definition hash_transaction :: "('x) types_lib_scheme \<Rightarrow> transaction \<Rightarrow> hash" where
  "hash_transaction X tx = hash_data X (json_transaction X tx)"

definition hash_committee :: "('x) types_lib_scheme \<Rightarrow> public_key list \<Rightarrow> hash" where
  "hash_committee X c = hash_data X (json_committee X c)"

section \<open>Transactions\<close>

text \<open>
  \<open>Address::from_slice(&keccak256(pk_bytes)[12..])\<close>: the low 20 bytes of the hash.
\<close>

definition pk_address :: "('x) blst_lib_scheme \<Rightarrow> public_key \<Rightarrow> address" where
  "pk_address X pk = ucast (keccak256 X (pk_bytes pk))"

definition sender :: "('x) types_lib_scheme \<Rightarrow> transaction \<Rightarrow> address" where
  "sender X tx = pk_address X (tx_public_key tx)"

definition is_create :: "transaction \<Rightarrow> bool" where
  "is_create tx = (tx_to tx = None)"

definition to_address :: "transaction \<Rightarrow> address option" where
  "to_address tx = tx_to tx"

definition sighash :: "('x) types_lib_scheme \<Rightarrow> transaction \<Rightarrow> hash" where
  "sighash X tx = hash_data X (json_sighash X
     (tx_chain_id tx, tx_nonce tx, tx_max_priority_fee_per_gas tx, tx_max_fee_per_gas tx,
      tx_gas_limit tx, tx_to tx, tx_value tx, tx_data tx, tx_access_list tx))"

section \<open>Blocks\<close>

definition new_block ::
  "public_key \<Rightarrow> view \<Rightarrow> hash \<Rightarrow> quorum_certificate \<Rightarrow> hash \<Rightarrow> hash \<Rightarrow> transaction list \<Rightarrow>
   u256 \<Rightarrow> u64 \<Rightarrow> equivocation_evidence list \<Rightarrow> hash \<Rightarrow> block" where
  "new_block author vw parent justify sroot rroot payload fee gas evidence chash =
     \<lparr> b_author = author, b_view = vw, b_parent_hash = parent, b_justify = justify,
       b_state_root = sroot, b_receipts_root = rroot, b_payload = payload, b_is_dummy = False,
       b_base_fee_per_gas = fee, b_gas_used = gas, b_evidence = evidence,
       b_committee_hash = chash \<rparr>"

definition new_dummy :: "public_key \<Rightarrow> view \<Rightarrow> hash \<Rightarrow> quorum_certificate \<Rightarrow> block" where
  "new_dummy author vw parent justify =
     \<lparr> b_author = author, b_view = vw, b_parent_hash = parent, b_justify = justify,
       b_state_root = default_hash, b_receipts_root = default_hash, b_payload = [],
       b_is_dummy = True, b_base_fee_per_gas = ucast INITIAL_BASE_FEE, b_gas_used = 0,
       b_evidence = [], b_committee_hash = default_hash \<rparr>"

text \<open>\<open>QuorumCertificate::default()\<close>, derived; its signature is \<open>Signature::default()\<close>.\<close>

definition default_qc :: "('x) blst_lib_scheme \<Rightarrow> quorum_certificate option" where
  "default_qc X = do {
     s \<leftarrow> default_signature X;
     Some \<lparr> qc_view = 0, qc_block_hash = default_hash, qc_signature = s, qc_signers = [] \<rparr>
   }"

section \<open>The Merkle root of the receipts\<close>

definition merkle_pad :: "hash list \<Rightarrow> hash list" where
  "merkle_pad leaves = (if length leaves mod 2 \<noteq> 0 then leaves @ [last leaves] else leaves)"

text \<open>
  One level of the tree.  The list has even length when the loop calls this, so the last
  equation, an index out of range in the source, is never used.
\<close>

fun merkle_level :: "('x) blst_lib_scheme \<Rightarrow> hash list \<Rightarrow> hash list" where
  "merkle_level X (l # r # rest) =
     Hash (keccak256 X (hash_bytes l @ hash_bytes r)) # merkle_level X rest"
| "merkle_level X [] = []"
| "merkle_level X [l] = []"

lemma length_merkle_level [simp]: "length (merkle_level X ls) = length ls div 2"
  by (induction X ls rule: merkle_level.induct) auto

function merkle_loop :: "('x) blst_lib_scheme \<Rightarrow> hash list \<Rightarrow> hash list" where
  "merkle_loop X leaves =
     (if 1 < length leaves then merkle_loop X (merkle_level X (merkle_pad leaves)) else leaves)"
  by pat_completeness auto
termination
  by (relation "measure (\<lambda>(X, ls). length ls)") (auto simp: merkle_pad_def)

declare merkle_loop.simps [simp del]

definition calculate_receipts_root :: "('x) types_lib_scheme \<Rightarrow> receipt list \<Rightarrow> hash" where
  "calculate_receipts_root X receipts =
     (if receipts = [] then default_hash
      else merkle_loop X (map (\<lambda>r. hash_data X (json_receipt X r)) receipts) ! 0)"

end
