(* ===== verification/Storage.thy ===== *)
theory Storage
  imports Types
begin

text \<open>
  The model of \<open>src/src/storage.rs\<close> without the \<open>redb\<close> backend: the persisted consensus
  state, account records, the \<open>Storage\<close> trait, the in-memory implementation and the overlay
  used to execute a block without committing it.

  The trait is a record of operations over a state type, so that \<open>Arc<dyn Storage>\<close> is a value
  of that record together with a current state; an operation that writes returns the next state.
  The locale \<open>evm_store\<close> states what every implementation promises about accounts, code,
  storage slots and tree nodes, and \<open>chain_store\<close> adds blocks, certificates and the consensus
  state, which the overlay deliberately drops.  Both are stated against the map-based view
  \<open>mem_storage\<close> that the in-memory implementation is made of.
\<close>

section \<open>Persisted records\<close>

record consensus_state =
  cs_view :: view
  cs_finalized_height :: view
  cs_preferred_block :: hash
  cs_preferred_view :: view
  cs_last_voted_view :: view
  cs_committee :: "public_key list"
  cs_pending_validators :: "(public_key \<times> view) list"
  cs_exiting_validators :: "(public_key \<times> view) list"
  cs_stakes :: "address \<rightharpoonup> u256"
  cs_inactivity_scores :: "public_key \<rightharpoonup> u64"

record account_info =
  ai_nonce :: u64
  ai_balance :: u256
  ai_code_hash :: hash
  ai_code :: "bytes option"

definition default_account_info :: account_info where
  "default_account_info =
     \<lparr> ai_nonce = 0, ai_balance = 0, ai_code_hash = default_hash, ai_code = None \<rparr>"

record storage_lib = types_lib +
  json_account_info :: "account_info \<Rightarrow> bytes option"

section \<open>Errors and the trait\<close>

text \<open>The payload of a library error is its printed form.\<close>

datatype storage_error =
    RedbError string
  | DatabaseError string
  | TableError string
  | StorageError string
  | SerializationError string
  | TransactionError string
  | CommitError string
  | CustomError string

record 's storage_trait =
  save_block :: "'s \<Rightarrow> block \<Rightarrow> storage_error + 's"
  get_block :: "'s \<Rightarrow> hash \<Rightarrow> storage_error + block option"
  save_qc :: "'s \<Rightarrow> quorum_certificate \<Rightarrow> storage_error + 's"
  get_qc :: "'s \<Rightarrow> view \<Rightarrow> storage_error + quorum_certificate option"
  save_consensus_state :: "'s \<Rightarrow> consensus_state \<Rightarrow> storage_error + 's"
  get_consensus_state :: "'s \<Rightarrow> storage_error + consensus_state option"
  get_account :: "'s \<Rightarrow> address \<Rightarrow> storage_error + account_info option"
  save_account :: "'s \<Rightarrow> address \<Rightarrow> account_info \<Rightarrow> storage_error + 's"
  get_code :: "'s \<Rightarrow> hash \<Rightarrow> storage_error + bytes option"
  save_code :: "'s \<Rightarrow> hash \<Rightarrow> bytes \<Rightarrow> storage_error + 's"
  get_storage :: "'s \<Rightarrow> address \<Rightarrow> u256 \<Rightarrow> storage_error + u256"
  save_storage :: "'s \<Rightarrow> address \<Rightarrow> u256 \<Rightarrow> u256 \<Rightarrow> storage_error + 's"
  get_smt_branch :: "'s \<Rightarrow> u8 \<Rightarrow> hash \<Rightarrow> storage_error + bytes option"
  save_smt_branch :: "'s \<Rightarrow> u8 \<Rightarrow> hash \<Rightarrow> bytes \<Rightarrow> storage_error + 's"
  get_smt_leaf :: "'s \<Rightarrow> hash \<Rightarrow> storage_error + bytes option"
  save_smt_leaf :: "'s \<Rightarrow> hash \<Rightarrow> bytes \<Rightarrow> storage_error + 's"

section \<open>In-memory storage\<close>

record mem_storage =
  ms_blocks :: "hash \<rightharpoonup> block"
  ms_qcs :: "view \<rightharpoonup> quorum_certificate"
  ms_state :: "consensus_state option"
  ms_accounts :: "address \<rightharpoonup> account_info"
  ms_code :: "hash \<rightharpoonup> bytes"
  ms_storage :: "address \<times> u256 \<rightharpoonup> u256"
  ms_smt_leaves :: "hash \<rightharpoonup> bytes"
  ms_smt_branches :: "u8 \<times> hash \<rightharpoonup> bytes"

definition new_mem_storage :: mem_storage where
  "new_mem_storage =
     \<lparr> ms_blocks = Map.empty, ms_qcs = Map.empty, ms_state = None, ms_accounts = Map.empty,
       ms_code = Map.empty, ms_storage = Map.empty, ms_smt_leaves = Map.empty,
       ms_smt_branches = Map.empty \<rparr>"

definition slot_value :: "mem_storage \<Rightarrow> address \<Rightarrow> u256 \<Rightarrow> u256" where
  "slot_value m a i = (case ms_storage m (a, i) of Some v \<Rightarrow> v | None \<Rightarrow> 0)"

definition mem_impl :: "('x) types_lib_scheme \<Rightarrow> mem_storage storage_trait" where
  "mem_impl X = \<lparr>
     save_block = (\<lambda>m b. Inr (m\<lparr>ms_blocks := (ms_blocks m)(hash_block X b \<mapsto> b)\<rparr>)),
     get_block = (\<lambda>m h. Inr (ms_blocks m h)),
     save_qc = (\<lambda>m qc. Inr (m\<lparr>ms_qcs := (ms_qcs m)(qc_view qc \<mapsto> qc)\<rparr>)),
     get_qc = (\<lambda>m v. Inr (ms_qcs m v)),
     save_consensus_state = (\<lambda>m cs. Inr (m\<lparr>ms_state := Some cs\<rparr>)),
     get_consensus_state = (\<lambda>m. Inr (ms_state m)),
     get_account = (\<lambda>m a. Inr (ms_accounts m a)),
     save_account = (\<lambda>m a i. Inr (m\<lparr>ms_accounts := (ms_accounts m)(a \<mapsto> i)\<rparr>)),
     get_code = (\<lambda>m h. Inr (ms_code m h)),
     save_code = (\<lambda>m h c. Inr (m\<lparr>ms_code := (ms_code m)(h \<mapsto> c)\<rparr>)),
     get_storage = (\<lambda>m a i. Inr (case ms_storage m (a, i) of Some v \<Rightarrow> v | None \<Rightarrow> 0)),
     save_storage = (\<lambda>m a i v. Inr (m\<lparr>ms_storage := (ms_storage m)((a, i) \<mapsto> v)\<rparr>)),
     get_smt_branch = (\<lambda>m ht k. Inr (ms_smt_branches m (ht, k))),
     save_smt_branch = (\<lambda>m ht k n. Inr (m\<lparr>ms_smt_branches := (ms_smt_branches m)((ht, k) \<mapsto> n)\<rparr>)),
     get_smt_leaf = (\<lambda>m h. Inr (ms_smt_leaves m h)),
     save_smt_leaf = (\<lambda>m h n. Inr (m\<lparr>ms_smt_leaves := (ms_smt_leaves m)(h \<mapsto> n)\<rparr>)) \<rparr>"

section \<open>The state overlay\<close>

text \<open>
  \<open>inner\<close> is shared by reference in the source; nothing writes to it while the overlay
  lives, and the overlay itself never does, so the overlay carries its value.
\<close>

record 's state_overlay =
  ov_inner :: 's
  ov_accounts :: "address \<rightharpoonup> account_info"
  ov_storage :: "address \<times> u256 \<rightharpoonup> u256"
  ov_code :: "hash \<rightharpoonup> bytes"
  ov_smt_leaves :: "hash \<rightharpoonup> bytes"
  ov_smt_branches :: "u8 \<times> hash \<rightharpoonup> bytes"

definition new_state_overlay :: "'s \<Rightarrow> 's state_overlay" where
  "new_state_overlay inner =
     \<lparr> ov_inner = inner, ov_accounts = Map.empty, ov_storage = Map.empty, ov_code = Map.empty,
       ov_smt_leaves = Map.empty, ov_smt_branches = Map.empty \<rparr>"

definition overlay_impl :: "'s storage_trait \<Rightarrow> 's state_overlay storage_trait" where
  "overlay_impl V = \<lparr>
     save_block = (\<lambda>s _. Inr s),
     get_block = (\<lambda>s h. get_block V (ov_inner s) h),
     save_qc = (\<lambda>s _. Inr s),
     get_qc = (\<lambda>s v. get_qc V (ov_inner s) v),
     save_consensus_state = (\<lambda>s _. Inr s),
     get_consensus_state = (\<lambda>s. get_consensus_state V (ov_inner s)),
     get_account = (\<lambda>s a. case ov_accounts s a of
        Some i \<Rightarrow> Inr (Some i) | None \<Rightarrow> get_account V (ov_inner s) a),
     save_account = (\<lambda>s a i. Inr (s\<lparr>ov_accounts := (ov_accounts s)(a \<mapsto> i)\<rparr>)),
     get_code = (\<lambda>s h. case ov_code s h of
        Some c \<Rightarrow> Inr (Some c) | None \<Rightarrow> get_code V (ov_inner s) h),
     save_code = (\<lambda>s h c. Inr (s\<lparr>ov_code := (ov_code s)(h \<mapsto> c)\<rparr>)),
     get_storage = (\<lambda>s a i. case ov_storage s (a, i) of
        Some v \<Rightarrow> Inr v | None \<Rightarrow> get_storage V (ov_inner s) a i),
     save_storage = (\<lambda>s a i v. Inr (s\<lparr>ov_storage := (ov_storage s)((a, i) \<mapsto> v)\<rparr>)),
     get_smt_branch = (\<lambda>s ht k. case ov_smt_branches s (ht, k) of
        Some n \<Rightarrow> Inr (Some n) | None \<Rightarrow> get_smt_branch V (ov_inner s) ht k),
     save_smt_branch = (\<lambda>s ht k n. Inr (s\<lparr>ov_smt_branches := (ov_smt_branches s)((ht, k) \<mapsto> n)\<rparr>)),
     get_smt_leaf = (\<lambda>s h. case ov_smt_leaves s h of
        Some n \<Rightarrow> Inr (Some n) | None \<Rightarrow> get_smt_leaf V (ov_inner s) h),
     save_smt_leaf = (\<lambda>s h n. Inr (s\<lparr>ov_smt_leaves := (ov_smt_leaves s)(h \<mapsto> n)\<rparr>)) \<rparr>"

section \<open>The contract of a storage implementation\<close>

text \<open>
  \<open>absm\<close> reads an implementation state as maps.  A read that succeeds returns what the maps
  hold and a write that succeeds updates exactly one of them; either may fail.
\<close>

locale evm_store =
  fixes V :: "'s storage_trait" and absm :: "'s \<Rightarrow> mem_storage"
  assumes get_block: "get_block V s h = Inr r \<Longrightarrow> r = ms_blocks (absm s) h"
    and get_qc: "get_qc V s v = Inr q \<Longrightarrow> q = ms_qcs (absm s) v"
    and get_consensus_state: "get_consensus_state V s = Inr c \<Longrightarrow> c = ms_state (absm s)"
    and get_account: "get_account V s a = Inr i \<Longrightarrow> i = ms_accounts (absm s) a"
    and get_code: "get_code V s h = Inr bs \<Longrightarrow> bs = ms_code (absm s) h"
    and get_storage: "get_storage V s a k = Inr w \<Longrightarrow> w = slot_value (absm s) a k"
    and get_smt_branch: "get_smt_branch V s ht h = Inr bs \<Longrightarrow> bs = ms_smt_branches (absm s) (ht, h)"
    and get_smt_leaf: "get_smt_leaf V s h = Inr bs \<Longrightarrow> bs = ms_smt_leaves (absm s) h"
    and save_account: "save_account V s a ai = Inr s' \<Longrightarrow>
          absm s' = (absm s)\<lparr>ms_accounts := (ms_accounts (absm s))(a \<mapsto> ai)\<rparr>"
    and save_code: "save_code V s h n = Inr s' \<Longrightarrow>
          absm s' = (absm s)\<lparr>ms_code := (ms_code (absm s))(h \<mapsto> n)\<rparr>"
    and save_storage: "save_storage V s a k w = Inr s' \<Longrightarrow>
          absm s' = (absm s)\<lparr>ms_storage := (ms_storage (absm s))((a, k) \<mapsto> w)\<rparr>"
    and save_smt_branch: "save_smt_branch V s ht h n = Inr s' \<Longrightarrow>
          absm s' = (absm s)\<lparr>ms_smt_branches := (ms_smt_branches (absm s))((ht, h) \<mapsto> n)\<rparr>"
    and save_smt_leaf: "save_smt_leaf V s h n = Inr s' \<Longrightarrow>
          absm s' = (absm s)\<lparr>ms_smt_leaves := (ms_smt_leaves (absm s))(h \<mapsto> n)\<rparr>"

locale chain_store = evm_store V absm
  for V :: "'s storage_trait" and absm :: "'s \<Rightarrow> mem_storage" +
  fixes hb :: "block \<Rightarrow> hash"
  assumes save_block: "save_block V s b = Inr s' \<Longrightarrow>
          absm s' = (absm s)\<lparr>ms_blocks := (ms_blocks (absm s))(hb b \<mapsto> b)\<rparr>"
    and save_qc: "save_qc V s q = Inr s' \<Longrightarrow>
          absm s' = (absm s)\<lparr>ms_qcs := (ms_qcs (absm s))(qc_view q \<mapsto> q)\<rparr>"
    and save_consensus_state: "save_consensus_state V s cs = Inr s' \<Longrightarrow>
          absm s' = (absm s)\<lparr>ms_state := Some cs\<rparr>"

text \<open>A store whose operations never fail, as the in-memory one.\<close>

locale reliable_store = chain_store V absm hb
  for V :: "'s storage_trait" and absm :: "'s \<Rightarrow> mem_storage" and hb :: "block \<Rightarrow> hash" +
  assumes get_block_ok: "\<exists>r. get_block V s h = Inr r"
    and get_qc_ok: "\<exists>r. get_qc V s v = Inr r"
    and get_consensus_state_ok: "\<exists>r. get_consensus_state V s = Inr r"
    and get_account_ok: "\<exists>r. get_account V s a = Inr r"
    and get_code_ok: "\<exists>r. get_code V s h = Inr r"
    and get_storage_ok: "\<exists>r. get_storage V s a k = Inr r"
    and get_smt_branch_ok: "\<exists>r. get_smt_branch V s ht h = Inr r"
    and get_smt_leaf_ok: "\<exists>r. get_smt_leaf V s h = Inr r"
    and save_block_ok: "\<exists>r. save_block V s b = Inr r"
    and save_qc_ok: "\<exists>r. save_qc V s q = Inr r"
    and save_consensus_state_ok: "\<exists>r. save_consensus_state V s cs = Inr r"
    and save_account_ok: "\<exists>r. save_account V s a ai = Inr r"
    and save_storage_ok: "\<exists>r. save_storage V s a k w = Inr r"
begin

lemma get_block_eq: "get_block V s h = Inr (ms_blocks (absm s) h)"
  using get_block_ok get_block by metis

lemma get_qc_eq: "get_qc V s v = Inr (ms_qcs (absm s) v)"
  using get_qc_ok get_qc by metis

lemma get_consensus_state_eq: "get_consensus_state V s = Inr (ms_state (absm s))"
  using get_consensus_state_ok get_consensus_state by metis

lemma get_account_eq: "get_account V s a = Inr (ms_accounts (absm s) a)"
  using get_account_ok get_account by metis

end

lemma mem_impl_simps [simp]:
  "save_block (mem_impl X) m b = Inr (m\<lparr>ms_blocks := (ms_blocks m)(hash_block X b \<mapsto> b)\<rparr>)"
  "get_block (mem_impl X) m h = Inr (ms_blocks m h)"
  "save_qc (mem_impl X) m q = Inr (m\<lparr>ms_qcs := (ms_qcs m)(qc_view q \<mapsto> q)\<rparr>)"
  "get_qc (mem_impl X) m v = Inr (ms_qcs m v)"
  "save_consensus_state (mem_impl X) m cs = Inr (m\<lparr>ms_state := Some cs\<rparr>)"
  "get_consensus_state (mem_impl X) m = Inr (ms_state m)"
  "get_account (mem_impl X) m a = Inr (ms_accounts m a)"
  "save_account (mem_impl X) m a i = Inr (m\<lparr>ms_accounts := (ms_accounts m)(a \<mapsto> i)\<rparr>)"
  "get_code (mem_impl X) m h = Inr (ms_code m h)"
  "save_code (mem_impl X) m h c = Inr (m\<lparr>ms_code := (ms_code m)(h \<mapsto> c)\<rparr>)"
  "get_storage (mem_impl X) m a k = Inr (slot_value m a k)"
  "save_storage (mem_impl X) m a k w = Inr (m\<lparr>ms_storage := (ms_storage m)((a, k) \<mapsto> w)\<rparr>)"
  "get_smt_branch (mem_impl X) m ht h = Inr (ms_smt_branches m (ht, h))"
  "save_smt_branch (mem_impl X) m ht h n =
     Inr (m\<lparr>ms_smt_branches := (ms_smt_branches m)((ht, h) \<mapsto> n)\<rparr>)"
  "get_smt_leaf (mem_impl X) m h = Inr (ms_smt_leaves m h)"
  "save_smt_leaf (mem_impl X) m h n = Inr (m\<lparr>ms_smt_leaves := (ms_smt_leaves m)(h \<mapsto> n)\<rparr>)"
  by (simp_all add: mem_impl_def slot_value_def)

interpretation mem: reliable_store "mem_impl X" "\<lambda>m. m" "hash_block X" for X
  by unfold_locales simp_all

section \<open>The overlay keeps the contract and never touches the inner store\<close>

definition overlay_abs :: "('s \<Rightarrow> mem_storage) \<Rightarrow> 's state_overlay \<Rightarrow> mem_storage" where
  "overlay_abs absm s = (let m = absm (ov_inner s) in
     m\<lparr> ms_accounts := ms_accounts m ++ ov_accounts s,
        ms_code := ms_code m ++ ov_code s,
        ms_storage := ms_storage m ++ ov_storage s,
        ms_smt_leaves := ms_smt_leaves m ++ ov_smt_leaves s,
        ms_smt_branches := ms_smt_branches m ++ ov_smt_branches s \<rparr>)"

lemma overlay_impl_simps [simp]:
  "save_block (overlay_impl V) s b = Inr s"
  "get_block (overlay_impl V) s h = get_block V (ov_inner s) h"
  "save_qc (overlay_impl V) s q = Inr s"
  "get_qc (overlay_impl V) s v = get_qc V (ov_inner s) v"
  "save_consensus_state (overlay_impl V) s cs = Inr s"
  "get_consensus_state (overlay_impl V) s = get_consensus_state V (ov_inner s)"
  "get_account (overlay_impl V) s a =
     (case ov_accounts s a of Some i \<Rightarrow> Inr (Some i) | None \<Rightarrow> get_account V (ov_inner s) a)"
  "save_account (overlay_impl V) s a i = Inr (s\<lparr>ov_accounts := (ov_accounts s)(a \<mapsto> i)\<rparr>)"
  "get_code (overlay_impl V) s h =
     (case ov_code s h of Some c \<Rightarrow> Inr (Some c) | None \<Rightarrow> get_code V (ov_inner s) h)"
  "save_code (overlay_impl V) s h c = Inr (s\<lparr>ov_code := (ov_code s)(h \<mapsto> c)\<rparr>)"
  "get_storage (overlay_impl V) s a k =
     (case ov_storage s (a, k) of Some w \<Rightarrow> Inr w | None \<Rightarrow> get_storage V (ov_inner s) a k)"
  "save_storage (overlay_impl V) s a k w = Inr (s\<lparr>ov_storage := (ov_storage s)((a, k) \<mapsto> w)\<rparr>)"
  "get_smt_branch (overlay_impl V) s ht h =
     (case ov_smt_branches s (ht, h) of Some n \<Rightarrow> Inr (Some n)
      | None \<Rightarrow> get_smt_branch V (ov_inner s) ht h)"
  "save_smt_branch (overlay_impl V) s ht h n =
     Inr (s\<lparr>ov_smt_branches := (ov_smt_branches s)((ht, h) \<mapsto> n)\<rparr>)"
  "get_smt_leaf (overlay_impl V) s h =
     (case ov_smt_leaves s h of Some n \<Rightarrow> Inr (Some n) | None \<Rightarrow> get_smt_leaf V (ov_inner s) h)"
  "save_smt_leaf (overlay_impl V) s h n = Inr (s\<lparr>ov_smt_leaves := (ov_smt_leaves s)(h \<mapsto> n)\<rparr>)"
  by (simp_all add: overlay_impl_def)

lemma overlay_abs_sel [simp]:
  "ms_blocks (overlay_abs absm s) = ms_blocks (absm (ov_inner s))"
  "ms_qcs (overlay_abs absm s) = ms_qcs (absm (ov_inner s))"
  "ms_state (overlay_abs absm s) = ms_state (absm (ov_inner s))"
  "ms_accounts (overlay_abs absm s) = ms_accounts (absm (ov_inner s)) ++ ov_accounts s"
  "ms_code (overlay_abs absm s) = ms_code (absm (ov_inner s)) ++ ov_code s"
  "ms_storage (overlay_abs absm s) = ms_storage (absm (ov_inner s)) ++ ov_storage s"
  "ms_smt_leaves (overlay_abs absm s) = ms_smt_leaves (absm (ov_inner s)) ++ ov_smt_leaves s"
  "ms_smt_branches (overlay_abs absm s) = ms_smt_branches (absm (ov_inner s)) ++ ov_smt_branches s"
  by (simp_all add: overlay_abs_def Let_def)

lemma overlay_slot_value:
  "slot_value (overlay_abs absm s) a k =
     (case ov_storage s (a, k) of Some w \<Rightarrow> w | None \<Rightarrow> slot_value (absm (ov_inner s)) a k)"
  by (simp add: slot_value_def map_add_def split: option.split)

context evm_store
begin

lemma overlay_store: "evm_store (overlay_impl V) (overlay_abs absm)"
  by unfold_locales
     (auto simp: overlay_slot_value map_add_def intro!: mem_storage.equality
           dest: get_block get_qc get_consensus_state get_account get_code get_storage
                 get_smt_branch get_smt_leaf
           split: option.splits)

end

interpretation mem_ov: evm_store "overlay_impl (mem_impl X)" "overlay_abs (\<lambda>m. m)" for X
  by (rule mem.overlay_store)

lemma new_overlay_abs: "overlay_abs absm (new_state_overlay s) = absm s"
  by (simp add: overlay_abs_def new_state_overlay_def Let_def)

end
