(* ===== verification/State_Manager.thy ===== *)
theory State_Manager
  imports Storage
begin

text \<open>
  The model of \<open>src/src/state.rs\<close>: the mirrors of the Merkle-tree nodes that are serialized,
  the store the sparse Merkle tree works on, and the state manager with the \<open>revm\<close> database
  interface (\<open>basic\<close>, \<open>code_by_hash\<close>, \<open>storage\<close>, \<open>block_hash\<close>).

  The \<open>sparse_merkle_tree\<close> and \<open>bincode\<close> crates are fields of \<open>state_lib\<close>.  The tree
  update reads its store through the two read operations it is given and answers with the list
  of writes it asks for and the new root (or an error); the writes go through the store's own
  operations.  The source keeps errors as printed text; the model keeps the error that was
  printed.  The tree and the manager share one storage object, so the model keeps the storage
  once, beside the root of the tree.
\<close>

section \<open>Tree nodes and their serialized mirrors\<close>

type_synonym h256 = "256 word"

datatype merge_value = Value h256 | MergeWithZero h256 h256 u8

record branch_node =
  bn_left :: merge_value
  bn_right :: merge_value

record branch_key =
  bk_height :: u8
  bk_node_key :: h256

datatype serde_merge_value = SerdeValue h256 | SerdeMergeWithZero h256 h256 u8

record serde_branch_node =
  sbn_left :: serde_merge_value
  sbn_right :: serde_merge_value

fun serde_of_merge_value :: "merge_value \<Rightarrow> serde_merge_value" where
  "serde_of_merge_value (Value h) = SerdeValue h"
| "serde_of_merge_value (MergeWithZero b z c) = SerdeMergeWithZero b z c"

fun merge_value_of_serde :: "serde_merge_value \<Rightarrow> merge_value" where
  "merge_value_of_serde (SerdeValue h) = Value h"
| "merge_value_of_serde (SerdeMergeWithZero b z c) = MergeWithZero b z c"

definition serde_of_branch_node :: "branch_node \<Rightarrow> serde_branch_node" where
  "serde_of_branch_node n =
     \<lparr> sbn_left = serde_of_merge_value (bn_left n), sbn_right = serde_of_merge_value (bn_right n) \<rparr>"

definition branch_node_of_serde :: "serde_branch_node \<Rightarrow> branch_node" where
  "branch_node_of_serde n =
     \<lparr> bn_left = merge_value_of_serde (sbn_left n), bn_right = merge_value_of_serde (sbn_right n) \<rparr>"

section \<open>Errors and libraries\<close>

datatype error_text = StorageText storage_error | BincodeText string | SmtText smt_error
and smt_error = Store error_text | SmtLibError string

datatype state_error = Smt error_text

datatype smt_write =
    InsertBranch branch_key branch_node
  | InsertLeaf h256 h256
  | RemoveBranch branch_key
  | RemoveLeaf h256

record state_lib = storage_lib +
  bincode_ser_branch :: "serde_branch_node \<Rightarrow> string + bytes"
  bincode_de_branch :: "bytes \<Rightarrow> string + serde_branch_node"
  bincode_ser_h256 :: "h256 \<Rightarrow> string + bytes"
  bincode_de_h256 :: "bytes \<Rightarrow> string + h256"
  smt_update ::
    "(branch_key \<Rightarrow> smt_error + branch_node option) \<Rightarrow> (h256 \<Rightarrow> smt_error + h256 option) \<Rightarrow>
     h256 \<Rightarrow> h256 \<Rightarrow> h256 \<Rightarrow> smt_write list \<times> (smt_error + h256)"
  bytecode_default :: bytes

section \<open>The store of the tree\<close>

definition smt_get_branch ::
  "('x) state_lib_scheme \<Rightarrow> 's storage_trait \<Rightarrow> 's \<Rightarrow> branch_key \<Rightarrow> smt_error + branch_node option" where
  "smt_get_branch X V s k =
     (case get_smt_branch V s (bk_height k) (Hash (bk_node_key k)) of
        Inr (Some bs) \<Rightarrow>
          (case bincode_de_branch X bs of
             Inl e \<Rightarrow> Inl (Store (BincodeText e))
           | Inr n \<Rightarrow> Inr (Some (branch_node_of_serde n)))
      | Inr None \<Rightarrow> Inr None
      | Inl e \<Rightarrow> Inl (Store (StorageText e)))"

definition smt_get_leaf ::
  "('x) state_lib_scheme \<Rightarrow> 's storage_trait \<Rightarrow> 's \<Rightarrow> h256 \<Rightarrow> smt_error + h256 option" where
  "smt_get_leaf X V s k =
     (case get_smt_leaf V s (Hash k) of
        Inr (Some bs) \<Rightarrow>
          (case bincode_de_h256 X bs of
             Inl e \<Rightarrow> Inl (Store (BincodeText e))
           | Inr v \<Rightarrow> Inr (Some v))
      | Inr None \<Rightarrow> Inr None
      | Inl e \<Rightarrow> Inl (Store (StorageText e)))"

definition smt_insert_branch ::
  "('x) state_lib_scheme \<Rightarrow> 's storage_trait \<Rightarrow> 's \<Rightarrow> branch_key \<Rightarrow> branch_node \<Rightarrow> smt_error + 's" where
  "smt_insert_branch X V s k n =
     (case bincode_ser_branch X (serde_of_branch_node n) of
        Inl e \<Rightarrow> Inl (Store (BincodeText e))
      | Inr bs \<Rightarrow>
          map_err (\<lambda>e. Store (StorageText e))
            (save_smt_branch V s (bk_height k) (Hash (bk_node_key k)) bs))"

definition smt_insert_leaf ::
  "('x) state_lib_scheme \<Rightarrow> 's storage_trait \<Rightarrow> 's \<Rightarrow> h256 \<Rightarrow> h256 \<Rightarrow> smt_error + 's" where
  "smt_insert_leaf X V s k v =
     (case bincode_ser_h256 X v of
        Inl e \<Rightarrow> Inl (Store (BincodeText e))
      | Inr bs \<Rightarrow> map_err (\<lambda>e. Store (StorageText e)) (save_smt_leaf V s (Hash k) bs))"

text \<open>\<open>remove_branch\<close> and \<open>remove_leaf\<close> do nothing.\<close>

definition smt_remove_branch :: "'s \<Rightarrow> branch_key \<Rightarrow> smt_error + 's" where
  "smt_remove_branch s k = Inr s"

definition smt_remove_leaf :: "'s \<Rightarrow> h256 \<Rightarrow> smt_error + 's" where
  "smt_remove_leaf s k = Inr s"

fun smt_apply_write ::
  "('x) state_lib_scheme \<Rightarrow> 's storage_trait \<Rightarrow> 's \<Rightarrow> smt_write \<Rightarrow> smt_error + 's" where
  "smt_apply_write X V s (InsertBranch k n) = smt_insert_branch X V s k n"
| "smt_apply_write X V s (InsertLeaf k v) = smt_insert_leaf X V s k v"
| "smt_apply_write X V s (RemoveBranch k) = smt_remove_branch s k"
| "smt_apply_write X V s (RemoveLeaf k) = smt_remove_leaf s k"

fun smt_apply_writes ::
  "('x) state_lib_scheme \<Rightarrow> 's storage_trait \<Rightarrow> 's \<Rightarrow> smt_write list \<Rightarrow> 's \<times> (smt_error + unit)" where
  "smt_apply_writes X V s [] = (s, Inr ())"
| "smt_apply_writes X V s (w # ws) =
     (case smt_apply_write X V s w of
        Inl e \<Rightarrow> (s, Inl e)
      | Inr s' \<Rightarrow> smt_apply_writes X V s' ws)"

section \<open>The state manager\<close>

record 's state_manager =
  sm_root :: h256
  sm_storage :: 's

definition new_state_manager :: "'s \<Rightarrow> hash option \<Rightarrow> 's state_manager" where
  "new_state_manager s initial_root =
     \<lparr> sm_root = (case initial_root of Some h \<Rightarrow> hash_val h | None \<Rightarrow> 0), sm_storage = s \<rparr>"

definition new_from_tree :: "'s \<Rightarrow> h256 \<Rightarrow> 's state_manager" where
  "new_from_tree s tree_root = \<lparr> sm_root = tree_root, sm_storage = s \<rparr>"

text \<open>\<open>fork\<close> takes only the storage and the root it is given.\<close>

definition fork :: "'t state_manager \<Rightarrow> hash \<Rightarrow> 's \<Rightarrow> 's state_manager" where
  "fork self new_root s = \<lparr> sm_root = hash_val new_root, sm_storage = s \<rparr>"

definition snapshot :: "'s state_manager \<Rightarrow> h256 \<times> 's" where
  "snapshot sm = (sm_root sm, sm_storage sm)"

definition root :: "'s state_manager \<Rightarrow> hash" where
  "root sm = Hash (sm_root sm)"

text \<open>
  \<open>update_account\<close>.  An address is hashed as its 20 bytes.  On an error the writes already
  made stay in the store and the root is not changed.
\<close>

definition update_account ::
  "('x) state_lib_scheme \<Rightarrow> 's storage_trait \<Rightarrow> 's state_manager \<Rightarrow> address \<Rightarrow> hash \<Rightarrow>
   's state_manager \<times> (state_error + hash)" where
  "update_account X V sm a account_hash =
     (let key = keccak256 X (be_bytes 20 a);
          (ws, res) = smt_update X (smt_get_branch X V (sm_storage sm)) (smt_get_leaf X V (sm_storage sm))
                        (sm_root sm) key (hash_val account_hash);
          (s', w) = smt_apply_writes X V (sm_storage sm) ws;
          sm' = sm\<lparr>sm_storage := s'\<rparr>
      in case w of
           Inl e \<Rightarrow> (sm', Inl (Smt (SmtText e)))
         | Inr _ \<Rightarrow>
             (case res of
                Inl e \<Rightarrow> (sm', Inl (Smt (SmtText e)))
              | Inr r \<Rightarrow> (sm'\<lparr>sm_root := r\<rparr>, Inr (Hash r))))"

definition commit_account ::
  "('x) state_lib_scheme \<Rightarrow> 's storage_trait \<Rightarrow> 's state_manager \<Rightarrow> address \<Rightarrow> account_info \<Rightarrow>
   's state_manager \<times> (state_error + unit)" where
  "commit_account X V sm a info =
     (case save_account V (sm_storage sm) a info of
        Inl e \<Rightarrow> (sm, Inl (Smt (StorageText e)))
      | Inr s' \<Rightarrow>
          (let (sm', r) = update_account X V (sm\<lparr>sm_storage := s'\<rparr>) a
                            (hash_data X (json_account_info X info))
           in case r of Inl e \<Rightarrow> (sm', Inl e) | Inr _ \<Rightarrow> (sm', Inr ())))"

definition commit_storage ::
  "'s storage_trait \<Rightarrow> 's state_manager \<Rightarrow> address \<Rightarrow> u256 \<Rightarrow> u256 \<Rightarrow>
   's state_manager \<times> (state_error + unit)" where
  "commit_storage V sm a index val =
     (case save_storage V (sm_storage sm) a index val of
        Inl e \<Rightarrow> (sm, Inl (Smt (StorageText e)))
      | Inr s' \<Rightarrow> (sm\<lparr>sm_storage := s'\<rparr>, Inr ()))"

definition sm_get_consensus_state ::
  "'s storage_trait \<Rightarrow> 's state_manager \<Rightarrow> state_error + consensus_state option" where
  "sm_get_consensus_state V sm =
     map_err (\<lambda>e. Smt (StorageText e)) (get_consensus_state V (sm_storage sm))"

definition sm_save_consensus_state ::
  "'s storage_trait \<Rightarrow> 's state_manager \<Rightarrow> consensus_state \<Rightarrow> state_error + 's state_manager" where
  "sm_save_consensus_state V sm cs =
     (case save_consensus_state V (sm_storage sm) cs of
        Inl e \<Rightarrow> Inl (Smt (StorageText e))
      | Inr s' \<Rightarrow> Inr (sm\<lparr>sm_storage := s'\<rparr>))"

section \<open>The database interface of the EVM\<close>

text \<open>A \<open>Bytecode\<close> is represented by its original bytes (\<open>new_raw\<close>, \<open>original_bytes\<close>).\<close>

record revm_account_info =
  ra_balance :: u256
  ra_nonce :: u64
  ra_code_hash :: h256
  ra_code :: "bytes option"

definition basic ::
  "'s storage_trait \<Rightarrow> 's state_manager \<Rightarrow> address \<Rightarrow> state_error + revm_account_info option" where
  "basic V sm a =
     (case get_account V (sm_storage sm) a of
        Inl e \<Rightarrow> Inl (Smt (StorageText e))
      | Inr None \<Rightarrow> Inr None
      | Inr (Some info) \<Rightarrow>
          (let acc = (\<lambda>code. \<lparr> ra_balance = ai_balance info, ra_nonce = ai_nonce info,
                              ra_code_hash = hash_val (ai_code_hash info), ra_code = code \<rparr>)
           in case ai_code info of
                Some c \<Rightarrow> Inr (Some (acc (Some c)))
              | None \<Rightarrow>
                  (if ai_code_hash info \<noteq> default_hash
                   then (case get_code V (sm_storage sm) (ai_code_hash info) of
                           Inl e \<Rightarrow> Inl (Smt (StorageText e))
                         | Inr code \<Rightarrow> Inr (Some (acc code)))
                   else Inr (Some (acc None)))))"

definition code_by_hash ::
  "('x) state_lib_scheme \<Rightarrow> 's storage_trait \<Rightarrow> 's state_manager \<Rightarrow> h256 \<Rightarrow> state_error + bytes" where
  "code_by_hash X V sm h =
     (case get_code V (sm_storage sm) (Hash h) of
        Inl e \<Rightarrow> Inl (Smt (StorageText e))
      | Inr (Some bs) \<Rightarrow> Inr bs
      | Inr None \<Rightarrow> Inr (bytecode_default X))"

definition sm_get_storage ::
  "'s storage_trait \<Rightarrow> 's state_manager \<Rightarrow> address \<Rightarrow> u256 \<Rightarrow> state_error + u256" where
  "sm_get_storage V sm a index =
     map_err (\<lambda>e. Smt (StorageText e)) (get_storage V (sm_storage sm) a index)"

text \<open>The bounded walk of \<open>block_hash\<close>: \<open>n\<close> is the number of iterations left of 256.\<close>

fun block_hash_walk :: "'s storage_trait \<Rightarrow> 's \<Rightarrow> nat \<Rightarrow> view \<Rightarrow> hash \<Rightarrow> state_error + h256" where
  "block_hash_walk V s 0 requested current = Inr 0"
| "block_hash_walk V s (Suc n) requested current =
     (if current = default_hash then Inr 0
      else case get_block V s current of
             Inl e \<Rightarrow> Inl (Smt (StorageText e))
           | Inr None \<Rightarrow> Inr 0
           | Inr (Some b) \<Rightarrow>
               (if b_view b = requested then Inr (hash_val current)
                else if b_view b < requested then Inr 0
                else block_hash_walk V s n requested (b_parent_hash b)))"

definition block_hash :: "'s storage_trait \<Rightarrow> 's state_manager \<Rightarrow> u256 \<Rightarrow> state_error + h256" where
  "block_hash V sm number =
     (if unat number \<ge> 2 ^ 64 then Inr 0
      else case get_consensus_state V (sm_storage sm) of
             Inl e \<Rightarrow> Inl (Smt (StorageText e))
           | Inr None \<Rightarrow> Inr 0
           | Inr (Some cs) \<Rightarrow>
               block_hash_walk V (sm_storage sm) 256 (ucast number) (cs_preferred_block cs))"

end
