(* ===== verification/Evidence_Pool.thy ===== *)
theory Evidence_Pool
  imports State_Manager
begin

text \<open>
  The model of \<open>src/src/evidence_pool.rs\<close>, and the interface \<open>item_pool\<close> that the evidence
  pool and the transaction pool share.

  The order in which a \<open>HashMap\<close> is iterated is not specified by the standard library; it is
  a parameter of the model, one field of \<open>pool_lib\<close> for each map the sources iterate.
\<close>

record pool_lib = state_lib +
  iter_evidences :: "(public_key, equivocation_evidence list) hmap \<Rightarrow> (public_key \<times> equivocation_evidence list) list"
  iter_transactions :: "(hash, transaction) hmap \<Rightarrow> (hash \<times> transaction) list"
  iter_votes :: "(public_key, vote) hmap \<Rightarrow> (public_key \<times> vote) list"

text \<open>Iteration visits every entry once.\<close>

definition iteration_ok :: "('x) pool_lib_scheme \<Rightarrow> bool" where
  "iteration_ok X = ((\<forall>m. mset (iter_evidences X m) = mset m) \<and>
     (\<forall>m. mset (iter_transactions X m) = mset m) \<and> (\<forall>m. mset (iter_votes X m) = mset m))"

section \<open>The pool\<close>

type_synonym evidence_pool = "(public_key, equivocation_evidence list) hmap"

definition new_evidence_pool :: evidence_pool where
  "new_evidence_pool = []"

text \<open>\<open>entry(author).or_default()\<close>.\<close>

definition entry_or_default :: "public_key \<Rightarrow> evidence_pool \<Rightarrow> evidence_pool" where
  "entry_or_default a p = (case map_of p a of Some _ \<Rightarrow> p | None \<Rightarrow> AList.update a [] p)"

definition evidences_of :: "evidence_pool \<Rightarrow> public_key \<Rightarrow> equivocation_evidence list" where
  "evidences_of p a = (case map_of p a of Some l \<Rightarrow> l | None \<Rightarrow> [])"

definition add_evidence ::
  "evidence_pool \<Rightarrow> equivocation_evidence \<Rightarrow> evidence_pool \<times> bool" where
  "add_evidence p e =
     (let author = v_author (vote_a e);
          p' = entry_or_default author p;
          existing = evidences_of p' author
      in if e \<in> set existing then (p', False)
         else if v_author (vote_a e) \<noteq> v_author (vote_b e) then (p', False)
         else if v_view (vote_a e) \<noteq> v_view (vote_b e) then (p', False)
         else if v_block_hash (vote_a e) = v_block_hash (vote_b e) then (p', False)
         else (AList.update author (existing @ [e]) p', True))"

definition get_all :: "('x) pool_lib_scheme \<Rightarrow> evidence_pool \<Rightarrow> equivocation_evidence list" where
  "get_all X p = concat (map snd (iter_evidences X p))"

definition remove_one_evidence :: "evidence_pool \<Rightarrow> equivocation_evidence \<Rightarrow> evidence_pool" where
  "remove_one_evidence p e =
     (case map_of p (v_author (vote_a e)) of
        None \<Rightarrow> p
      | Some l \<Rightarrow>
          (case position (\<lambda>x. x = e) l of
             None \<Rightarrow> p
           | Some pos \<Rightarrow> AList.update (v_author (vote_a e)) (remove_at pos l) p))"

fun remove_evidence :: "evidence_pool \<Rightarrow> equivocation_evidence list \<Rightarrow> evidence_pool" where
  "remove_evidence p [] = p"
| "remove_evidence p (e # es) = remove_evidence (remove_one_evidence p e) es"

definition evidence_len :: "('x) pool_lib_scheme \<Rightarrow> evidence_pool \<Rightarrow> nat" where
  "evidence_len X p = sum_list (map (\<lambda>(a, l). length l) (iter_evidences X p))"

definition evidence_is_empty :: "('x) pool_lib_scheme \<Rightarrow> evidence_pool \<Rightarrow> bool" where
  "evidence_is_empty X p = (evidence_len X p = 0)"

section \<open>Well-formed pools\<close>

definition valid_evidence :: "equivocation_evidence \<Rightarrow> bool" where
  "valid_evidence e = (v_author (vote_a e) = v_author (vote_b e) \<and>
     v_view (vote_a e) = v_view (vote_b e) \<and> v_block_hash (vote_a e) \<noteq> v_block_hash (vote_b e))"

definition evidence_wf :: "evidence_pool \<Rightarrow> bool" where
  "evidence_wf p = (hm_wf p \<and> (\<forall>a l. map_of p a = Some l \<longrightarrow>
     distinct l \<and> (\<forall>e \<in> set l. valid_evidence e \<and> v_author (vote_a e) = a)))"

definition evidence_items :: "evidence_pool \<Rightarrow> equivocation_evidence set" where
  "evidence_items p = {e. \<exists>l. map_of p (v_author (vote_a e)) = Some l \<and> e \<in> set l}"

lemma evidence_wf_new: "evidence_wf new_evidence_pool"
  by (simp add: evidence_wf_def new_evidence_pool_def)

lemma evidence_items_new [simp]: "evidence_items new_evidence_pool = {}"
  by (simp add: evidence_items_def new_evidence_pool_def)

lemma evidence_wf_update:
  assumes "evidence_wf p" and "distinct l"
    and "\<And>e. e \<in> set l \<Longrightarrow> valid_evidence e \<and> v_author (vote_a e) = a"
  shows "evidence_wf (AList.update a l p)"
  using assms by (auto simp: evidence_wf_def)

lemma in_evidences_of: "e \<in> set (evidences_of p a) \<longleftrightarrow> (\<exists>l. map_of p a = Some l \<and> e \<in> set l)"
  by (cases "map_of p a") (simp_all add: evidences_of_def)

lemma evidences_of_update [simp]:
  "evidences_of (AList.update a l p) b = (if b = a then l else evidences_of p b)"
  by (simp add: evidences_of_def)

lemma evidences_of_distinct: "evidence_wf p \<Longrightarrow> distinct (evidences_of p a)"
  by (cases "map_of p a") (auto simp: evidences_of_def evidence_wf_def)

lemma evidences_of_valid:
  "evidence_wf p \<Longrightarrow> e \<in> set (evidences_of p a) \<Longrightarrow> valid_evidence e \<and> v_author (vote_a e) = a"
  by (cases "map_of p a") (auto simp: evidences_of_def evidence_wf_def)

lemma entry_or_default_wf: "evidence_wf p \<Longrightarrow> evidence_wf (entry_or_default a p)"
  by (cases "map_of p a") (auto simp: entry_or_default_def intro: evidence_wf_update)

lemma entry_or_default_of [simp]: "evidences_of (entry_or_default a p) b = evidences_of p b"
  by (cases "map_of p a") (simp_all add: entry_or_default_def evidences_of_def)

lemma evidence_items_alt: "evidence_items p = {e. e \<in> set (evidences_of p (v_author (vote_a e)))}"
  by (simp add: evidence_items_def in_evidences_of)

lemma evidence_items_update:
  "evidence_items (AList.update a l p) =
     {e \<in> evidence_items p. v_author (vote_a e) \<noteq> a} \<union> {e \<in> set l. v_author (vote_a e) = a}"
  by (auto simp: evidence_items_alt)

lemma entry_or_default_items [simp]: "evidence_items (entry_or_default a p) = evidence_items p"
  by (simp add: evidence_items_alt)

lemma evidences_of_items: "e \<in> set (evidences_of p (v_author (vote_a e))) \<longleftrightarrow> e \<in> evidence_items p"
  by (simp add: evidence_items_alt)

lemma add_evidence_alt:
  "add_evidence p e =
     (let a = v_author (vote_a e); p' = entry_or_default a p
      in if valid_evidence e \<and> e \<notin> evidence_items p
         then (AList.update a (evidences_of p a @ [e]) p', True) else (p', False))"
  by (auto simp: add_evidence_def Let_def valid_evidence_def evidences_of_items)

lemma add_evidence_wf:
  assumes "evidence_wf p"
  shows "evidence_wf (fst (add_evidence p e))"
proof -
  let ?a = "v_author (vote_a e)" let ?p = "entry_or_default ?a p"
  have wf: "evidence_wf ?p" using assms by (rule entry_or_default_wf)
  have "valid_evidence e \<Longrightarrow> e \<notin> evidence_items p \<Longrightarrow>
      evidence_wf (AList.update ?a (evidences_of p ?a @ [e]) ?p)"
    using assms by (intro evidence_wf_update [OF wf])
       (auto intro: evidences_of_distinct dest: evidences_of_valid simp: evidences_of_items)
  with wf show ?thesis by (simp add: add_evidence_alt Let_def)
qed

lemma add_evidence_result:
  "snd (add_evidence p e) \<longleftrightarrow> valid_evidence e \<and> e \<notin> evidence_items p"
  by (simp add: add_evidence_alt Let_def)

lemma add_evidence_items:
  "evidence_items (fst (add_evidence p e)) =
     (if valid_evidence e then insert e (evidence_items p) else evidence_items p)"
proof -
  let ?a = "v_author (vote_a e)" let ?p = "entry_or_default ?a p"
  have "evidence_items (AList.update ?a (evidences_of p ?a @ [e]) ?p) = insert e (evidence_items p)"
    by (auto simp: evidence_items_alt)
  then show ?thesis by (simp add: add_evidence_alt Let_def insert_absorb)
qed

lemma remove_one_alt:
  "remove_one_evidence p e =
     (case map_of p (v_author (vote_a e)) of
        None \<Rightarrow> p
      | Some l \<Rightarrow> (if e \<in> set l then AList.update (v_author (vote_a e)) (remove1 e l) p else p))"
proof (cases "map_of p (v_author (vote_a e))")
  case l: (Some l)
  show ?thesis
  proof (cases "position (\<lambda>x. x = e) l")
    case None
    then have "e \<notin> set l" by (auto simp: position_eq_None)
    with None l show ?thesis by (simp add: remove_one_evidence_def)
  next
    case (Some i)
    have "e \<in> set l" using position_SomeD [OF Some] nth_mem by metis
    moreover have "remove_at i l = remove1 e l"
      using Some remove_first_eq_remove1 [of e l] unfolding remove_first_def by simp
    ultimately show ?thesis
      using Some l by (simp add: remove_one_evidence_def)
  qed
qed (simp add: remove_one_evidence_def)

lemma evidence_wfD:
  assumes "evidence_wf p" and "map_of p a = Some l"
  shows "distinct l" and "\<And>e. e \<in> set l \<Longrightarrow> valid_evidence e \<and> v_author (vote_a e) = a"
  using assms unfolding evidence_wf_def by blast+

lemma remove_one_evidence_wf:
  assumes "evidence_wf p"
  shows "evidence_wf (remove_one_evidence p e)"
proof (cases "map_of p (v_author (vote_a e))")
  case (Some l)
  note l = evidence_wfD [OF assms Some]
  have "evidence_wf (AList.update (v_author (vote_a e)) (remove1 e l) p)"
    using assms l by (intro evidence_wf_update) (auto dest: notin_set_remove1)
  with assms Some show ?thesis by (simp add: remove_one_alt)
qed (use assms in \<open>simp add: remove_one_alt\<close>)

lemma remove_one_evidence_items:
  assumes "evidence_wf p"
  shows "evidence_items (remove_one_evidence p e) = evidence_items p - {e}"
proof (cases "map_of p (v_author (vote_a e))")
  case None
  then show ?thesis by (auto simp: remove_one_alt evidence_items_def)
next
  case (Some l)
  define a where "a = v_author (vote_a e)"
  have l: "map_of p a = Some l" using Some by (simp add: a_def)
  have "evidence_items (AList.update a (remove1 e l) p) = evidence_items p - {e}"
  proof -
    have "x \<in> evidence_items p \<longleftrightarrow> x \<in> set l" if "v_author (vote_a x) = a" for x
      using l that by (simp add: evidence_items_def)
    moreover have "set (remove1 e l) = set l - {e}"
      using evidence_wfD(1) [OF assms l] by simp
    moreover have "v_author (vote_a e) = a" by (simp add: a_def)
    ultimately show ?thesis unfolding evidence_items_update by blast
  qed
  moreover have "e \<in> evidence_items p \<longleftrightarrow> e \<in> set l" using Some by (simp add: evidence_items_def)
  ultimately show ?thesis using l by (simp add: remove_one_alt a_def)
qed

lemma remove_evidence_wf: "evidence_wf p \<Longrightarrow> evidence_wf (remove_evidence p es)"
  by (induction es arbitrary: p) (auto intro: remove_one_evidence_wf)

lemma remove_evidence_items:
  "evidence_wf p \<Longrightarrow> evidence_items (remove_evidence p es) = evidence_items p - set es"
  by (induction es arbitrary: p) (auto simp: remove_one_evidence_items remove_one_evidence_wf)

lemma iter_evidences_set: "iteration_ok X \<Longrightarrow> set (iter_evidences X p) = set p"
  unfolding iteration_ok_def by (metis set_mset_mset)

lemma get_all_items:
  assumes "iteration_ok X" and "evidence_wf p"
  shows "set (get_all X p) = evidence_items p"
proof -
  have hm: "hm_wf p" using assms(2) by (simp add: evidence_wf_def)
  have "e \<in> set (get_all X p) \<longleftrightarrow> (\<exists>a l. map_of p a = Some l \<and> e \<in> set l)" for e
    unfolding get_all_def hm_in_set_iff [OF hm, symmetric]
    using iter_evidences_set [OF assms(1)] by force
  moreover have "(\<exists>a l. map_of p a = Some l \<and> e \<in> set l) \<longleftrightarrow> e \<in> evidence_items p" for e
    unfolding evidence_items_def using evidence_wfD(2) [OF assms(2)] by blast
  ultimately show ?thesis by blast
qed

lemma evidence_len_get_all: "evidence_len X p = length (get_all X p)"
  by (simp add: evidence_len_def get_all_def length_concat comp_def case_prod_unfold)

section \<open>The interface shared by the pools\<close>

text \<open>
  A pool holds a set of items; processing a block removes the items the block contains, each
  known by its key.
\<close>

locale item_pool =
  fixes wf :: "'p \<Rightarrow> bool" and items :: "'p \<Rightarrow> 'i set"
    and remove :: "'p \<Rightarrow> 'c list \<Rightarrow> 'p" and key :: "'c \<Rightarrow> 'i"
  assumes remove_wf: "wf p \<Longrightarrow> wf (remove p cs)"
    and remove_items: "wf p \<Longrightarrow> items (remove p cs) = items p - key ` set cs"
begin

lemma removed_absent: "wf p \<Longrightarrow> c \<in> set cs \<Longrightarrow> key c \<notin> items (remove p cs)"
  by (auto simp: remove_items)

lemma remove_idem: "wf p \<Longrightarrow> items (remove (remove p cs) cs) = items (remove p cs)"
  by (auto simp: remove_items remove_wf)

lemma remove_order: "wf p \<Longrightarrow> set cs = set ds \<Longrightarrow> items (remove p cs) = items (remove p ds)"
  by (simp add: remove_items)

lemma remove_keeps: "wf p \<Longrightarrow> i \<in> items p \<Longrightarrow> i \<notin> key ` set cs \<Longrightarrow> i \<in> items (remove p cs)"
  by (simp add: remove_items)

end

interpretation evp: item_pool evidence_wf evidence_items remove_evidence "\<lambda>e. e"
  by unfold_locales (simp_all add: remove_evidence_wf remove_evidence_items)

end
