(* ===== verification/Tx_Pool.thy ===== *)
theory Tx_Pool
  imports Evidence_Pool "HOL-Library.Sublist"
begin

text \<open>
  The model of \<open>src/src/tx_pool.rs\<close>: admission of transactions, the selection for a block and
  the removal of included transactions.  \<open>slice::sort_by\<close> is a stable sort for a comparator
  that is a total preorder; the locale \<open>comparator\<close> states those laws and proves the facts
  about the sort, and the comparator of the source is shown to satisfy them.
\<close>

section \<open>State and errors\<close>

datatype pool_error =
    AlreadyExists
  | InvalidSignature
  | InvalidNonce u64 u64
  | PoolStorageError storage_error
  | GasLimitExceeded u64 u64

record tx_pool =
  tp_transactions :: "(hash, transaction) hmap"
  tp_queue :: "hash list"

definition new_tx_pool :: tx_pool where
  "new_tx_pool = \<lparr> tp_transactions = [], tp_queue = [] \<rparr>"

section \<open>Admission\<close>

definition add_transaction ::
  "('x) pool_lib_scheme \<Rightarrow> 's storage_trait \<Rightarrow> 's \<Rightarrow> tx_pool \<Rightarrow> transaction \<Rightarrow>
   tx_pool \<times> (pool_error + unit)" where
  "add_transaction X V s p tx =
     (if tx_gas_limit tx > MAX_TX_GAS_LIMIT
      then (p, Inl (GasLimitExceeded MAX_TX_GAS_LIMIT (tx_gas_limit tx)))
      else if \<not> verify X (tx_public_key tx) (hash_bytes (sighash X tx)) (tx_signature tx)
      then (p, Inl InvalidSignature)
      else case get_account V s (sender X tx) of
             Inl e \<Rightarrow> (p, Inl (PoolStorageError e))
           | Inr acc \<Rightarrow>
               (let account_nonce = (case acc of Some a \<Rightarrow> ai_nonce a | None \<Rightarrow> 0) in
                if tx_nonce tx < account_nonce
                then (p, Inl (InvalidNonce account_nonce (tx_nonce tx)))
                else let h = hash_transaction X tx in
                     if map_of (tp_transactions p) h \<noteq> None then (p, Inl AlreadyExists)
                     else (p\<lparr>tp_transactions := AList.update h tx (tp_transactions p),
                             tp_queue := tp_queue p @ [h]\<rparr>, Inr ())))"

section \<open>Selection\<close>

datatype ordering = Less | Equal | Greater

definition cmp :: "'a::linorder \<Rightarrow> 'a \<Rightarrow> ordering" where
  "cmp a b = (if a < b then Less else if a = b then Equal else Greater)"

definition effective_tip :: "u256 \<Rightarrow> transaction \<Rightarrow> u256" where
  "effective_tip base_fee tx =
     min (tx_max_priority_fee_per_gas tx) (tx_max_fee_per_gas tx - base_fee)"

definition tx_cmp :: "u256 \<Rightarrow> transaction \<Rightarrow> transaction \<Rightarrow> ordering" where
  "tx_cmp base_fee a b =
     (let tip_a = effective_tip base_fee a;
          tip_b = effective_tip base_fee b;
          c = cmp tip_b tip_a
      in if c = Equal
         then if tx_public_key a = tx_public_key b
              then cmp (tx_nonce a) (tx_nonce b)
              else cmp (tx_public_key a) (tx_public_key b)
         else c)"

fun insert_by :: "('a \<Rightarrow> 'a \<Rightarrow> ordering) \<Rightarrow> 'a \<Rightarrow> 'a list \<Rightarrow> 'a list" where
  "insert_by c x [] = [x]"
| "insert_by c x (y # ys) = (if c x y = Greater then y # insert_by c x ys else x # y # ys)"

definition sort_by :: "('a \<Rightarrow> 'a \<Rightarrow> ordering) \<Rightarrow> 'a list \<Rightarrow> 'a list" where
  "sort_by c xs = foldr (insert_by c) xs []"

fun select_fitting :: "u64 \<Rightarrow> u64 \<Rightarrow> transaction list \<Rightarrow> transaction list" where
  "select_fitting limit current_gas [] = []"
| "select_fitting limit current_gas (tx # txs) =
     (let fits = current_gas + tx_gas_limit tx \<le> limit;
          gas = (if fits then current_gas + tx_gas_limit tx else current_gas);
          taken = (if fits then [tx] else [])
      in if gas \<ge> limit then taken else taken @ select_fitting limit gas txs)"

definition get_transactions_for_block ::
  "('x) pool_lib_scheme \<Rightarrow> tx_pool \<Rightarrow> u64 \<Rightarrow> u256 \<Rightarrow> transaction list" where
  "get_transactions_for_block X p block_gas_limit base_fee =
     (let all_txs = filter (\<lambda>tx. tx_max_fee_per_gas tx \<ge> base_fee)
                      (map snd (iter_transactions X (tp_transactions p)))
      in select_fitting block_gas_limit 0 (sort_by (tx_cmp base_fee) all_txs))"

section \<open>Removal\<close>

definition remove_one_transaction :: "('x) pool_lib_scheme \<Rightarrow> tx_pool \<Rightarrow> transaction \<Rightarrow> tx_pool" where
  "remove_one_transaction X p tx =
     (let h = hash_transaction X tx in
      case map_of (tp_transactions p) h of
        None \<Rightarrow> p
      | Some _ \<Rightarrow>
          p\<lparr>tp_transactions := AList.delete h (tp_transactions p),
            tp_queue := remove_first (\<lambda>q. q = h) (tp_queue p)\<rparr>)"

fun remove_transactions :: "('x) pool_lib_scheme \<Rightarrow> tx_pool \<Rightarrow> transaction list \<Rightarrow> tx_pool" where
  "remove_transactions X p [] = p"
| "remove_transactions X p (tx # txs) = remove_transactions X (remove_one_transaction X p tx) txs"

definition pool_len :: "tx_pool \<Rightarrow> nat" where
  "pool_len p = length (tp_transactions p)"

definition pool_is_empty :: "tx_pool \<Rightarrow> bool" where
  "pool_is_empty p = (tp_transactions p = [])"

section \<open>Sorting by a comparator\<close>

locale comparator =
  fixes c :: "'a \<Rightarrow> 'a \<Rightarrow> ordering"
  assumes le_total: "c x y = Greater \<Longrightarrow> c y x \<noteq> Greater"
    and le_trans: "c x y \<noteq> Greater \<Longrightarrow> c y z \<noteq> Greater \<Longrightarrow> c x z \<noteq> Greater"
begin

lemma mset_insert_by: "mset (insert_by c x ys) = add_mset x (mset ys)"
  by (induction ys) auto

lemma mset_sort_by: "mset (sort_by c xs) = mset xs"
  by (induction xs) (simp_all add: sort_by_def mset_insert_by)

lemma set_insert_by: "set (insert_by c x ys) = insert x (set ys)"
  by (induction ys) auto

lemma sorted_insert_by:
  "sorted_wrt (\<lambda>a b. c a b \<noteq> Greater) ys \<Longrightarrow> sorted_wrt (\<lambda>a b. c a b \<noteq> Greater) (insert_by c x ys)"
proof (induction ys)
  case (Cons y ys)
  then show ?case by (auto simp: set_insert_by dest: le_total) (use le_trans in blast)
qed simp

lemma sorted_sort_by: "sorted_wrt (\<lambda>a b. c a b \<noteq> Greater) (sort_by c xs)"
  by (induction xs) (simp_all add: sort_by_def sorted_insert_by)

end

text \<open>The comparator of the source is the lexicographic order on tip (descending), key, nonce.\<close>

lemma cmp_simps [simp]:
  "cmp a b = Greater \<longleftrightarrow> b < a" "cmp a b = Equal \<longleftrightarrow> a = b" "cmp a b = Less \<longleftrightarrow> a < b"
  for a b :: "'a::linorder"
  by (auto simp: cmp_def)

lemma tx_cmp_Greater:
  "tx_cmp f a b = Greater \<longleftrightarrow>
     effective_tip f a < effective_tip f b \<or>
     effective_tip f a = effective_tip f b \<and>
       (tx_public_key b < tx_public_key a \<or>
        tx_public_key b = tx_public_key a \<and> tx_nonce b < tx_nonce a)"
  by (auto simp: tx_cmp_def Let_def)

lemma tx_cmp_not_Greater:
  "tx_cmp f a b \<noteq> Greater \<longleftrightarrow>
     effective_tip f b < effective_tip f a \<or>
     effective_tip f b = effective_tip f a \<and>
       (tx_public_key a < tx_public_key b \<or>
        tx_public_key a = tx_public_key b \<and> tx_nonce a \<le> tx_nonce b)"
  unfolding tx_cmp_Greater
  by (cases "effective_tip f a" "effective_tip f b" rule: linorder_cases;
      cases "tx_public_key a" "tx_public_key b" rule: linorder_cases) auto

interpretation txc: comparator "tx_cmp f" for f
proof
  fix x y z
  show "tx_cmp f x y = Greater \<Longrightarrow> tx_cmp f y x \<noteq> Greater"
    unfolding tx_cmp_not_Greater unfolding tx_cmp_Greater by auto
  show "tx_cmp f x y \<noteq> Greater \<Longrightarrow> tx_cmp f y z \<noteq> Greater \<Longrightarrow> tx_cmp f x z \<noteq> Greater"
    unfolding tx_cmp_not_Greater by (elim disjE conjE) auto
qed

section \<open>The selection loop\<close>

lemma select_fitting_subseq: "subseq (select_fitting limit gas txs) txs"
  by (induction limit gas txs rule: select_fitting.induct) (auto simp: Let_def)

lemma sorted_wrt_subseq: "subseq xs ys \<Longrightarrow> sorted_wrt P ys \<Longrightarrow> sorted_wrt P xs"
  by (induction rule: list_emb.induct) (auto dest: list_emb_set)

lemma subseq_subset: "subseq xs ys \<Longrightarrow> set xs \<subseteq> set ys"
  by (auto dest: list_emb_set)

lemma subseq_mset: "subseq xs ys \<Longrightarrow> mset xs \<subseteq># mset ys"
  by (induction rule: list_emb.induct) (auto intro: subset_mset.order_trans)

abbreviation gas_sum :: "transaction list \<Rightarrow> nat" where
  "gas_sum txs \<equiv> sum_list (map (\<lambda>tx. unat (tx_gas_limit tx)) txs)"

lemma select_fitting_gas:
  assumes "\<And>tx. tx \<in> set txs \<Longrightarrow> tx_gas_limit tx \<le> MAX_TX_GAS_LIMIT"
    and "unat limit + 2 ^ 24 < 2 ^ 64" and "gas \<le> limit"
  shows "unat gas + gas_sum (select_fitting limit gas txs) \<le> unat limit"
  using assms
proof (induction limit gas txs rule: select_fitting.induct)
  case (2 limit gas tx txs)
  let ?g = "tx_gas_limit tx"
  have "unat ?g \<le> 2 ^ 24"
    using "2.prems"(1) [of tx] by (simp add: MAX_TX_GAS_LIMIT_def word_le_nat_alt)
  then have sum: "unat (gas + ?g) = unat gas + unat ?g"
    using "2.prems"(2,3) by (intro unat_plus_u64) (simp add: word_le_nat_alt)
  show ?case
  proof (cases "gas + ?g \<le> limit")
    case True
    then have le: "unat gas + unat ?g \<le> unat limit" using sum by (simp add: word_le_nat_alt)
    show ?thesis
    proof (cases "limit \<le> gas + ?g")
      case full: True
      with True le show ?thesis by (simp add: Let_def)
    next
      case False
      have "unat (gas + ?g) + gas_sum (select_fitting limit (gas + ?g) txs) \<le> unat limit"
        using "2.IH" [of True "gas + ?g" "[tx]"] True False "2.prems" by simp
      with True False sum show ?thesis by (simp add: Let_def)
    qed
  next
    case False
    then show ?thesis
      using "2.IH" [of False gas "[]"] "2.prems"
      by (cases "limit \<le> gas") (auto simp: Let_def word_le_nat_alt)
  qed
qed (simp add: word_le_nat_alt)

lemma select_fitting_maximal:
  assumes "tx \<in> set txs" and "tx \<notin> set (select_fitting limit gas txs)"
    and "\<And>t. t \<in> set txs \<Longrightarrow> tx_gas_limit t \<le> MAX_TX_GAS_LIMIT"
    and "unat limit + 2 ^ 24 < 2 ^ 64" and "gas \<le> limit"
  shows "unat limit < unat gas + gas_sum (select_fitting limit gas txs) + unat (tx_gas_limit tx) \<or>
    unat gas + gas_sum (select_fitting limit gas txs) = unat limit"
  using assms
proof (induction limit gas txs rule: select_fitting.induct)
  case (2 limit gas t txs)
  let ?g = "tx_gas_limit t"
  have "unat ?g \<le> 2 ^ 24"
    using "2.prems"(3) [of t] by (simp add: MAX_TX_GAS_LIMIT_def word_le_nat_alt)
  then have sum: "unat (gas + ?g) = unat gas + unat ?g"
    using "2.prems"(4,5) by (intro unat_plus_u64) (simp add: word_le_nat_alt)
  show ?case
  proof (cases "gas + ?g \<le> limit")
    case True
    then have tx: "tx \<in> set txs" using "2.prems"(1,2) by (auto simp: Let_def split: if_splits)
    show ?thesis
    proof (cases "limit \<le> gas + ?g")
      case full: True
      with True sum show ?thesis by (simp add: Let_def word_le_nat_alt)
    next
      case False
      have "unat limit < unat (gas + ?g) + gas_sum (select_fitting limit (gas + ?g) txs) + unat (tx_gas_limit tx) \<or>
          unat (gas + ?g) + gas_sum (select_fitting limit (gas + ?g) txs) = unat limit"
        using "2.IH" [of True "gas + ?g" "[t]"] True False tx "2.prems" by (simp add: Let_def)
      with True False sum show ?thesis by (simp add: Let_def add.assoc)
    qed
  next
    case False
    show ?thesis
    proof (cases "tx = t")
      case True
      with False sum have "unat limit < unat gas + unat (tx_gas_limit tx)"
        by (simp add: word_le_nat_alt)
      then show ?thesis by linarith
    next
      case ne: False
      show ?thesis
      proof (cases "limit \<le> gas")
        case True
        with False "2.prems"(5) show ?thesis by (simp add: Let_def word_le_nat_alt)
      next
        case gas: False
        with "2.IH" [of False gas "[]"] False ne "2.prems" show ?thesis by (simp add: Let_def)
      qed
    qed
  qed
qed simp

section \<open>Well-formed pools\<close>

definition pool_wf :: "('x) pool_lib_scheme \<Rightarrow> tx_pool \<Rightarrow> bool" where
  "pool_wf X p = (hm_wf (tp_transactions p) \<and> distinct (tp_queue p) \<and>
     set (tp_queue p) = dom (map_of (tp_transactions p)) \<and>
     (\<forall>h tx. map_of (tp_transactions p) h = Some tx \<longrightarrow>
        h = hash_transaction X tx \<and> tx_gas_limit tx \<le> MAX_TX_GAS_LIMIT \<and>
        verify X (tx_public_key tx) (hash_bytes (sighash X tx)) (tx_signature tx)))"

definition pool_items :: "tx_pool \<Rightarrow> hash set" where
  "pool_items p = dom (map_of (tp_transactions p))"

lemma pool_wf_new: "pool_wf X new_tx_pool"
  by (simp add: pool_wf_def new_tx_pool_def)

lemma pool_wfD:
  assumes "pool_wf X p" and "map_of (tp_transactions p) h = Some tx"
  shows "h = hash_transaction X tx" "tx_gas_limit tx \<le> MAX_TX_GAS_LIMIT"
    "verify X (tx_public_key tx) (hash_bytes (sighash X tx)) (tx_signature tx)"
  using assms unfolding pool_wf_def by blast+

lemma add_transaction_cases:
  "add_transaction X V s p tx = (p', r) \<Longrightarrow>
     (\<exists>e. r = Inl e \<and> p' = p) \<or>
     (r = Inr () \<and> tx_gas_limit tx \<le> MAX_TX_GAS_LIMIT \<and>
      verify X (tx_public_key tx) (hash_bytes (sighash X tx)) (tx_signature tx) \<and>
      map_of (tp_transactions p) (hash_transaction X tx) = None \<and>
      (\<exists>acc. get_account V s (sender X tx) = Inr acc \<and>
         (case acc of Some a \<Rightarrow> ai_nonce a \<le> tx_nonce tx | None \<Rightarrow> True)) \<and>
      p' = p\<lparr>tp_transactions := AList.update (hash_transaction X tx) tx (tp_transactions p),
             tp_queue := tp_queue p @ [hash_transaction X tx]\<rparr>)"
  by (auto simp: add_transaction_def Let_def not_less not_le split: if_splits sum.splits option.splits)

lemma add_transaction_wf:
  assumes "pool_wf X p" and "add_transaction X V s p tx = (p', r)"
  shows "pool_wf X p'"
  using add_transaction_cases [OF assms(2)]
proof (elim disjE exE conjE)
  assume new: "map_of (tp_transactions p) (hash_transaction X tx) = None"
    and "tx_gas_limit tx \<le> MAX_TX_GAS_LIMIT"
      "verify X (tx_public_key tx) (hash_bytes (sighash X tx)) (tx_signature tx)"
    and [simp]: "p' = p\<lparr>tp_transactions := AList.update (hash_transaction X tx) tx (tp_transactions p),
             tp_queue := tp_queue p @ [hash_transaction X tx]\<rparr>"
  with assms(1) show ?thesis unfolding pool_wf_def by (simp add: domIff)
qed (use assms(1) in simp)

lemma remove_one_transaction_wf:
  assumes "pool_wf X p"
  shows "pool_wf X (remove_one_transaction X p tx)"
proof (cases "map_of (tp_transactions p) (hash_transaction X tx)")
  case (Some t)
  with assms show ?thesis unfolding pool_wf_def
    by (simp add: remove_one_transaction_def Let_def)
qed (use assms in \<open>simp add: remove_one_transaction_def Let_def\<close>)

lemma remove_one_transaction_items:
  "pool_items (remove_one_transaction X p tx) = pool_items p - {hash_transaction X tx}"
  by (cases "map_of (tp_transactions p) (hash_transaction X tx)")
     (auto simp: remove_one_transaction_def pool_items_def Let_def domIff)

interpretation txp: item_pool "pool_wf X" pool_items "remove_transactions X" "hash_transaction X" for X
proof
  fix p :: tx_pool and cs
  show "pool_wf X p \<Longrightarrow> pool_wf X (remove_transactions X p cs)"
    by (induction cs arbitrary: p) (simp_all add: remove_one_transaction_wf)
  show "pool_wf X p \<Longrightarrow>
      pool_items (remove_transactions X p cs) = pool_items p - hash_transaction X ` set cs"
    by (induction cs arbitrary: p)
       (auto simp: remove_one_transaction_wf remove_one_transaction_items)
qed

lemma iter_transactions_mset:
  "iteration_ok X \<Longrightarrow> mset (iter_transactions X m) = mset m"
  by (simp add: iteration_ok_def)

lemma iter_transactions_values:
  assumes "iteration_ok X" and "hm_wf m"
  shows "set (map snd (iter_transactions X m)) = ran (map_of m)"
proof -
  have "set (iter_transactions X m) = set m"
    using iter_transactions_mset [OF assms(1), of m] by (metis set_mset_mset)
  then show ?thesis using assms(2) by (simp add: hm_wf_def ran_distinct)
qed

lemma distinct_values:
  assumes "pool_wf X p"
  shows "distinct (map snd (tp_transactions p))"
proof -
  have "inj_on snd (set (tp_transactions p))"
    using assms pool_wfD(1) [OF assms] hm_in_set_iff [of "tp_transactions p"]
    unfolding pool_wf_def inj_on_def by (metis prod.collapse)
  moreover have "distinct (tp_transactions p)"
    using assms unfolding pool_wf_def hm_wf_def by (simp add: distinct_map)
  ultimately show ?thesis by (simp add: distinct_map)
qed

lemma selected_from_pool:
  assumes "iteration_ok X" and "pool_wf X p"
    and "tx \<in> set (get_transactions_for_block X p limit fee)"
  shows "map_of (tp_transactions p) (hash_transaction X tx) = Some tx" "fee \<le> tx_max_fee_per_gas tx"
proof -
  let ?vals = "map snd (iter_transactions X (tp_transactions p))"
  let ?l = "filter (\<lambda>tx. tx_max_fee_per_gas tx \<ge> fee) ?vals"
  have "tx \<in> set (sort_by (tx_cmp fee) ?l)"
    using assms(3) subseq_subset [OF select_fitting_subseq]
    unfolding get_transactions_for_block_def Let_def by blast
  then have "tx \<in> set ?l" using mset_eq_setD [OF txc.mset_sort_by] by blast
  moreover have "hm_wf (tp_transactions p)" using assms(2) by (simp add: pool_wf_def)
  ultimately have tx: "tx \<in> ran (map_of (tp_transactions p))" "fee \<le> tx_max_fee_per_gas tx"
    using iter_transactions_values [OF assms(1)] by auto
  then show "fee \<le> tx_max_fee_per_gas tx" by simp
  from tx(1) obtain h where "map_of (tp_transactions p) h = Some tx" by (auto simp: ran_def)
  then show "map_of (tp_transactions p) (hash_transaction X tx) = Some tx"
    using pool_wfD(1) [OF assms(2)] by metis
qed

end
