(* ===== verification/Executor.thy ===== *)
theory Executor
  imports Tx_Pool
begin

text \<open>
  The model of \<open>src/src/vm.rs\<close>: execution of a block (equivocation and liveness slashing, the
  system contract for staking, EVM transactions, the validator queues) and the ephemeral
  execution behind the RPC calls.

  The EVM itself is \<open>revm\<close>, a field of \<open>exec_lib\<close>: given the four reads of the database
  interface, the base fee and the transaction environment it answers with an error or with the
  execution result and the touched accounts.  \<^term>\<open>None\<close> is a panic of the node.
\<close>

section \<open>The EVM library\<close>

record evm_db =
  db_basic :: "address \<Rightarrow> state_error + revm_account_info option"
  db_code_by_hash :: "h256 \<Rightarrow> state_error + bytes"
  db_storage :: "address \<Rightarrow> u256 \<Rightarrow> state_error + u256"
  db_block_hash :: "u256 \<Rightarrow> state_error + h256"

datatype transact_to = Call address | Create

record tx_env =
  te_caller :: address
  te_transact_to :: transact_to
  te_data :: bytes
  te_value :: u256
  te_gas_limit :: u64
  te_gas_price :: u256
  te_gas_priority_fee :: "u256 option"
  te_nonce :: "u64 option"

record evm_log =
  el_address :: address
  el_topics :: "h256 list"
  el_data :: bytes

datatype evm_output = OutputCall bytes | OutputCreate bytes "address option"

datatype execution_result =
    Success u64 "evm_log list" evm_output
  | Revert u64 bytes
  | Halt string u64

record evm_account =
  ea_info :: revm_account_info
  ea_storage :: "(u256 \<times> u256) list"

record exec_lib = pool_lib +
  evm_transact ::
    "evm_db \<Rightarrow> u256 \<Rightarrow> tx_env \<Rightarrow> string + execution_result \<times> (address \<times> evm_account) list"
  revm_default_account :: revm_account_info

datatype execution_error = Evm string | ExecState state_error | TxError string

definition manager_db ::
  "('x) state_lib_scheme \<Rightarrow> 's storage_trait \<Rightarrow> 's state_manager \<Rightarrow> evm_db" where
  "manager_db X V sm =
     \<lparr> db_basic = basic V sm, db_code_by_hash = code_by_hash X V sm,
       db_storage = sm_get_storage V sm, db_block_hash = block_hash V sm \<rparr>"

section \<open>Slashing\<close>

definition reduce_stake :: "u256 \<Rightarrow> u256 \<Rightarrow> u256" where
  "reduce_stake amount stake = (if stake < amount then 0 else stake - amount)"

definition drop_validator :: "public_key \<Rightarrow> consensus_state \<Rightarrow> consensus_state" where
  "drop_validator offender st =
     st\<lparr>cs_pending_validators := remove_first (\<lambda>(pk, _). pk = offender) (cs_pending_validators st),
        cs_committee := remove_first (\<lambda>x. x = offender) (cs_committee st)\<rparr>"

text \<open>What a proven equivocation does to the consensus state: lines 352 to 391.\<close>

definition slash_update :: "address \<Rightarrow> public_key \<Rightarrow> u256 \<Rightarrow> consensus_state \<Rightarrow> consensus_state" where
  "slash_update a offender stake state =
     (let stake' = reduce_stake 1000 stake;
          state1 = state\<lparr>cs_stakes := (cs_stakes state)(a \<mapsto> stake')\<rparr>
      in if stake' < 2000 then drop_validator offender state1 else state1)"

definition slash_equivocation ::
  "('x) exec_lib_scheme \<Rightarrow> 's storage_trait \<Rightarrow> 's state_manager \<Rightarrow> equivocation_evidence \<Rightarrow>
   's state_manager option" where
  "slash_equivocation X V db e =
     (let v1 = vote_a e; v2 = vote_b e in
      if v_author v1 \<noteq> v_author v2 then Some db
      else if v_view v1 \<noteq> v_view v2 then Some db
      else if v_block_hash v1 = v_block_hash v2 then Some db
      else if \<not> verify X (v_author v1) (hash_bytes (v_block_hash v1)) (v_signature v1) \<or>
              \<not> verify X (v_author v2) (hash_bytes (v_block_hash v2)) (v_signature v2) then Some db
      else let offender = v_author v1; a = pk_address X offender in
           case sm_get_consensus_state V db of
             Inr (Some state) \<Rightarrow>
               (case cs_stakes state a of
                  Some stake \<Rightarrow>
                    unwrap (sm_save_consensus_state V db (slash_update a offender stake state))
                | None \<Rightarrow> Some db)
           | _ \<Rightarrow> Some db)"

fun process_equivocation_slashing ::
  "('x) exec_lib_scheme \<Rightarrow> 's storage_trait \<Rightarrow> equivocation_evidence list \<Rightarrow> 's state_manager \<Rightarrow>
   's state_manager option" where
  "process_equivocation_slashing X V [] db = Some db"
| "process_equivocation_slashing X V (e # es) db = do {
     db' \<leftarrow> slash_equivocation X V db e;
     process_equivocation_slashing X V es db'
   }"

text \<open>The reward of the author: the score is lowered, and saved only then.\<close>

definition reward_author :: "public_key \<Rightarrow> consensus_state \<Rightarrow> consensus_state \<times> bool" where
  "reward_author author state =
     (case cs_inactivity_scores state author of
        Some score \<Rightarrow>
          (if score > 0
           then (state\<lparr>cs_inactivity_scores := (cs_inactivity_scores state)(author \<mapsto> score - 1)\<rparr>, True)
           else (state, False))
      | None \<Rightarrow> (state, False))"

definition penalize_leader ::
  "('x) exec_lib_scheme \<Rightarrow> public_key \<Rightarrow> consensus_state \<Rightarrow> consensus_state" where
  "penalize_leader X failed_leader state =
     (let score = (case cs_inactivity_scores state failed_leader of Some s \<Rightarrow> s | None \<Rightarrow> 0) + 1;
          state1 = state\<lparr>cs_inactivity_scores := (cs_inactivity_scores state)(failed_leader \<mapsto> score)\<rparr>;
          a = pk_address X failed_leader;
          state2 = (case cs_stakes state1 a of
                      Some stake \<Rightarrow>
                        state1\<lparr>cs_stakes := (cs_stakes state1)(a \<mapsto> reduce_stake 10 stake)\<rparr>
                    | None \<Rightarrow> state1)
      in if score > 50
         then (case position (\<lambda>x. x = failed_leader) (cs_committee state2) of
                 Some pos \<Rightarrow>
                   state2\<lparr>cs_committee := remove_at pos (cs_committee state2),
                          cs_inactivity_scores := (cs_inactivity_scores state2)(failed_leader := None)\<rparr>
               | None \<Rightarrow> state2)
         else state2)"

definition liveness_update ::
  "('x) exec_lib_scheme \<Rightarrow> block \<Rightarrow> consensus_state \<Rightarrow> consensus_state \<times> bool" where
  "liveness_update X block state =
     (let (state1, changed) = reward_author (b_author block) state;
          qc = b_justify block
      in if qc_block_hash qc = default_hash \<and> qc_view qc > 0 \<and> cs_committee state1 \<noteq> []
         then (penalize_leader X
                 (cs_committee state1 ! (unat (qc_view qc) mod length (cs_committee state1))) state1,
               True)
         else (state1, changed))"

definition process_liveness_slashing ::
  "('x) exec_lib_scheme \<Rightarrow> 's storage_trait \<Rightarrow> block \<Rightarrow> 's state_manager \<Rightarrow>
   's state_manager option" where
  "process_liveness_slashing X V block db =
     (case sm_get_consensus_state V db of
        Inr (Some state) \<Rightarrow>
          (let (state', changed) = liveness_update X block state
           in if changed then unwrap (sm_save_consensus_state V db state') else Some db)
      | _ \<Rightarrow> Some db)"

section \<open>The system contract\<close>

definition sys_contract :: address where
  "sys_contract = 0x1000"

definition account_of_revm :: "revm_account_info \<Rightarrow> account_info" where
  "account_of_revm acc =
     \<lparr> ai_nonce = ra_nonce acc, ai_balance = ra_balance acc, ai_code_hash = Hash (ra_code_hash acc),
       ai_code = ra_code acc \<rparr>"

text \<open>\<open>commit_account(...).unwrap()\<close>.\<close>

definition commit_unwrap ::
  "('x) exec_lib_scheme \<Rightarrow> 's storage_trait \<Rightarrow> 's state_manager \<Rightarrow> address \<Rightarrow> account_info \<Rightarrow>
   's state_manager option" where
  "commit_unwrap X V db a info =
     (case commit_account X V db a info of (db', Inr _) \<Rightarrow> Some db' | (_, Inl _) \<Rightarrow> None)"

text \<open>Lines 519 to 540: lock the funds, and queue the validator unless active or pending.\<close>

definition stake_update ::
  "('x) exec_lib_scheme \<Rightarrow> transaction \<Rightarrow> view \<Rightarrow> consensus_state \<Rightarrow> consensus_state" where
  "stake_update X tx vw state =
     (let pk = tx_public_key tx;
          current_stake = (case cs_stakes state (sender X tx) of Some st \<Rightarrow> st | None \<Rightarrow> 0);
          state1 = state\<lparr>cs_stakes := (cs_stakes state)(sender X tx \<mapsto> current_stake + tx_value tx)\<rparr>;
          is_active = pk \<in> set (cs_committee state1);
          is_pending = pk \<in> fst ` set (cs_pending_validators state1)
      in if \<not> is_active \<and> \<not> is_pending
         then state1\<lparr>cs_pending_validators := cs_pending_validators state1 @ [(pk, vw + 10)]\<rparr>
         else state1)"

definition exit_update :: "transaction \<Rightarrow> view \<Rightarrow> consensus_state \<Rightarrow> consensus_state" where
  "exit_update tx vw state =
     state\<lparr>cs_exiting_validators := cs_exiting_validators state @ [(tx_public_key tx, vw + 10)]\<rparr>"

definition withdraw_update :: "address \<Rightarrow> consensus_state \<Rightarrow> consensus_state" where
  "withdraw_update a state = state\<lparr>cs_stakes := (cs_stakes state)(a \<mapsto> 0)\<rparr>"

definition may_withdraw :: "public_key \<Rightarrow> consensus_state \<Rightarrow> bool" where
  "may_withdraw pk state =
     (pk \<notin> set (cs_committee state) \<and> pk \<notin> fst ` set (cs_pending_validators state) \<and>
      pk \<notin> fst ` set (cs_exiting_validators state))"

definition sys_stake ::
  "('x) exec_lib_scheme \<Rightarrow> 's storage_trait \<Rightarrow> transaction \<Rightarrow> view \<Rightarrow> 's state_manager \<Rightarrow>
   's state_manager option" where
  "sys_stake X V tx vw db =
     (if tx_value tx < 2000 then Some db
      else case sm_get_consensus_state V db of
             Inr (Some state) \<Rightarrow> unwrap (sm_save_consensus_state V db (stake_update X tx vw state))
           | _ \<Rightarrow> Some db)"

definition sys_unstake ::
  "('x) exec_lib_scheme \<Rightarrow> 's storage_trait \<Rightarrow> transaction \<Rightarrow> view \<Rightarrow> 's state_manager \<Rightarrow>
   's state_manager option" where
  "sys_unstake X V tx vw db =
     (case sm_get_consensus_state V db of
        Inr (Some state) \<Rightarrow>
          (if tx_public_key tx \<in> set (cs_committee state)
           then unwrap (sm_save_consensus_state V db (exit_update tx vw state))
           else Some db)
      | _ \<Rightarrow> Some db)"

definition sys_withdraw ::
  "('x) exec_lib_scheme \<Rightarrow> 's storage_trait \<Rightarrow> transaction \<Rightarrow> 's state_manager \<Rightarrow>
   's state_manager option" where
  "sys_withdraw X V tx db =
     (case sm_get_consensus_state V db of
        Inr (Some state) \<Rightarrow>
          (let a = sender X tx in
           case cs_stakes state a of
             Some stake \<Rightarrow>
               (if may_withdraw (tx_public_key tx) state \<and> stake > 0
                then do {
                  db1 \<leftarrow> unwrap (sm_save_consensus_state V db (withdraw_update a state));
                  oacc \<leftarrow> unwrap (basic V db1 a);
                  let acc = (case oacc of Some acc \<Rightarrow> acc | None \<Rightarrow> revm_default_account X);
                  commit_unwrap X V db1 a
                    (account_of_revm (acc\<lparr>ra_balance := ra_balance acc + stake\<rparr>))
                }
                else Some db)
           | None \<Rightarrow> Some db)
      | _ \<Rightarrow> Some db)"

definition sys_dispatch ::
  "('x) exec_lib_scheme \<Rightarrow> 's storage_trait \<Rightarrow> transaction \<Rightarrow> view \<Rightarrow> 's state_manager \<Rightarrow>
   's state_manager option" where
  "sys_dispatch X V tx vw db =
     (if length (tx_data tx) \<ge> 4
      then let selector = take 4 (tx_data tx) in
           if selector = [0x3a, 0x4b, 0x66, 0xf1] then sys_stake X V tx vw db
           else if selector = [0x2e, 0x17, 0xde, 0x78] then sys_unstake X V tx vw db
           else if selector = [0x3c, 0xcf, 0xd6, 0x0b] then sys_withdraw X V tx db
           else Some db
      else Some db)"

text \<open>
  \<open>basic(tx.sender()).unwrap().unwrap()\<close> panics when the sender has no account.
\<close>

definition process_system_contract ::
  "('x) exec_lib_scheme \<Rightarrow> 's storage_trait \<Rightarrow> transaction \<Rightarrow> 's state_manager \<Rightarrow> receipt list \<Rightarrow>
   u64 \<Rightarrow> view \<Rightarrow> ('s state_manager \<times> (execution_error + receipt list)) option" where
  "process_system_contract X V tx db receipts cumulative_gas_used vw = do {
     sender_opt \<leftarrow> unwrap (basic V db (sender X tx));
     sender_acc \<leftarrow> sender_opt;
     if ra_balance sender_acc < tx_value tx
     then Some (db, Inl (TxError ''Insufficient Balance''))
     else do {
       db1 \<leftarrow> sys_dispatch X V tx vw db;
       oacc \<leftarrow> unwrap (basic V db1 (sender X tx));
       let updated_acc = (case oacc of Some acc \<Rightarrow> acc | None \<Rightarrow> revm_default_account X);
       db2 \<leftarrow> commit_unwrap X V db1 (sender X tx)
                (account_of_revm (updated_acc\<lparr>ra_nonce := ra_nonce updated_acc + 1,
                                              ra_balance := ra_balance updated_acc - tx_value tx\<rparr>));
       Some (db2, Inr (receipts @ [\<lparr> r_status = 1, r_cumulative_gas_used = cumulative_gas_used,
                                     r_logs = [] \<rparr>]))
     }
   }"

section \<open>Transactions\<close>

fun commit_slots ::
  "'s storage_trait \<Rightarrow> address \<Rightarrow> (u256 \<times> u256) list \<Rightarrow> 's state_manager \<Rightarrow>
   's state_manager \<times> (execution_error + unit)" where
  "commit_slots V a [] db = (db, Inr ())"
| "commit_slots V a ((index, val) # slots) db =
     (case commit_storage V db a index val of
        (db', Inl e) \<Rightarrow> (db', Inl (ExecState e))
      | (db', Inr _) \<Rightarrow> commit_slots V a slots db')"

fun commit_accounts ::
  "('x) exec_lib_scheme \<Rightarrow> 's storage_trait \<Rightarrow> (address \<times> evm_account) list \<Rightarrow> 's state_manager \<Rightarrow>
   's state_manager \<times> (execution_error + unit)" where
  "commit_accounts X V [] db = (db, Inr ())"
| "commit_accounts X V ((a, account) # rest) db =
     (case commit_account X V db a (account_of_revm (ea_info account)) of
        (db', Inl e) \<Rightarrow> (db', Inl (ExecState e))
      | (db', Inr _) \<Rightarrow>
          (case commit_slots V a (ea_storage account) db' of
             (db'', Inl e) \<Rightarrow> (db'', Inl e)
           | (db'', Inr _) \<Rightarrow> commit_accounts X V rest db''))"

definition tx_env_of :: "('x) exec_lib_scheme \<Rightarrow> transaction \<Rightarrow> tx_env" where
  "tx_env_of X tx =
     \<lparr> te_caller = sender X tx,
       te_transact_to = (case tx_to tx of Some to \<Rightarrow> Call to | None \<Rightarrow> Create),
       te_data = tx_data tx, te_value = tx_value tx, te_gas_limit = tx_gas_limit tx,
       te_gas_price = tx_max_fee_per_gas tx,
       te_gas_priority_fee = Some (tx_max_priority_fee_per_gas tx),
       te_nonce = Some (tx_nonce tx) \<rparr>"

definition log_of_evm :: "evm_log \<Rightarrow> log" where
  "log_of_evm l =
     \<lparr> log_address = el_address l, log_topics = map Hash (el_topics l), log_data = el_data l \<rparr>"

fun result_fields :: "execution_result \<Rightarrow> u64 \<times> u8 \<times> evm_log list" where
  "result_fields (Success gas_used logs out) = (gas_used, 1, logs)"
| "result_fields (Revert gas_used out) = (gas_used, 0, [])"
| "result_fields (Halt reason gas_used) = (gas_used, 0, [])"

definition execute_evm_tx ::
  "('x) exec_lib_scheme \<Rightarrow> 's storage_trait \<Rightarrow> u256 \<Rightarrow> transaction \<Rightarrow> 's state_manager \<Rightarrow>
   receipt list \<Rightarrow> u64 \<Rightarrow> 's state_manager \<times> (execution_error + receipt list \<times> u64)" where
  "execute_evm_tx X V basefee tx db receipts cumulative =
     (case evm_transact X (manager_db X V db) basefee (tx_env_of X tx) of
        Inl e \<Rightarrow> (db, Inl (Evm e))
      | Inr (result, state) \<Rightarrow>
          (let (gas_used, status, logs) = result_fields result;
               cumulative' = cumulative + gas_used;
               receipts' = receipts @ [\<lparr> r_status = status, r_cumulative_gas_used = cumulative',
                                         r_logs = map log_of_evm logs \<rparr>]
           in if status = 1
              then (case commit_accounts X V state db of
                      (db', Inl e) \<Rightarrow> (db', Inl e)
                    | (db', Inr _) \<Rightarrow> (db', Inr (receipts', cumulative')))
              else (db, Inr (receipts', cumulative'))))"

fun execute_txs ::
  "('x) exec_lib_scheme \<Rightarrow> 's storage_trait \<Rightarrow> u256 \<Rightarrow> view \<Rightarrow> transaction list \<Rightarrow> 's state_manager \<Rightarrow>
   receipt list \<Rightarrow> u64 \<Rightarrow> ('s state_manager \<times> (execution_error + receipt list \<times> u64)) option" where
  "execute_txs X V basefee vw [] db receipts cumulative = Some (db, Inr (receipts, cumulative))"
| "execute_txs X V basefee vw (tx # txs) db receipts cumulative =
     (if sender X tx = 0 then Some (db, Inl (TxError ''Invalid sender''))
      else if tx_to tx = Some sys_contract then do {
        (db', r) \<leftarrow> process_system_contract X V tx db receipts cumulative vw;
        (case r of
           Inl e \<Rightarrow> Some (db', Inl e)
         | Inr receipts' \<Rightarrow> execute_txs X V basefee vw txs db' receipts' cumulative)
      }
      else (case execute_evm_tx X V basefee tx db receipts cumulative of
              (db', Inl e) \<Rightarrow> Some (db', Inl e)
            | (db', Inr (receipts', cumulative')) \<Rightarrow>
                execute_txs X V basefee vw txs db' receipts' cumulative'))"

fun check_gas_limits :: "u64 \<Rightarrow> transaction list \<Rightarrow> execution_error option" where
  "check_gas_limits block_gas_limit [] = None"
| "check_gas_limits block_gas_limit (tx # txs) =
     (if tx_gas_limit tx > MAX_TX_GAS_LIMIT
      then Some (TxError ''Tx exceeds fixed tx gas limit (Fusaka)'')
      else if tx_gas_limit tx > block_gas_limit
      then Some (TxError ''Tx exceeds block gas limit'')
      else check_gas_limits block_gas_limit txs)"

section \<open>Validator queues at the end of a block\<close>

fun activate_ready :: "(public_key \<times> view) list \<Rightarrow> public_key list \<times> bool \<Rightarrow> public_key list \<times> bool" where
  "activate_ready [] cc = cc"
| "activate_ready ((pk, _) # ready) (committee, changed) =
     (if pk \<in> set committee then activate_ready ready (committee, changed)
      else activate_ready ready (committee @ [pk], True))"

fun remove_exited :: "(public_key \<times> view) list \<Rightarrow> public_key list \<times> bool \<Rightarrow> public_key list \<times> bool" where
  "remove_exited [] cc = cc"
| "remove_exited ((pk, _) # exited) (committee, changed) =
     (case position (\<lambda>x. x = pk) committee of
        Some pos \<Rightarrow> remove_exited exited (remove_at pos committee, True)
      | None \<Rightarrow> remove_exited exited (committee, changed))"

definition advance_queues :: "view \<Rightarrow> consensus_state \<Rightarrow> consensus_state \<times> bool" where
  "advance_queues current_view state =
     (let (ready, not_ready) = partition (\<lambda>(_, v). v \<le> current_view) (cs_pending_validators state);
          (c1, ch1) = activate_ready ready (cs_committee state, False);
          (exited, still) = partition (\<lambda>(_, v). v \<le> current_view) (cs_exiting_validators state);
          (c2, ch2) = remove_exited exited (c1, ch1)
      in (state\<lparr>cs_pending_validators := not_ready, cs_exiting_validators := still,
                cs_committee := c2\<rparr>, ch2))"

definition process_queues ::
  "'s storage_trait \<Rightarrow> view \<Rightarrow> 's state_manager \<Rightarrow> 's state_manager option" where
  "process_queues V current_view db =
     (case sm_get_consensus_state V db of
        Inr (Some state) \<Rightarrow>
          (let (state', changed) = advance_queues current_view state
           in if changed then unwrap (sm_save_consensus_state V db state') else Some db)
      | _ \<Rightarrow> Some db)"

section \<open>Blocks\<close>

text \<open>
  \<open>execute_block\<close>: the manager after the run, with the error or the block whose roots and gas
  have been filled in.
\<close>

definition execute_block ::
  "('x) exec_lib_scheme \<Rightarrow> 's storage_trait \<Rightarrow> u64 \<Rightarrow> 's state_manager \<Rightarrow> block \<Rightarrow>
   ('s state_manager \<times> (execution_error + block)) option" where
  "execute_block X V block_gas_limit db block = do {
     db1 \<leftarrow> process_equivocation_slashing X V (b_evidence block) db;
     db2 \<leftarrow> process_liveness_slashing X V block db1;
     (case check_gas_limits block_gas_limit (b_payload block) of
        Some e \<Rightarrow> Some (db2, Inl e)
      | None \<Rightarrow> do {
          (db3, r) \<leftarrow> execute_txs X V (b_base_fee_per_gas block) (b_view block) (b_payload block) db2 [] 0;
          (case r of
             Inl e \<Rightarrow> Some (db3, Inl e)
           | Inr (receipts, cumulative) \<Rightarrow> do {
               db4 \<leftarrow> process_queues V (b_view block) db3;
               Some (db4, Inr (block\<lparr>b_state_root := root db4,
                                      b_receipts_root := calculate_receipts_root X receipts,
                                      b_gas_used := cumulative\<rparr>))
             })
        })
   }"

section \<open>Ephemeral execution\<close>

definition execute_ephemeral ::
  "('x) exec_lib_scheme \<Rightarrow> 's storage_trait \<Rightarrow> 's state_manager \<Rightarrow> address \<Rightarrow> address option \<Rightarrow> u256 \<Rightarrow>
   bytes \<Rightarrow> u64 \<Rightarrow> execution_error + u64 \<times> bytes" where
  "execute_ephemeral X V db caller to val data gas_limit =
     (case evm_transact X (manager_db X V db) 0
             \<lparr> te_caller = caller,
               te_transact_to = (case to of Some a \<Rightarrow> Call a | None \<Rightarrow> Create),
               te_data = data, te_value = val, te_gas_limit = gas_limit, te_gas_price = 0,
               te_gas_priority_fee = None, te_nonce = None \<rparr> of
        Inl e \<Rightarrow> Inl (Evm e)
      | Inr (Success gas_used _ (OutputCall b), _) \<Rightarrow> Inr (gas_used, b)
      | Inr (Success gas_used _ (OutputCreate b _), _) \<Rightarrow> Inr (gas_used, b)
      | Inr (Revert gas_used b, _) \<Rightarrow> Inr (gas_used, b)
      | Inr (Halt reason _, _) \<Rightarrow> Inl (Evm (''Halted: '' @ reason)))"

end
