(* ===== verification/State_Manager_Proofs.thy ===== *)
theory State_Manager_Proofs
  imports State_Manager
begin

text \<open>
  Facts about the state manager: the serialized mirrors lose nothing, the root only moves when
  an account is committed, what a commit does to the store, and the ancestor that
  \<open>block_hash\<close> returns.
\<close>

section \<open>Round trip of the mirrors\<close>

lemma merge_value_roundtrip [simp]:
  "merge_value_of_serde (serde_of_merge_value v) = v"
  "serde_of_merge_value (merge_value_of_serde w) = w"
  by (cases v; simp) (cases w; simp)

lemma branch_node_roundtrip [simp]:
  "branch_node_of_serde (serde_of_branch_node n) = n"
  "serde_of_branch_node (branch_node_of_serde m) = m"
  by (simp_all add: serde_of_branch_node_def branch_node_of_serde_def)

section \<open>What a commit changes\<close>

text \<open>The part of a store that the tree operations never write.\<close>

definition non_smt :: "mem_storage \<Rightarrow> mem_storage" where
  "non_smt m = m\<lparr>ms_smt_leaves := Map.empty, ms_smt_branches := Map.empty\<rparr>"

lemma non_smt_sel [simp]:
  "ms_blocks (non_smt m) = ms_blocks m" "ms_qcs (non_smt m) = ms_qcs m"
  "ms_state (non_smt m) = ms_state m" "ms_accounts (non_smt m) = ms_accounts m"
  "ms_code (non_smt m) = ms_code m" "ms_storage (non_smt m) = ms_storage m"
  by (simp_all add: non_smt_def)

lemma non_smt_upd [simp]:
  "non_smt (m\<lparr>ms_smt_leaves := l\<rparr>) = non_smt m"
  "non_smt (m\<lparr>ms_smt_branches := b\<rparr>) = non_smt m"
  "non_smt (m\<lparr>ms_accounts := a\<rparr>) = (non_smt m)\<lparr>ms_accounts := a\<rparr>"
  "non_smt (m\<lparr>ms_storage := st\<rparr>) = (non_smt m)\<lparr>ms_storage := st\<rparr>"
  "non_smt (m\<lparr>ms_state := cs\<rparr>) = (non_smt m)\<lparr>ms_state := cs\<rparr>"
  by (simp_all add: non_smt_def)

context evm_store
begin

lemma smt_apply_write_abs:
  "smt_apply_write X V s w = Inr s' \<Longrightarrow> non_smt (absm s') = non_smt (absm s)"
  by (cases w)
     (auto simp: smt_insert_branch_def smt_insert_leaf_def smt_remove_branch_def
        smt_remove_leaf_def save_smt_branch save_smt_leaf split: sum.splits)

lemma smt_apply_writes_abs:
  "smt_apply_writes X V s ws = (s', r) \<Longrightarrow> non_smt (absm s') = non_smt (absm s)"
  by (induction ws arbitrary: s) (auto split: sum.splits dest: smt_apply_write_abs)

lemma update_account_abs:
  "update_account X V sm a h = (sm', r) \<Longrightarrow>
   non_smt (absm (sm_storage sm')) = non_smt (absm (sm_storage sm))"
  by (auto simp: update_account_def Let_def split: prod.splits sum.splits
        dest: smt_apply_writes_abs)

lemma commit_account_abs:
  assumes "commit_account X V sm a info = (sm', Inr u)"
  shows "non_smt (absm (sm_storage sm')) =
    (non_smt (absm (sm_storage sm)))\<lparr>ms_accounts := (ms_accounts (absm (sm_storage sm)))(a \<mapsto> info)\<rparr>"
  using assms
  by (auto simp: commit_account_def Let_def split: sum.splits prod.splits
        dest!: update_account_abs save_account)

lemma commit_storage_abs:
  assumes "commit_storage V sm a k w = (sm', Inr u)"
  shows "absm (sm_storage sm') =
    (absm (sm_storage sm))\<lparr>ms_storage := (ms_storage (absm (sm_storage sm)))((a, k) \<mapsto> w)\<rparr>"
  using assms by (auto simp: commit_storage_def split: sum.splits dest: save_storage)

end

section \<open>The inner store of an overlay\<close>

lemma smt_apply_write_inner:
  "smt_apply_write X (overlay_impl V) s w = Inr s' \<Longrightarrow> ov_inner s' = ov_inner s"
  by (cases w)
     (auto simp: smt_insert_branch_def smt_insert_leaf_def smt_remove_branch_def
        smt_remove_leaf_def split: sum.splits)

lemma smt_apply_writes_inner:
  "smt_apply_writes X (overlay_impl V) s ws = (s', r) \<Longrightarrow> ov_inner s' = ov_inner s"
  by (induction ws arbitrary: s) (auto split: sum.splits dest: smt_apply_write_inner)

lemma commit_account_inner:
  "commit_account X (overlay_impl V) sm a info = (sm', r) \<Longrightarrow>
   ov_inner (sm_storage sm') = ov_inner (sm_storage sm)"
  by (auto simp: commit_account_def update_account_def Let_def
        split: prod.splits sum.splits dest: smt_apply_writes_inner)

lemma commit_storage_inner:
  "commit_storage (overlay_impl V) sm a k w = (sm', r) \<Longrightarrow>
   ov_inner (sm_storage sm') = ov_inner (sm_storage sm)"
  by (auto simp: commit_storage_def)

section \<open>The ancestor returned by block\_hash\<close>

text \<open>\<open>ancestor m n h h'\<close>: following parent links \<open>n\<close> times from \<open>h\<close> leads to \<open>h'\<close>.\<close>

inductive ancestor :: "mem_storage \<Rightarrow> nat \<Rightarrow> hash \<Rightarrow> hash \<Rightarrow> bool" for m where
  here: "ancestor m 0 h h"
| up: "ms_blocks m h = Some b \<Longrightarrow> h \<noteq> default_hash \<Longrightarrow> ancestor m n (b_parent_hash b) h' \<Longrightarrow>
       ancestor m (Suc n) h h'"

inductive_cases ancestorE: "ancestor m n h h'"

context evm_store
begin

lemma block_hash_walk_sound:
  "block_hash_walk V s n v h = Inr r \<Longrightarrow> r \<noteq> 0 \<Longrightarrow>
   \<exists>d b. d < n \<and> ancestor (absm s) d h (Hash r) \<and> ms_blocks (absm s) (Hash r) = Some b \<and> b_view b = v"
proof (induction n arbitrary: h)
  case (Suc n)
  show ?case
  proof (cases "get_block V s h")
    case (Inr ob)
    with Suc.prems obtain b where b: "ob = Some b" "h \<noteq> default_hash"
      by (auto split: if_splits option.splits)
    have blk: "ms_blocks (absm s) h = Some b" using get_block Inr b(1) by metis
    show ?thesis
    proof (cases "b_view b = v")
      case True
      then have "Hash r = h" using Suc.prems Inr b by (cases h) simp
      with True blk show ?thesis by (intro exI [of _ 0] exI [of _ b]) (auto intro: ancestor.here)
    next
      case False
      then have "block_hash_walk V s n v (b_parent_hash b) = Inr r"
        using Suc.prems Inr b by (auto split: if_splits)
      from Suc.IH [OF this Suc.prems(2)] obtain d c where
        "d < n" "ancestor (absm s) d (b_parent_hash b) (Hash r)"
        "ms_blocks (absm s) (Hash r) = Some c" "b_view c = v" by blast
      then show ?thesis using blk b(2)
        by (intro exI [of _ "Suc d"] exI [of _ c]) (auto intro: ancestor.up)
    qed
  qed (use Suc.prems in \<open>auto split: if_splits\<close>)
qed simp

end

context reliable_store
begin

text \<open>
  Completeness: an ancestor closer than the bound is found, when views strictly decrease from
  a block to its parent.
\<close>

lemma block_hash_walk_complete:
  assumes mono: "\<And>h b p. ms_blocks (absm s) h = Some b \<Longrightarrow>
      ms_blocks (absm s) (b_parent_hash b) = Some p \<Longrightarrow> b_view p < b_view b"
  shows "ancestor (absm s) d h h' \<Longrightarrow> d < n \<Longrightarrow> h' \<noteq> default_hash \<Longrightarrow>
    ms_blocks (absm s) h' = Some b' \<Longrightarrow>
    block_hash_walk V s n (b_view b') h = Inr (hash_val h') \<and>
    (\<forall>b. ms_blocks (absm s) h = Some b \<longrightarrow> b_view b' \<le> b_view b)"
proof (induction d arbitrary: h n)
  case 0
  from 0(1) have [simp]: "h = h'" by (cases rule: ancestor.cases) auto
  obtain n' where [simp]: "n = Suc n'" using 0(2) by (cases n) auto
  show ?case using 0 by (auto simp: get_block_eq)
next
  case (Suc d)
  from Suc.prems(1) obtain b where
    b: "ms_blocks (absm s) h = Some b" "h \<noteq> default_hash" "ancestor (absm s) d (b_parent_hash b) h'"
    by (cases rule: ancestor.cases) auto
  obtain n' where [simp]: "n = Suc n'" and "d < n'" using Suc.prems(2) by (cases n) auto
  from Suc.IH [OF b(3) \<open>d < n'\<close> Suc.prems(3,4)]
  have IH: "block_hash_walk V s n' (b_view b') (b_parent_hash b) = Inr (hash_val h')"
    "\<And>p. ms_blocks (absm s) (b_parent_hash b) = Some p \<Longrightarrow> b_view b' \<le> b_view p" by auto
  obtain p where p: "ms_blocks (absm s) (b_parent_hash b) = Some p"
    using b(3) Suc.prems(4) by (cases rule: ancestor.cases) auto
  have "b_view b' < b_view b" using IH(2) [OF p] mono [OF b(1) p] by order
  then show ?case using b(1,2) IH(1) by (auto simp: get_block_eq)
qed

end

end
