(* ===== verification/Executor_Proofs.thy ===== *)
theory Executor_Proofs
  imports Executor State_Manager_Proofs
begin

text \<open>
  Facts about block execution: on an overlay it never reaches the store below; on a store that
  keeps what it is given, an invariant of the consensus state that each of the six updates of
  the executor keeps is kept by the whole block (locale \<open>consensus_updates\<close>); and the effect of
  the calls of the system contract on stakes and balances.
\<close>

section \<open>Case rules for a run\<close>

lemma execute_txs_ConsE:
  assumes "execute_txs X V f vw (tx # txs) db rs g = Some (db', r)"
  obtains (sender) "sender X tx = 0" "db' = db" "r = Inl (TxError ''Invalid sender'')"
  | (sys_err) e where "process_system_contract X V tx db rs g vw = Some (db', Inl e)" "r = Inl e"
  | (sys) db1 rs1 where "process_system_contract X V tx db rs g vw = Some (db1, Inr rs1)"
      "execute_txs X V f vw txs db1 rs1 g = Some (db', r)"
  | (evm_err) e where "execute_evm_tx X V f tx db rs g = (db', Inl e)" "r = Inl e"
  | (evm) db1 rs1 g1 where "execute_evm_tx X V f tx db rs g = (db1, Inr (rs1, g1))"
      "execute_txs X V f vw txs db1 rs1 g1 = Some (db', r)"
proof (cases "sender X tx = 0")
  case True
  with assms sender show thesis by simp
next
  case ns: False
  show thesis
  proof (cases "tx_to tx = Some sys_contract")
    case True
    with assms ns obtain db1 q where q: "process_system_contract X V tx db rs g vw = Some (db1, q)"
      by (auto simp: bind_eq_Some_conv)
    with assms ns True sys_err sys show thesis by (cases q) auto
  next
    case False
    obtain db1 q where q: "execute_evm_tx X V f tx db rs g = (db1, q)" by fastforce
    with assms ns False evm_err evm show thesis by (cases q) (auto split: prod.splits)
  qed
qed

lemma execute_blockE:
  assumes "execute_block X V lim db b = Some (db', r)"
  obtains (gas) db1 e where "process_equivocation_slashing X V (b_evidence b) db = Some db1"
      "process_liveness_slashing X V b db1 = Some db'" "r = Inl e"
      "check_gas_limits lim (b_payload b) = Some e"
  | (tx_err) db1 db2 e where "process_equivocation_slashing X V (b_evidence b) db = Some db1"
      "process_liveness_slashing X V b db1 = Some db2" "r = Inl e"
      "check_gas_limits lim (b_payload b) = None"
      "execute_txs X V (b_base_fee_per_gas b) (b_view b) (b_payload b) db2 [] 0 = Some (db', Inl e)"
  | (ok) db1 db2 db3 rs g where "process_equivocation_slashing X V (b_evidence b) db = Some db1"
      "process_liveness_slashing X V b db1 = Some db2"
      "check_gas_limits lim (b_payload b) = None"
      "execute_txs X V (b_base_fee_per_gas b) (b_view b) (b_payload b) db2 [] 0
         = Some (db3, Inr (rs, g))"
      "process_queues V (b_view b) db3 = Some db'"
      "r = Inr (b\<lparr>b_state_root := root db', b_receipts_root := calculate_receipts_root X rs,
                 b_gas_used := g\<rparr>)"
proof -
  from assms obtain db1 db2 where
    d: "process_equivocation_slashing X V (b_evidence b) db = Some db1"
       "process_liveness_slashing X V b db1 = Some db2"
    by (auto simp: execute_block_def bind_eq_Some_conv)
  show thesis
  proof (cases "check_gas_limits lim (b_payload b)")
    case (Some e)
    with assms d gas show thesis by (auto simp: execute_block_def)
  next
    case None
    with assms d obtain db3 q where
      t: "execute_txs X V (b_base_fee_per_gas b) (b_view b) (b_payload b) db2 [] 0 = Some (db3, q)"
      by (auto simp: execute_block_def bind_eq_Some_conv)
    show thesis
    proof (cases q)
      case (Inl e)
      with assms d None t tx_err show thesis by (auto simp: execute_block_def)
    next
      case (Inr rg)
      with assms d None t ok show thesis
        by (auto simp: execute_block_def bind_eq_Some_conv split: prod.splits)
    qed
  qed
qed

section \<open>Execution on an overlay\<close>

lemma overlay_save_state [simp]: "sm_save_consensus_state (overlay_impl V) db cs = Inr db"
  by (simp add: sm_save_consensus_state_def)

lemma overlay_get_state [simp]:
  "sm_get_consensus_state (overlay_impl V) db =
   map_err (\<lambda>e. Smt (StorageText e)) (get_consensus_state V (ov_inner (sm_storage db)))"
  by (simp add: sm_get_consensus_state_def)

text \<open>Slashing and the queues write only the consensus state, which the overlay drops.\<close>

lemma slash_equivocation_overlay [simp]: "slash_equivocation X (overlay_impl V) db e = Some db"
  by (simp add: slash_equivocation_def Let_def split: sum.split option.split)

lemma process_equivocation_slashing_overlay [simp]:
  "process_equivocation_slashing X (overlay_impl V) es db = Some db"
  by (induction es) simp_all

lemma process_liveness_slashing_overlay [simp]:
  "process_liveness_slashing X (overlay_impl V) b db = Some db"
  by (simp add: process_liveness_slashing_def split: sum.split option.split prod.split)

lemma process_queues_overlay [simp]: "process_queues (overlay_impl V) vw db = Some db"
  by (simp add: process_queues_def split: sum.split option.split prod.split)

lemma sys_stake_overlay [simp]: "sys_stake X (overlay_impl V) tx vw db = Some db"
  by (simp add: sys_stake_def split: sum.split option.split)

lemma sys_unstake_overlay [simp]: "sys_unstake X (overlay_impl V) tx vw db = Some db"
  by (simp add: sys_unstake_def split: sum.split option.split)

abbreviation inner_of :: "'s state_overlay state_manager \<Rightarrow> 's" where
  "inner_of db \<equiv> ov_inner (sm_storage db)"

lemma commit_unwrap_inner:
  "commit_unwrap X (overlay_impl V) db a info = Some db' \<Longrightarrow> inner_of db' = inner_of db"
  by (auto simp: commit_unwrap_def split: prod.splits sum.splits dest: commit_account_inner)

lemma sys_withdraw_inner:
  "sys_withdraw X (overlay_impl V) tx db = Some db' \<Longrightarrow> inner_of db' = inner_of db"
  by (auto simp: sys_withdraw_def Let_def bind_eq_Some_conv
      split: sum.splits option.splits if_splits dest: commit_unwrap_inner)

lemma sys_dispatch_inner:
  "sys_dispatch X (overlay_impl V) tx vw db = Some db' \<Longrightarrow> inner_of db' = inner_of db"
  by (auto simp: sys_dispatch_def Let_def split: if_splits dest!: sys_withdraw_inner)

lemma process_system_contract_inner:
  "process_system_contract X (overlay_impl V) tx db rs g vw = Some (db', r) \<Longrightarrow>
   inner_of db' = inner_of db"
  by (auto simp: process_system_contract_def Let_def bind_eq_Some_conv
      split: if_splits dest!: commit_unwrap_inner sys_dispatch_inner)

lemma commit_slots_inner:
  "commit_slots (overlay_impl V) a slots db = (db', r) \<Longrightarrow> inner_of db' = inner_of db"
  by (induction slots arbitrary: db)
     (auto split: prod.splits sum.splits dest: commit_storage_inner)

lemma commit_accounts_inner:
  "commit_accounts X (overlay_impl V) accs db = (db', r) \<Longrightarrow> inner_of db' = inner_of db"
  by (induction accs arbitrary: db)
     (auto split: prod.splits sum.splits dest!: commit_account_inner commit_slots_inner)

lemma execute_evm_tx_inner:
  "execute_evm_tx X (overlay_impl V) f tx db rs g = (db', r) \<Longrightarrow> inner_of db' = inner_of db"
  by (auto simp: execute_evm_tx_def Let_def split: prod.splits sum.splits if_splits
      dest: commit_accounts_inner)

lemma execute_txs_inner:
  "execute_txs X (overlay_impl V) f vw txs db rs g = Some (db', r) \<Longrightarrow> inner_of db' = inner_of db"
proof (induction txs arbitrary: db rs g)
  case (Cons tx txs)
  from Cons.prems show ?case
    by (cases rule: execute_txs_ConsE)
       (auto dest!: Cons.IH process_system_contract_inner execute_evm_tx_inner)
qed simp

lemma execute_block_inner:
  "execute_block X (overlay_impl V) lim db b = Some (db', r) \<Longrightarrow> inner_of db' = inner_of db"
  by (erule execute_blockE) (auto dest: execute_txs_inner)

section \<open>Invariants of the consensus state\<close>

context chain_store
begin

lemma sm_get_state:
  "sm_get_consensus_state V db = Inr c \<Longrightarrow> c = ms_state (absm (sm_storage db))"
  by (auto simp: sm_get_consensus_state_def dest: get_consensus_state)

lemma sm_save_state:
  "sm_save_consensus_state V db cs = Inr db' \<Longrightarrow>
   absm (sm_storage db') = (absm (sm_storage db))\<lparr>ms_state := Some cs\<rparr> \<and> sm_root db' = sm_root db"
  by (auto simp: sm_save_consensus_state_def split: sum.splits dest: save_consensus_state)

lemma commit_account_state:
  "commit_account X V db a info = (db', r) \<Longrightarrow>
   ms_state (absm (sm_storage db')) = ms_state (absm (sm_storage db))"
proof -
  assume "commit_account X V db a info = (db', r)"
  then have "ms_state (non_smt (absm (sm_storage db'))) = ms_state (non_smt (absm (sm_storage db)))"
    by (auto simp: commit_account_def Let_def simp del: non_smt_sel split: sum.splits prod.splits
        dest!: update_account_abs save_account)
  then show ?thesis by simp
qed

lemma commit_storage_state:
  "commit_storage V db a k w = (db', r) \<Longrightarrow>
   ms_state (absm (sm_storage db')) = ms_state (absm (sm_storage db))"
  by (auto simp: commit_storage_def split: sum.splits dest: save_storage)

lemma commit_unwrap_state:
  "commit_unwrap X V db a info = Some db' \<Longrightarrow>
   ms_state (absm (sm_storage db')) = ms_state (absm (sm_storage db))"
  by (auto simp: commit_unwrap_def split: prod.splits sum.splits dest: commit_account_state)

lemma commit_slots_state:
  "commit_slots V a slots db = (db', r) \<Longrightarrow>
   ms_state (absm (sm_storage db')) = ms_state (absm (sm_storage db))"
  by (induction slots arbitrary: db)
     (auto split: prod.splits sum.splits dest: commit_storage_state)

lemma commit_accounts_state:
  "commit_accounts X V accs db = (db', r) \<Longrightarrow>
   ms_state (absm (sm_storage db')) = ms_state (absm (sm_storage db))"
  by (induction accs arbitrary: db)
     (auto split: prod.splits sum.splits dest!: commit_account_state commit_slots_state)

lemma execute_evm_tx_state:
  "execute_evm_tx X V f tx db rs g = (db', r) \<Longrightarrow>
   ms_state (absm (sm_storage db')) = ms_state (absm (sm_storage db))"
  by (auto simp: execute_evm_tx_def Let_def split: prod.splits sum.splits if_splits
      dest: commit_accounts_state)

end

section \<open>Execution leaves blocks and certificates alone\<close>

definition ledger :: "mem_storage \<Rightarrow> (hash \<rightharpoonup> block) \<times> (view \<rightharpoonup> quorum_certificate)" where
  "ledger m = (ms_blocks m, ms_qcs m)"

context chain_store
begin

abbreviation ledger_of :: "'s state_manager \<Rightarrow> (hash \<rightharpoonup> block) \<times> (view \<rightharpoonup> quorum_certificate)" where
  "ledger_of db \<equiv> ledger (absm (sm_storage db))"

lemma ledger_non_smt: "non_smt m = non_smt m' \<Longrightarrow> ledger m = ledger m'"
  unfolding ledger_def by (metis non_smt_sel(1,2))

lemma save_ledger: "unwrap (sm_save_consensus_state V db cs) = Some db' \<Longrightarrow> ledger_of db' = ledger_of db"
  by (auto simp: ledger_def dest: sm_save_state)

lemma commit_account_ledger: "commit_account X V db a info = (db', r) \<Longrightarrow> ledger_of db' = ledger_of db"
  by (auto simp: commit_account_def Let_def ledger_def split: sum.splits prod.splits
      dest!: ledger_non_smt [OF update_account_abs] save_account)

lemma commit_unwrap_ledger: "commit_unwrap X V db a info = Some db' \<Longrightarrow> ledger_of db' = ledger_of db"
  by (auto simp: commit_unwrap_def split: prod.splits sum.splits dest: commit_account_ledger)

lemma commit_slots_ledger: "commit_slots V a slots db = (db', r) \<Longrightarrow> ledger_of db' = ledger_of db"
  by (induction slots arbitrary: db)
     (auto simp: commit_storage_def ledger_def split: prod.splits sum.splits dest!: save_storage)

lemma commit_accounts_ledger: "commit_accounts X V accs db = (db', r) \<Longrightarrow> ledger_of db' = ledger_of db"
  by (induction accs arbitrary: db)
     (auto split: prod.splits sum.splits dest!: commit_account_ledger commit_slots_ledger)

lemma execute_evm_tx_ledger: "execute_evm_tx X V f tx db rs g = (db', r) \<Longrightarrow> ledger_of db' = ledger_of db"
  by (auto simp: execute_evm_tx_def Let_def split: prod.splits sum.splits if_splits
      dest: commit_accounts_ledger)

lemma equivocations_ledger:
  "process_equivocation_slashing X V es db = Some db' \<Longrightarrow> ledger_of db' = ledger_of db"
  by (induction es arbitrary: db)
     (auto simp: slash_equivocation_def Let_def bind_eq_Some_conv simp del: unwrap_eq_Some
       split: if_splits sum.splits option.splits dest!: save_ledger)

lemma liveness_ledger: "process_liveness_slashing X V b db = Some db' \<Longrightarrow> ledger_of db' = ledger_of db"
  by (auto simp: process_liveness_slashing_def Let_def case_prod_unfold simp del: unwrap_eq_Some
      split: if_splits sum.splits option.splits dest: save_ledger)

lemma queues_ledger: "process_queues V vw db = Some db' \<Longrightarrow> ledger_of db' = ledger_of db"
  by (auto simp: process_queues_def Let_def case_prod_unfold simp del: unwrap_eq_Some
      split: if_splits sum.splits option.splits dest: save_ledger)

lemma dispatch_ledger: "sys_dispatch X V tx vw db = Some db' \<Longrightarrow> ledger_of db' = ledger_of db"
  by (auto simp: sys_dispatch_def sys_stake_def sys_unstake_def sys_withdraw_def Let_def bind_eq_Some_conv
      simp del: unwrap_eq_Some split: if_splits sum.splits option.splits
      dest!: save_ledger commit_unwrap_ledger)

lemma system_contract_ledger:
  "process_system_contract X V tx db rs g vw = Some (db', r) \<Longrightarrow> ledger_of db' = ledger_of db"
  by (auto simp: process_system_contract_def Let_def bind_eq_Some_conv split: if_splits
      dest!: dispatch_ledger commit_unwrap_ledger)

lemma txs_ledger: "execute_txs X V f vw txs db rs g = Some (db', r) \<Longrightarrow> ledger_of db' = ledger_of db"
proof (induction txs arbitrary: db rs g)
  case (Cons tx txs)
  from Cons.prems show ?case
    by (cases rule: execute_txs_ConsE)
       (auto dest!: Cons.IH system_contract_ledger execute_evm_tx_ledger)
qed simp

lemma execute_block_ledger:
  "execute_block X V lim db b = Some (db', r) \<Longrightarrow> ledger_of db' = ledger_of db"
  by (erule execute_blockE) (auto dest!: equivocations_ledger liveness_ledger txs_ledger queues_ledger)

end

section \<open>Updates of the consensus state\<close>

text \<open>
  The updates of the consensus state in one block of view \<open>vw\<close>, as the obligations of an
  invariant \<open>P\<close>.
\<close>

locale consensus_updates = chain_store V absm hb
  for V :: "'s storage_trait" and absm :: "'s \<Rightarrow> mem_storage" and hb :: "block \<Rightarrow> hash" +
  fixes X :: "'x exec_lib_scheme" and vw :: view and P :: "consensus_state \<Rightarrow> bool"
  assumes slash: "P st \<Longrightarrow> cs_stakes st a = Some k \<Longrightarrow> P (slash_update a pk k st)"
    and liveness: "P st \<Longrightarrow> P (fst (liveness_update X b st))"
    and stake: "P st \<Longrightarrow> P (stake_update X tx vw st)"
    and exit: "P st \<Longrightarrow> P (exit_update tx vw st)"
    and withdraw: "P st \<Longrightarrow> P (withdraw_update a st)"
    and queues: "P st \<Longrightarrow> snd (advance_queues vw st) \<Longrightarrow> P (fst (advance_queues vw st))"
begin

definition holds :: "'s state_manager \<Rightarrow> bool" where
  "holds db = (\<exists>st. ms_state (absm (sm_storage db)) = Some st \<and> P st)"

lemma holds_get: "holds db \<Longrightarrow> sm_get_consensus_state V db = Inr (Some st) \<Longrightarrow> P st"
  unfolding holds_def using sm_get_state by fastforce

lemma holds_save: "unwrap (sm_save_consensus_state V db st) = Some db' \<Longrightarrow> P st \<Longrightarrow> holds db'"
  using sm_save_state by (auto simp: holds_def)

lemma holds_state:
  "ms_state (absm (sm_storage db')) = ms_state (absm (sm_storage db)) \<Longrightarrow> holds db' = holds db"
  by (simp add: holds_def)

lemma holds_slash: "slash_equivocation X V db e = Some db' \<Longrightarrow> holds db \<Longrightarrow> holds db'"
  by (auto simp: slash_equivocation_def Let_def simp del: unwrap_eq_Some
      split: if_splits sum.splits option.splits intro: holds_save slash dest: holds_get)

lemma holds_equivocations:
  "process_equivocation_slashing X V es db = Some db' \<Longrightarrow> holds db \<Longrightarrow> holds db'"
  by (induction es arbitrary: db) (auto simp: bind_eq_Some_conv dest: holds_slash)

lemma holds_liveness:
  assumes "process_liveness_slashing X V b db = Some db'" and "holds db"
  shows "holds db'"
proof -
  have "holds db'" if "sm_get_consensus_state V db = Inr (Some st)"
      "unwrap (sm_save_consensus_state V db (fst (liveness_update X b st))) = Some db'" for st
    using that assms(2) by (intro holds_save [OF that(2)] liveness holds_get)
  with assms show ?thesis
    by (auto simp: process_liveness_slashing_def case_prod_unfold Let_def simp del: unwrap_eq_Some
        split: if_splits sum.splits option.splits)
qed

lemma holds_queues:
  assumes "process_queues V vw db = Some db'" and "holds db"
  shows "holds db'"
proof -
  have "holds db'" if "sm_get_consensus_state V db = Inr (Some st)" "snd (advance_queues vw st)"
      "unwrap (sm_save_consensus_state V db (fst (advance_queues vw st))) = Some db'" for st
    using that assms(2) by (intro holds_save [OF that(3)] queues holds_get)
  with assms show ?thesis
    by (auto simp: process_queues_def case_prod_unfold Let_def simp del: unwrap_eq_Some
        split: if_splits sum.splits option.splits)
qed

lemma holds_commit: "commit_unwrap X V db a info = Some db' \<Longrightarrow> holds db \<Longrightarrow> holds db'"
  using commit_unwrap_state holds_state by metis

lemma holds_withdraw: "sys_withdraw X V tx db = Some db' \<Longrightarrow> holds db \<Longrightarrow> holds db'"
proof -
  assume r: "sys_withdraw X V tx db = Some db'" and h: "holds db"
  have "holds db'" if "sm_get_consensus_state V db = Inr (Some st)"
      "unwrap (sm_save_consensus_state V db (withdraw_update (sender X tx) st)) = Some db1"
      "commit_unwrap X V db1 (sender X tx) info = Some db'" for st db1 info
    using that h by (intro holds_commit [OF that(3)] holds_save [OF that(2)] withdraw holds_get)
  with r h show ?thesis
    by (auto simp: sys_withdraw_def Let_def bind_eq_Some_conv simp del: unwrap_eq_Some
        split: if_splits sum.splits option.splits)
qed

lemma holds_dispatch: "sys_dispatch X V tx vw db = Some db' \<Longrightarrow> holds db \<Longrightarrow> holds db'"
  by (auto simp: sys_dispatch_def sys_stake_def sys_unstake_def Let_def simp del: unwrap_eq_Some
      split: if_splits sum.splits option.splits
      intro: holds_save stake exit dest: holds_get holds_withdraw)

lemma holds_system_contract:
  "process_system_contract X V tx db rs g vw = Some (db', r) \<Longrightarrow> holds db \<Longrightarrow> holds db'"
  by (auto simp: process_system_contract_def Let_def bind_eq_Some_conv split: if_splits
      dest: holds_dispatch holds_commit)

lemma holds_txs: "execute_txs X V f vw txs db rs g = Some (db', r) \<Longrightarrow> holds db \<Longrightarrow> holds db'"
proof (induction txs arbitrary: db rs g)
  case (Cons tx txs)
  have sys: "holds db1" if "process_system_contract X V tx db rs g vw = Some (db1, q)" for db1 q
    using that Cons.prems(2) by (rule holds_system_contract)
  have evm: "holds db1" if "execute_evm_tx X V f tx db rs g = (db1, q)" for db1 q
    using holds_state [OF execute_evm_tx_state [OF that]] Cons.prems(2) by simp
  from Cons.prems(1) show ?case
    by (cases rule: execute_txs_ConsE) (auto intro: Cons.IH sys evm Cons.prems(2))
qed simp

lemma execute_block_holds:
  assumes "execute_block X V lim db b = Some (db', r)" and [simp]: "b_view b = vw" and "holds db"
  shows "holds db'"
  using assms(1)
proof (cases rule: execute_blockE)
  case (gas db1 e)
  then show ?thesis using assms(3) by (blast intro: holds_liveness holds_equivocations)
next
  case (tx_err db1 db2 e)
  then have "holds db2" using assms(3) by (blast intro: holds_liveness holds_equivocations)
  with tx_err show ?thesis using holds_txs by auto
next
  case (ok db1 db2 db3 rs g)
  then have "holds db2" using assms(3) by (blast intro: holds_liveness holds_equivocations)
  with ok have "holds db3" using holds_txs by auto
  with ok show ?thesis using holds_queues by auto
qed

end

end
