(* ===== verification/Validators.thy ===== *)
theory Validators
  imports Executor_Proofs
begin

text \<open>
  The validator set: the committee stays duplicate-free and disjoint from the queue of pending
  validators, and a validator enters the committee only after the activation delay.  Both are
  invariants in the sense of \<open>consensus_updates\<close>, so they hold for every block and every store
  that keeps the contract.  The last part gives the effect of the staking calls on balances.
\<close>

section \<open>Well-formed validator sets\<close>

definition validator_wf :: "consensus_state \<Rightarrow> bool" where
  "validator_wf st = (distinct (cs_committee st) \<and> distinct (map fst (cs_pending_validators st)) \<and>
     set (cs_committee st) \<inter> fst ` set (cs_pending_validators st) = {})"

lemma remove_at_position:
  "position (\<lambda>x. x = a) xs = Some i \<Longrightarrow> remove_at i xs = remove1 a xs"
  using remove_first_eq_remove1 [of a xs] unfolding remove_first_def by simp

lemma activate_ready_set: "set (fst (activate_ready ready (c, ch))) = set c \<union> fst ` set ready"
proof (induction ready arbitrary: c ch)
  case (Cons p ready)
  then show ?case by (cases p) (simp add: insert_absorb)
qed simp

lemma activate_ready_distinct: "distinct c \<Longrightarrow> distinct (fst (activate_ready ready (c, ch)))"
  by (induction ready arbitrary: c ch) auto

lemma activate_ready_props:
  "activate_ready ready (c, ch) = (c', ch') \<Longrightarrow>
   set c' = set c \<union> fst ` set ready \<and> (distinct c \<longrightarrow> distinct c')"
  using activate_ready_set [of ready c ch] activate_ready_distinct [of c ready ch] by simp

lemma remove_exited_fst: "fst (remove_exited ex (c, ch)) = fold (\<lambda>(pk, _). remove1 pk) ex c"
proof (induction ex arbitrary: c ch)
  case (Cons p ex)
  then show ?case
    by (cases p) (auto simp: remove_at_position position_eq_None remove1_idem split: option.split)
qed simp

lemma fold_remove1:
  "set (fold (\<lambda>(pk, _). remove1 pk) ex c) \<subseteq> set c"
  "distinct c \<Longrightarrow> distinct (fold (\<lambda>(pk, _). remove1 pk) ex c)"
proof (induction ex arbitrary: c)
  case (Cons p ex)
  { case 1 show ?case using Cons(1) [of "remove1 (fst p) c"] set_remove1_subset [of "fst p" c]
      by (simp add: case_prod_unfold) }
  { case 2 then show ?case using Cons(2) [of "remove1 (fst p) c"] by (simp add: case_prod_unfold) }
qed simp_all

lemma remove_exited_props:
  "remove_exited ex (c, ch) = (c', ch') \<Longrightarrow> set c' \<subseteq> set c \<and> (distinct c \<longrightarrow> distinct c')"
  using remove_exited_fst [of ex c ch] fold_remove1 [where ex = ex and c = c] by simp

lemma advance_queues_cases:
  obtains c1 ch1 c2 ch2 where
    "activate_ready (filter (\<lambda>(_, v). v \<le> vw) (cs_pending_validators st)) (cs_committee st, False) = (c1, ch1)"
    "remove_exited (filter (\<lambda>(_, v). v \<le> vw) (cs_exiting_validators st)) (c1, ch1) = (c2, ch2)"
    "advance_queues vw st = (st\<lparr>cs_pending_validators := filter (\<lambda>p. \<not> (case p of (_, v) \<Rightarrow> v \<le> vw)) (cs_pending_validators st),
       cs_exiting_validators := filter (\<lambda>p. \<not> (case p of (_, v) \<Rightarrow> v \<le> vw)) (cs_exiting_validators st),
       cs_committee := c2\<rparr>, ch2)"
  by (fastforce simp: advance_queues_def Let_def case_prod_unfold comp_def)

lemma penalize_leader_sel:
  "cs_pending_validators (penalize_leader X pk st) = cs_pending_validators st"
  "cs_exiting_validators (penalize_leader X pk st) = cs_exiting_validators st"
  "set (cs_committee (penalize_leader X pk st)) \<subseteq> set (cs_committee st)"
  "distinct (cs_committee st) \<Longrightarrow> distinct (cs_committee (penalize_leader X pk st))"
  using set_remove1_subset [of pk "cs_committee st"]
  by (auto simp: penalize_leader_def Let_def remove_at_position split: option.splits)

lemma liveness_update_sel:
  "cs_pending_validators (fst (liveness_update X b st)) = cs_pending_validators st"
  "set (cs_committee (fst (liveness_update X b st))) \<subseteq> set (cs_committee st)"
  "distinct (cs_committee st) \<Longrightarrow> distinct (cs_committee (fst (liveness_update X b st)))"
proof -
  have r: "cs_pending_validators (fst (reward_author a st)) = cs_pending_validators st"
    "cs_committee (fst (reward_author a st)) = cs_committee st" for a
    by (auto simp: reward_author_def split: option.split)
  show "cs_pending_validators (fst (liveness_update X b st)) = cs_pending_validators st"
    "set (cs_committee (fst (liveness_update X b st))) \<subseteq> set (cs_committee st)"
    "distinct (cs_committee st) \<Longrightarrow> distinct (cs_committee (fst (liveness_update X b st)))"
    using penalize_leader_sel(3) [of X _ "fst (reward_author (b_author b) st)"]
    by (auto simp: liveness_update_def Let_def case_prod_unfold r penalize_leader_sel(1,4))
qed

lemma slash_update_sel:
  "set (cs_pending_validators (slash_update a pk k st)) \<subseteq> set (cs_pending_validators st)"
  "set (cs_committee (slash_update a pk k st)) \<subseteq> set (cs_committee st)"
  "distinct (cs_committee st) \<Longrightarrow> distinct (cs_committee (slash_update a pk k st))"
  "distinct (map fst (cs_pending_validators st)) \<Longrightarrow>
   distinct (map fst (cs_pending_validators (slash_update a pk k st)))"
  using set_remove1_subset [of pk "cs_committee st"]
    set_remove_first_subset [of "\<lambda>(q, _). q = pk" "cs_pending_validators st"]
  by (auto simp: slash_update_def drop_validator_def Let_def distinct_map_remove_first)

lemma validator_wf_slash: "validator_wf st \<Longrightarrow> validator_wf (slash_update a pk k st)"
  using slash_update_sel [where a = a and pk = pk and k = k and st = st] unfolding validator_wf_def by blast

lemma validator_wf_liveness: "validator_wf st \<Longrightarrow> validator_wf (fst (liveness_update X b st))"
  using liveness_update_sel [where X = X and b = b and st = st] unfolding validator_wf_def by auto

lemma validator_wf_stake: "validator_wf st \<Longrightarrow> validator_wf (stake_update X tx vw st)"
  by (auto simp: validator_wf_def stake_update_def Let_def)

lemma disjoint_split:
  "\<lbrakk>R \<inter> N = {}; N \<subseteq> P; A \<subseteq> C \<union> R; C \<inter> P = {}\<rbrakk> \<Longrightarrow> A \<inter> N = {}"
  by blast

lemma validator_wf_queues:
  assumes "validator_wf st"
  shows "validator_wf (fst (advance_queues vw st))"
proof (rule advance_queues_cases [of vw st])
  fix c1 ch1 c2 ch2
  let ?p = "cs_pending_validators st"
  assume a: "activate_ready (filter (\<lambda>(_, v). v \<le> vw) ?p) (cs_committee st, False) = (c1, ch1)"
    and e: "remove_exited (filter (\<lambda>(_, v). v \<le> vw) (cs_exiting_validators st)) (c1, ch1) = (c2, ch2)"
    and q: "advance_queues vw st = (st\<lparr>cs_pending_validators := filter (\<lambda>p. \<not> (case p of (_, v) \<Rightarrow> v \<le> vw)) ?p,
       cs_exiting_validators := filter (\<lambda>p. \<not> (case p of (_, v) \<Rightarrow> v \<le> vw)) (cs_exiting_validators st),
       cs_committee := c2\<rparr>, ch2)"
  note wf = assms [unfolded validator_wf_def]
  have c: "set c2 \<subseteq> set (cs_committee st) \<union> fst ` set (filter (\<lambda>(_, v). v \<le> vw) ?p)" "distinct c2"
    using activate_ready_props [OF a] remove_exited_props [OF e] wf by auto
  have "fst ` set (filter (\<lambda>(_, v). v \<le> vw) ?p) \<inter> fst ` set (filter (\<lambda>p. \<not> (case p of (_, v) \<Rightarrow> v \<le> vw)) ?p) = {}"
    using wf by (auto simp: distinct_map inj_on_def)
  moreover have "fst ` set (filter (\<lambda>p. \<not> (case p of (_, v) \<Rightarrow> v \<le> vw)) ?p) \<subseteq> fst ` set ?p"
    by (intro image_mono) simp
  ultimately have "set c2 \<inter> fst ` set (filter (\<lambda>p. \<not> (case p of (_, v) \<Rightarrow> v \<le> vw)) ?p) = {}"
    using c(1) wf by - (rule disjoint_split, assumption+, blast)
  moreover have "distinct (map fst (filter (\<lambda>p. \<not> (case p of (_, v) \<Rightarrow> v \<le> vw)) ?p))"
    using wf by (simp add: distinct_map_filter)
  ultimately show ?thesis using c(2) by (simp add: q validator_wf_def)
qed

lemma validator_updates:
  assumes "chain_store V absm hb"
  shows "consensus_updates V absm hb X vw validator_wf"
  by (intro consensus_updates.intro assms consensus_updates_axioms.intro validator_wf_slash
      validator_wf_liveness validator_wf_stake validator_wf_queues)
     (simp_all add: validator_wf_def exit_update_def withdraw_update_def)

interpretation vwf: consensus_updates "mem_impl X" "\<lambda>m. m" "hash_block X" X vw validator_wf for X vw
  by (rule validator_updates) (rule mem.chain_store_axioms)

section \<open>The activation delay\<close>

text \<open>
  Seen from the state \<open>st0\<close> at the start of a block of view \<open>vw\<close>: committee members were
  members before or pending with a view that has come; pending validators were pending before
  or are due ten views later.  The view counter must not wrap around within those ten views.
\<close>

definition delayed_from :: "consensus_state \<Rightarrow> view \<Rightarrow> consensus_state \<Rightarrow> bool" where
  "delayed_from st0 vw st = (vw < vw + 10 \<longrightarrow>
      (\<forall>pk \<in> set (cs_committee st). pk \<in> set (cs_committee st0) \<or>
         (\<exists>v \<le> vw. (pk, v) \<in> set (cs_pending_validators st0))) \<and>
      (\<forall>(pk, v) \<in> set (cs_pending_validators st).
         (pk, v) \<in> set (cs_pending_validators st0) \<or> v = vw + 10))"

lemma delayed_from_subset:
  "delayed_from st0 vw st \<Longrightarrow> set (cs_committee st') \<subseteq> set (cs_committee st) \<Longrightarrow>
   set (cs_pending_validators st') \<subseteq> set (cs_pending_validators st) \<Longrightarrow> delayed_from st0 vw st'"
  unfolding delayed_from_def by blast

lemma delayed_from_queues:
  assumes "delayed_from st0 vw st"
  shows "delayed_from st0 vw (fst (advance_queues vw st))"
proof (cases "vw < vw + 10", rule advance_queues_cases [of vw st])
  fix c1 ch1 c2 ch2
  let ?p = "cs_pending_validators st"
  assume a: "activate_ready (filter (\<lambda>(_, v). v \<le> vw) ?p) (cs_committee st, False) = (c1, ch1)"
    and e: "remove_exited (filter (\<lambda>(_, v). v \<le> vw) (cs_exiting_validators st)) (c1, ch1) = (c2, ch2)"
    and q: "advance_queues vw st = (st\<lparr>cs_pending_validators := filter (\<lambda>p. \<not> (case p of (_, v) \<Rightarrow> v \<le> vw)) ?p,
       cs_exiting_validators := filter (\<lambda>p. \<not> (case p of (_, v) \<Rightarrow> v \<le> vw)) (cs_exiting_validators st),
       cs_committee := c2\<rparr>, ch2)"
  have c: "set c2 \<subseteq> set (cs_committee st) \<union> fst ` set (filter (\<lambda>(_, v). v \<le> vw) ?p)"
    using activate_ready_props [OF a] remove_exited_props [OF e] by blast
  assume lt: "vw < vw + 10"
  have new: "\<exists>v \<le> vw. (pk, v) \<in> set (cs_pending_validators st0)"
    if "(pk, v) \<in> set ?p" "v \<le> vw" for pk v
    using assms lt that unfolding delayed_from_def by fastforce
  have "pk \<in> set (cs_committee st0) \<or> (\<exists>v \<le> vw. (pk, v) \<in> set (cs_pending_validators st0))"
    if "pk \<in> set c2" for pk
  proof (cases "pk \<in> set (cs_committee st)")
    case False
    with c that obtain v where "(pk, v) \<in> set ?p" "v \<le> vw" by auto
    then show ?thesis using new by blast
  qed (use assms lt in \<open>auto simp: delayed_from_def\<close>)
  then show ?thesis using assms by (auto simp: q delayed_from_def)
qed (simp add: delayed_from_def)

lemma delayed_updates:
  assumes "chain_store V absm hb"
  shows "consensus_updates V absm hb X vw (delayed_from st0 vw)"
proof (intro consensus_updates.intro assms consensus_updates_axioms.intro)
  fix st a k pk b tx
  assume d: "delayed_from st0 vw st"
  show "delayed_from st0 vw (slash_update a pk k st)"
    using d slash_update_sel(2,1) by (rule delayed_from_subset)
  show "delayed_from st0 vw (fst (liveness_update X b st))"
    using d liveness_update_sel(2) by (rule delayed_from_subset) (simp add: liveness_update_sel)
  show "delayed_from st0 vw (stake_update X tx vw st)"
    using d by (auto simp: delayed_from_def stake_update_def Let_def)
  show "delayed_from st0 vw (exit_update tx vw st)"
    using d by (auto simp: delayed_from_def exit_update_def)
  show "delayed_from st0 vw (withdraw_update a st)"
    using d by (auto simp: delayed_from_def withdraw_update_def)
  show "delayed_from st0 vw (fst (advance_queues vw st))"
    using d by (rule delayed_from_queues)
qed

interpretation delay: consensus_updates "mem_impl X" "\<lambda>m. m" "hash_block X" X vw "delayed_from st0 vw" for X vw st0
  by (rule delayed_updates) (rule mem.chain_store_axioms)

lemma block_keeps:
  assumes "consensus_updates V absm hb X (b_view b) P"
    and "execute_block X V lim db b = Some (db', r)"
    and "ms_state (absm (sm_storage db)) = Some st" and "P st"
  shows "\<exists>st'. ms_state (absm (sm_storage db')) = Some st' \<and> P st'"
  using consensus_updates.execute_block_holds [OF assms(1,2) refl] assms(3,4)
  by (simp add: consensus_updates.holds_def [OF assms(1)])

section \<open>Balances and stakes\<close>

definition balance_of :: "mem_storage \<Rightarrow> address \<Rightarrow> u256" where
  "balance_of m a = (case ms_accounts m a of Some i \<Rightarrow> ai_balance i | None \<Rightarrow> 0)"

definition stake_of :: "mem_storage \<Rightarrow> address \<Rightarrow> u256" where
  "stake_of m a =
     (case ms_state m of Some st \<Rightarrow> (case cs_stakes st a of Some k \<Rightarrow> k | None \<Rightarrow> 0) | None \<Rightarrow> 0)"

text \<open>
  \<open>basic\<close> loads the code of an account that is stored by its hash only, so writing the account
  back stores the code with it.
\<close>

definition loaded_code :: "mem_storage \<Rightarrow> account_info \<Rightarrow> bytes option" where
  "loaded_code m i =
     (case ai_code i of Some c \<Rightarrow> Some c
      | None \<Rightarrow> if ai_code_hash i = default_hash then None else ms_code m (ai_code_hash i))"

text \<open>The account of a sender after a system call: the value is paid and the nonce counted.\<close>

definition charged_account :: "mem_storage \<Rightarrow> transaction \<Rightarrow> account_info \<Rightarrow> account_info" where
  "charged_account m tx i =
     i\<lparr>ai_nonce := ai_nonce i + 1, ai_balance := ai_balance i - tx_value tx, ai_code := loaded_code m i\<rparr>"

context evm_store
begin

lemma basic_info:
  assumes "basic V db a = Inr (Some acc)"
  obtains i where "ms_accounts (absm (sm_storage db)) a = Some i" "ra_balance acc = ai_balance i"
    "ra_nonce acc = ai_nonce i" "ra_code_hash acc = hash_val (ai_code_hash i)"
    "ra_code acc = loaded_code (absm (sm_storage db)) i"
  using assms
  by (auto simp: basic_def Let_def loaded_code_def split: sum.splits option.splits if_splits
      dest!: get_account [THEN sym] get_code)

lemma basic_account:
  "basic V db a = Inr oacc \<Longrightarrow>
   map_option ai_balance (ms_accounts (absm (sm_storage db)) a) = map_option ra_balance oacc"
  by (auto simp: basic_def Let_def split: sum.splits option.splits if_splits
      dest!: get_account [THEN sym])

lemma commit_unwrap_abs:
  "commit_unwrap X V db a info = Some db' \<Longrightarrow>
   non_smt (absm (sm_storage db')) =
     (non_smt (absm (sm_storage db)))\<lparr>ms_accounts := (ms_accounts (absm (sm_storage db)))(a \<mapsto> info)\<rparr>"
  by (auto simp: commit_unwrap_def split: prod.splits sum.splits dest!: commit_account_abs)

lemma commit_unwrap_accounts:
  "commit_unwrap X V db a info = Some db' \<Longrightarrow>
   ms_accounts (absm (sm_storage db')) = (ms_accounts (absm (sm_storage db)))(a \<mapsto> info)"
  by (auto simp: commit_unwrap_def split: prod.splits sum.splits
      dest!: commit_account_abs arg_cong [where f = ms_accounts])

text \<open>Reading an account and writing it back with another balance.\<close>

lemma rewrite_balance:
  assumes "basic V db a = Inr (Some acc)" and "commit_unwrap X V db a (account_of_revm acc') = Some db'"
  shows "ms_accounts (absm (sm_storage db)) a \<noteq> None \<and>
    balance_of (absm (sm_storage db)) a = ra_balance acc \<and>
    ms_accounts (absm (sm_storage db')) = (ms_accounts (absm (sm_storage db)))(a \<mapsto> account_of_revm acc')"
  using basic_account [OF assms(1)] commit_unwrap_accounts [OF assms(2)]
  by (auto simp: balance_of_def)

end

context chain_store
begin

text \<open>The call to the system contract around the dispatched operation.\<close>

lemma system_contract_frame:
  assumes "process_system_contract X V tx db rs g vw = Some (db', Inr rs')"
    and keep: "\<And>db1. sys_dispatch X V tx vw db = Some db1 \<Longrightarrow>
      ms_accounts (absm (sm_storage db)) (sender X tx) \<noteq> None \<Longrightarrow>
      ms_accounts (absm (sm_storage db1)) (sender X tx) \<noteq> None"
  obtains db1 i where "sys_dispatch X V tx vw db = Some db1"
    and "tx_value tx \<le> balance_of (absm (sm_storage db)) (sender X tx)"
    and "ms_accounts (absm (sm_storage db1)) (sender X tx) = Some i"
    and "non_smt (absm (sm_storage db')) = (non_smt (absm (sm_storage db1)))
      \<lparr>ms_accounts := (ms_accounts (absm (sm_storage db1)))
         (sender X tx \<mapsto> charged_account (absm (sm_storage db1)) tx i)\<rparr>"
    and "rs' = rs @ [\<lparr> r_status = 1, r_cumulative_gas_used = g, r_logs = [] \<rparr>]"
proof -
  let ?a = "sender X tx"
  from assms(1) obtain acc db1 oacc where
    b: "basic V db ?a = Inr (Some acc)" "\<not> ra_balance acc < tx_value tx"
      "sys_dispatch X V tx vw db = Some db1" "basic V db1 ?a = Inr oacc"
    and c: "commit_unwrap X V db1 ?a (account_of_revm
       ((case oacc of Some acc \<Rightarrow> acc | None \<Rightarrow> revm_default_account X)
          \<lparr>ra_nonce := ra_nonce (case oacc of Some acc \<Rightarrow> acc | None \<Rightarrow> revm_default_account X) + 1,
           ra_balance := ra_balance (case oacc of Some acc \<Rightarrow> acc | None \<Rightarrow> revm_default_account X)
             - tx_value tx\<rparr>)) = Some db'"
    and r: "rs' = rs @ [\<lparr> r_status = 1, r_cumulative_gas_used = g, r_logs = [] \<rparr>]"
    unfolding process_system_contract_def Let_def
    by (auto simp: bind_eq_Some_conv split: if_splits)
  from basic_account [OF b(1)] have e: "ms_accounts (absm (sm_storage db)) ?a \<noteq> None"
    and le: "tx_value tx \<le> balance_of (absm (sm_storage db)) ?a"
    using b(2) by (auto simp: balance_of_def)
  from keep [OF b(3) e] basic_account [OF b(4)] obtain acc1 where o: "oacc = Some acc1" by (cases oacc) auto
  from b(4) [unfolded o] obtain i where i: "ms_accounts (absm (sm_storage db1)) ?a = Some i"
    "ra_balance acc1 = ai_balance i" "ra_nonce acc1 = ai_nonce i" "ra_code_hash acc1 = hash_val (ai_code_hash i)"
    "ra_code acc1 = loaded_code (absm (sm_storage db1)) i" by (rule basic_info)
  have "account_of_revm (acc1\<lparr>ra_nonce := ra_nonce acc1 + 1, ra_balance := ra_balance acc1 - tx_value tx\<rparr>) =
      charged_account (absm (sm_storage db1)) tx i"
    using i(2-5) by (cases "ai_code_hash i") (simp add: account_of_revm_def charged_account_def)
  with commit_unwrap_abs [OF c] o
  show ?thesis by (intro that [OF b(3) le i(1) _ r]) simp
qed

lemma sys_withdraw_pays:
  assumes "sys_withdraw X V tx db = Some db'" and "get_consensus_state V (sm_storage db) = Inr (Some st)"
    and "cs_stakes st (sender X tx) = Some k" "0 < k" "may_withdraw (tx_public_key tx) st"
    and "ms_accounts (absm (sm_storage db)) (sender X tx) = Some i"
  shows "ms_state (absm (sm_storage db')) = Some (withdraw_update (sender X tx) st) \<and>
    balance_of (absm (sm_storage db')) =
      (balance_of (absm (sm_storage db)))(sender X tx := balance_of (absm (sm_storage db)) (sender X tx) + k) \<and>
    ms_accounts (absm (sm_storage db')) (sender X tx) \<noteq> None"
proof -
  let ?a = "sender X tx"
  from assms obtain db1 oacc where s: "sm_save_consensus_state V db (withdraw_update ?a st) = Inr db1"
    and b: "basic V db1 ?a = Inr oacc"
    and c: "commit_unwrap X V db1 ?a (account_of_revm ((case oacc of Some acc \<Rightarrow> acc | None \<Rightarrow> revm_default_account X)
       \<lparr>ra_balance := ra_balance (case oacc of Some acc \<Rightarrow> acc | None \<Rightarrow> revm_default_account X) + k\<rparr>)) = Some db'"
    by (auto simp: sys_withdraw_def sm_get_consensus_state_def Let_def bind_eq_Some_conv)
  note st1 = sm_save_state [OF s]
  from basic_account [OF b] st1 assms(6) obtain acc where o: "oacc = Some acc" by (cases oacc) auto
  show ?thesis
    using rewrite_balance [OF b [unfolded o] c [unfolded o option.case]] commit_unwrap_state [OF c] st1
    by (auto simp: balance_of_def account_of_revm_def intro!: ext)
qed

text \<open>A withdrawal empties the stake, so that repeating it does nothing.\<close>

lemma sys_withdraw_again:
  assumes "sys_withdraw X V tx db = Some db1"
  shows "sys_withdraw X V tx db1 = Some db1"
proof (cases "db1 = db")
  case False
  with assms obtain st db0 oacc where g: "sm_get_consensus_state V db = Inr (Some st)"
    and s: "sm_save_consensus_state V db (withdraw_update (sender X tx) st) = Inr db0"
    and c: "\<exists>info. commit_unwrap X V db0 (sender X tx) info = Some db1"
    by (auto simp: sys_withdraw_def Let_def bind_eq_Some_conv
        split: sum.splits option.splits if_splits)
  from c sm_save_state [OF s]
  have "ms_state (absm (sm_storage db1)) = Some (withdraw_update (sender X tx) st)"
    by (auto dest!: commit_unwrap_state)
  then show ?thesis
    by (auto simp: sys_withdraw_def withdraw_update_def Let_def split: sum.split option.split
        dest!: sm_get_state)
qed (use assms in simp)

end

context reliable_store
begin

lemma sys_stake_locks:
  assumes "sys_stake X V tx vw db = Some db'" and "2000 \<le> tx_value tx"
    and "ms_state (absm (sm_storage db)) = Some st"
  shows "absm (sm_storage db') = (absm (sm_storage db))\<lparr>ms_state := Some (stake_update X tx vw st)\<rparr>"
proof -
  from get_consensus_state_ok [of "sm_storage db"] assms(3)
  have "get_consensus_state V (sm_storage db) = Inr (Some st)" by (auto dest: get_consensus_state)
  moreover have "\<not> tx_value tx < 2000" using assms(2) by simp
  ultimately show ?thesis using assms(1)
    by (auto simp: sys_stake_def sm_get_consensus_state_def dest!: sm_save_state)
qed

end

text \<open>On an overlay the consensus state is not saved, so every withdrawal pays.\<close>

lemma overlay_withdraw_pays:
  assumes "evm_store V absm" and "sys_withdraw X (overlay_impl V) tx db = Some db'"
    and "get_consensus_state V (inner_of db) = Inr (Some st)"
    and "cs_stakes st (sender X tx) = Some k" "0 < k" "may_withdraw (tx_public_key tx) st"
    and "ms_accounts (overlay_abs absm (sm_storage db)) (sender X tx) \<noteq> None"
  shows "balance_of (overlay_abs absm (sm_storage db')) (sender X tx) =
      balance_of (overlay_abs absm (sm_storage db)) (sender X tx) + k \<and>
    ms_accounts (overlay_abs absm (sm_storage db')) (sender X tx) \<noteq> None"
proof -
  let ?a = "sender X tx"
  note ov = evm_store.overlay_store [OF assms(1)]
  from assms obtain oacc where b: "basic (overlay_impl V) db ?a = Inr oacc"
    and c: "commit_unwrap X (overlay_impl V) db ?a (account_of_revm ((case oacc of Some acc \<Rightarrow> acc | None \<Rightarrow> revm_default_account X)
       \<lparr>ra_balance := ra_balance (case oacc of Some acc \<Rightarrow> acc | None \<Rightarrow> revm_default_account X) + k\<rparr>)) = Some db'"
    by (auto simp: sys_withdraw_def sm_get_consensus_state_def Let_def bind_eq_Some_conv)
  from evm_store.basic_account [OF ov b] assms(7) obtain acc where o: "oacc = Some acc"
    by (cases oacc) auto
  show ?thesis
    using evm_store.rewrite_balance [OF ov b [unfolded o] c [unfolded o option.case]]
    by (auto simp: balance_of_def account_of_revm_def)
qed

end
