(* ===== verification/Receipts_Root.thy ===== *)
theory Receipts_Root
  imports Types
begin

text \<open>
  Correctness of \<open>calculate_receipts_root\<close>: the loop ends with exactly one hash, agrees with
  the recursive Merkle root on lists whose length is a power of two, and binds the list of
  leaves when the strings it hashes do not collide and the length is fixed.  The length has
  to be fixed: duplicating the last leaf of an odd level gives two lists with one root.
\<close>

section \<open>The loop\<close>

lemma merkle_loop_single: "length ls \<le> 1 \<Longrightarrow> merkle_loop X ls = ls"
  by (subst merkle_loop.simps) simp

lemma merkle_loop_step:
  "1 < length ls \<Longrightarrow> merkle_loop X ls = merkle_loop X (merkle_level X (merkle_pad ls))"
  by (subst merkle_loop.simps) simp

lemma length_merkle_pad: "length (merkle_pad ls) = length ls + length ls mod 2"
  by (cases "even (length ls)") (auto simp: merkle_pad_def odd_iff_mod_2_eq_one)

lemma length_merkle_loop: "ls \<noteq> [] \<Longrightarrow> length (merkle_loop X ls) = 1"
proof (induction X ls rule: merkle_loop.induct)
  case (1 X ls)
  show ?case
  proof (cases "1 < length ls")
    case True
    then have "length (merkle_level X (merkle_pad ls)) > 0"
      by (simp add: length_merkle_pad)
    then have "merkle_level X (merkle_pad ls) \<noteq> []" by (metis length_greater_0_conv)
    with 1 True show ?thesis by (simp add: merkle_loop_step)
  next
    case False
    with 1 show ?thesis by (cases ls) (auto simp: merkle_loop_single)
  qed
qed

section \<open>Agreement with the recursive root\<close>

definition merkle_node :: "('x) blst_lib_scheme \<Rightarrow> hash \<Rightarrow> hash \<Rightarrow> hash" where
  "merkle_node X l r = Hash (keccak256 X (hash_bytes l @ hash_bytes r))"

fun merkle_tree_root :: "('x) blst_lib_scheme \<Rightarrow> nat \<Rightarrow> hash list \<Rightarrow> hash" where
  "merkle_tree_root X 0 ls = ls ! 0"
| "merkle_tree_root X (Suc k) ls =
     merkle_node X (merkle_tree_root X k (take (2 ^ k) ls)) (merkle_tree_root X k (drop (2 ^ k) ls))"

lemma merkle_level_append:
  "even (length xs) \<Longrightarrow> merkle_level X (xs @ ys) = merkle_level X xs @ merkle_level X ys"
  by (induction X xs rule: merkle_level.induct) auto

lemma merkle_level_take_drop:
  assumes "even n" and "n \<le> length ls"
  shows "take (n div 2) (merkle_level X ls) = merkle_level X (take n ls)"
    and "drop (n div 2) (merkle_level X ls) = merkle_level X (drop n ls)"
proof -
  have len: "length (take n ls) = n" using assms(2) by simp
  have "merkle_level X ls = merkle_level X (take n ls) @ merkle_level X (drop n ls)"
    using merkle_level_append [of "take n ls" X "drop n ls"] assms len by simp
  then show "take (n div 2) (merkle_level X ls) = merkle_level X (take n ls)"
    "drop (n div 2) (merkle_level X ls) = merkle_level X (drop n ls)"
    using len by simp_all
qed

lemma merkle_tree_root_level:
  "length ls = 2 ^ Suc k \<Longrightarrow>
   merkle_tree_root X k (merkle_level X ls) = merkle_tree_root X (Suc k) ls"
proof (induction k arbitrary: ls)
  case 0
  then obtain a b where "ls = [a, b]"
    by (auto simp: numeral_2_eq_2 length_Suc_conv)
  then show ?case by (simp add: merkle_node_def)
next
  case (Suc k)
  let ?n = "2 ^ Suc k :: nat"
  have n: "even ?n" "?n \<le> length ls" "?n div 2 = 2 ^ k" using Suc.prems by simp_all
  note td = merkle_level_take_drop [OF n(1,2), of X, unfolded n(3)]
  have "merkle_tree_root X k (merkle_level X (take ?n ls)) = merkle_tree_root X (Suc k) (take ?n ls)"
    by (rule Suc.IH) (use Suc.prems in simp)
  moreover
  have "merkle_tree_root X k (merkle_level X (drop ?n ls)) = merkle_tree_root X (Suc k) (drop ?n ls)"
    by (rule Suc.IH) (use Suc.prems in simp)
  ultimately show ?case
    by (simp only: merkle_tree_root.simps(2) [of X k "merkle_level X ls"]
        merkle_tree_root.simps(2) [of X "Suc k" ls] td)
qed

lemma merkle_loop_tree: "length ls = 2 ^ k \<Longrightarrow> merkle_loop X ls = [merkle_tree_root X k ls]"
proof (induction k arbitrary: ls)
  case 0
  then obtain a where "ls = [a]" by (auto simp: length_Suc_conv)
  then show ?case by (simp add: merkle_loop_single)
next
  case (Suc k)
  have gt: "1 < length ls" using Suc.prems
    by (metis one_less_power one_less_numeral_iff semiring_norm(76) zero_less_Suc)
  have pad: "merkle_pad ls = ls" using Suc.prems by (simp add: merkle_pad_def)
  have "length (merkle_level X ls) = 2 ^ k" using Suc.prems by simp
  from Suc.IH [OF this] show ?case
    using gt pad merkle_tree_root_level [OF Suc.prems, of X] by (simp add: merkle_loop_step)
qed

section \<open>Binding\<close>

text \<open>The strings the construction passes to \<open>keccak256\<close>.\<close>

fun level_inputs :: "hash list \<Rightarrow> bytes set" where
  "level_inputs (l # r # rest) = insert (hash_bytes l @ hash_bytes r) (level_inputs rest)"
| "level_inputs ls = {}"

function merkle_inputs :: "('x) blst_lib_scheme \<Rightarrow> hash list \<Rightarrow> bytes set" where
  "merkle_inputs X leaves =
     (if 1 < length leaves
      then level_inputs (merkle_pad leaves) \<union> merkle_inputs X (merkle_level X (merkle_pad leaves))
      else {})"
  by pat_completeness auto
termination
  by (relation "measure (\<lambda>(X, ls). length ls)") (auto simp: merkle_pad_def)

declare merkle_inputs.simps [simp del]

lemma merkle_level_inj:
  "\<lbrakk> merkle_level X xs = merkle_level X ys; length xs = length ys; even (length xs);
     inj_on (keccak256 X) (level_inputs xs \<union> level_inputs ys) \<rbrakk> \<Longrightarrow> xs = ys"
proof (induction X xs arbitrary: ys rule: merkle_level.induct)
  case (1 X l r rest)
  then obtain l' r' rest' where ys: "ys = l' # r' # rest'"
    by (cases ys; cases "tl ys") auto
  have "keccak256 X (hash_bytes l @ hash_bytes r) = keccak256 X (hash_bytes l' @ hash_bytes r')"
    using "1.prems"(1) ys by simp
  then have "hash_bytes l @ hash_bytes r = hash_bytes l' @ hash_bytes r'"
    using ys by (intro inj_onD [OF "1.prems"(4)]) simp_all
  then have "l = l'" "r = r'" by (auto simp: append_eq_append_conv)
  moreover have "rest = rest'"
  proof (rule "1.IH")
    show "inj_on (keccak256 X) (level_inputs rest \<union> level_inputs rest')"
      by (rule inj_on_subset [OF "1.prems"(4)]) (use ys in auto)
  qed (use "1.prems"(1-3) ys in simp_all)
  ultimately show ?case using ys by simp
qed auto

lemma merkle_pad_inj: "merkle_pad xs = merkle_pad ys \<Longrightarrow> length xs = length ys \<Longrightarrow> xs = ys"
  by (auto simp: merkle_pad_def split: if_splits)

lemma merkle_loop_inj:
  "\<lbrakk> merkle_loop X xs = merkle_loop X ys; length xs = length ys;
     inj_on (keccak256 X) (merkle_inputs X xs \<union> merkle_inputs X ys) \<rbrakk> \<Longrightarrow> xs = ys"
proof (induction X xs arbitrary: ys rule: merkle_loop.induct)
  case (1 X xs)
  show ?case
  proof (cases "1 < length xs")
    case True
    let ?x = "merkle_level X (merkle_pad xs)" and ?y = "merkle_level X (merkle_pad ys)"
    note inputs = merkle_inputs.simps [of X xs] merkle_inputs.simps [of X ys]
    have len: "length (merkle_pad xs) = length (merkle_pad ys)" "even (length (merkle_pad xs))"
      using "1.prems"(2) by (simp_all add: length_merkle_pad)
    have "?x = ?y"
    proof (rule "1.IH" [OF True])
      show "merkle_loop X ?x = merkle_loop X ?y"
        using "1.prems"(1,2) True by (simp add: merkle_loop_step)
      show "inj_on (keccak256 X) (merkle_inputs X ?x \<union> merkle_inputs X ?y)"
        using "1.prems"(2,3) True inputs by (auto elim: inj_on_subset)
    qed (use len in simp)
    moreover have "inj_on (keccak256 X) (level_inputs (merkle_pad xs) \<union> level_inputs (merkle_pad ys))"
      using "1.prems"(2,3) True inputs by (auto elim: inj_on_subset)
    ultimately have "merkle_pad xs = merkle_pad ys" by (rule merkle_level_inj [OF _ len])
    then show ?thesis using "1.prems"(2) by (rule merkle_pad_inj)
  next
    case False
    with "1.prems" show ?thesis by (simp add: merkle_loop_single)
  qed
qed

lemma merkle_loop_nth0: "ls \<noteq> [] \<Longrightarrow> merkle_loop X ls = [merkle_loop X ls ! 0]"
  using length_merkle_loop [of ls X] by (cases "merkle_loop X ls") auto

end
