(* ===== verification/Sample_Node.thy ===== *)
theory Sample_Node
  imports Executor
begin

text \<open>
  A concrete instance of the external libraries, small enough to evaluate by rewriting.  Keys
  are the last byte of their seed and their own secrets, a signature is the key followed by the last byte of a 32-byte message,
  an aggregate is the concatenation, and the hash is a polynomial over the bytes.  It stands for no deployed code:
  it shows that the hypotheses on the libraries can hold together, and runs the model on
  concrete inputs.
\<close>

definition poly_hash :: "bytes \<Rightarrow> 256 word" where
  "poly_hash bs = foldl (\<lambda>h b. h * 257 + ucast b + 1) 0 bs"

definition sample_transact ::
  "evm_db \<Rightarrow> u256 \<Rightarrow> tx_env \<Rightarrow> string + execution_result \<times> (address \<times> evm_account) list" where
  "sample_transact db fee env =
     (case db_basic db (te_caller env) of
        Inr (Some acc) \<Rightarrow>
          Inr (Success 21000 [] (OutputCall (te_data env)),
               [(te_caller env, \<lparr> ea_info = acc\<lparr>ra_nonce := ra_nonce acc + 1\<rparr>, ea_storage = [(0, te_value env)] \<rparr>)])
      | _ \<Rightarrow> Inl ''no account'')"

definition sample_lib :: exec_lib where
  "sample_lib =
     \<lparr> key_gen = (\<lambda>ikm info. Inr (drop 31 ikm)),
       sk_to_pk = (\<lambda>sk. sk),
       blst_sign = (\<lambda>sk m dst aug. sk @ drop 31 m),
       blst_verify = (\<lambda>s ck m dst aug pk pv. if s = pk @ drop 31 m then BLST_SUCCESS else BLST_VERIFY_FAIL),
       blst_aggregate = (\<lambda>sigs ck. Inr (concat sigs)),
       blst_fast_aggregate_verify =
         (\<lambda>s ck m dst pks. if s = concat (map (\<lambda>pk. pk @ drop 31 m) pks) then BLST_SUCCESS else BLST_VERIFY_FAIL),
       blst_pk_from_bytes = Inr,
       blst_sig_from_bytes = Inr,
       sha256 = poly_hash,
       keccak256 = poly_hash,
       json_block = (\<lambda>b. Some (pk_bytes (b_author b) @ [ucast (b_view b), ucast (hash_val (b_parent_hash b)),
                               ucast (hash_val (b_state_root b)), of_nat (length (b_payload b))])),
       json_transaction = (\<lambda>tx. Some (ucast (tx_nonce tx) # pk_bytes (tx_public_key tx))),
       json_sighash = (\<lambda>(cid, nonce, _). Some [ucast cid, ucast nonce]),
       json_receipt = (\<lambda>r. Some [r_status r, ucast (r_cumulative_gas_used r)]),
       json_committee = (\<lambda>c. Some (concat (map pk_bytes c))),
       json_account_info = (\<lambda>i. Some [ucast (ai_nonce i), ucast (ai_balance i)]),
       bincode_ser_branch = (\<lambda>n. Inl ''unused''),
       bincode_de_branch = (\<lambda>bs. Inl ''unused''),
       bincode_ser_h256 = (\<lambda>h. Inr [ucast h]),
       bincode_de_h256 = (\<lambda>bs. Inr (poly_hash bs)),
       smt_update = (\<lambda>gb gl r k v. ([InsertLeaf k v], Inr (r * 3 + v))),
       bytecode_default = [],
       iter_evidences = (\<lambda>m. m),
       iter_transactions = (\<lambda>m. m),
       iter_votes = (\<lambda>m. m),
       evm_transact = sample_transact,
       revm_default_account =
         \<lparr> ra_balance = 0, ra_nonce = 0, ra_code_hash = 0, ra_code = None \<rparr> \<rparr>"

lemma sample_iteration_ok: "iteration_ok sample_lib"
  by (simp add: iteration_ok_def sample_lib_def)

lemma sample_sign_ok: "blst_sign_ok sample_lib"
  by (simp add: blst_sign_ok_def sample_lib_def)

lemma concat_signatures:
  "(\<And>pk s. (pk, s) \<in> set ps \<Longrightarrow> s = pk @ m) \<Longrightarrow>
   concat (map snd ps) = concat (map (\<lambda>pk. pk @ m) (map fst ps))"
  by (induction ps) auto

lemma sample_aggregate_ok: "blst_aggregate_ok sample_lib"
  unfolding blst_aggregate_ok_def
proof (intro allI impI)
  fix ps :: "(bytes \<times> bytes) list" and m dst :: bytes
  assume "\<forall>(pk, s) \<in> set ps. blst_verify sample_lib s True m dst [] pk True = BLST_SUCCESS"
  then have "(pk, s) \<in> set ps \<Longrightarrow> s = pk @ drop 31 m" for pk s
    by (auto simp: sample_lib_def split: if_splits)
  from concat_signatures [OF this]
  show "\<exists>agg. blst_aggregate sample_lib (map snd ps) True = Inr agg \<and>
      blst_fast_aggregate_verify sample_lib agg True m dst (map fst ps) = BLST_SUCCESS"
    by (simp add: sample_lib_def)
qed

section \<open>Sample data\<close>

text \<open>A run that returned with a value.\<close>

definition returned :: "('s \<times> ('e + 'r)) option \<Rightarrow> bool" where
  "returned c = (case c of Some (_, Inr _) \<Rightarrow> True | _ \<Rightarrow> False)"

lemma returnedE:
  assumes "returned c"
  obtains s r where "c = Some (s, Inr r)"
proof (cases c)
  case (Some p)
  with assms show ?thesis using that by (cases p; cases "snd p") (auto simp: returned_def)
qed (use assms in \<open>simp add: returned_def\<close>)

definition pk1 :: public_key where "pk1 = PublicKey [1]"
definition pk2 :: public_key where "pk2 = PublicKey [2]"
definition pk3 :: public_key where "pk3 = PublicKey [3]"
definition pk4 :: public_key where "pk4 = PublicKey [4]"
definition pk5 :: public_key where "pk5 = PublicKey [5]"
definition pk6 :: public_key where "pk6 = PublicKey [6]"

text \<open>Four validators, a fifth due to join at view 7, the fourth due to leave at view 6.\<close>

definition sample_state :: consensus_state where
  "sample_state =
     \<lparr> cs_view = 1, cs_finalized_height = 0, cs_preferred_block = default_hash, cs_preferred_view = 0,
       cs_last_voted_view = 0, cs_committee = [pk1, pk2, pk3, pk4], cs_pending_validators = [(pk5, 7)],
       cs_exiting_validators = [(pk4, 6)],
       cs_stakes = [pk_address sample_lib pk1 \<mapsto> 2500, pk_address sample_lib pk4 \<mapsto> 3000,
                    pk_address sample_lib pk6 \<mapsto> 700],
       cs_inactivity_scores = [pk2 \<mapsto> 2] \<rparr>"

definition account_with :: "u256 \<Rightarrow> account_info" where
  "account_with v = default_account_info\<lparr>ai_balance := v\<rparr>"

definition sample_mem :: mem_storage where
  "sample_mem = new_mem_storage\<lparr>ms_state := Some sample_state,
     ms_accounts := [pk_address sample_lib pk1 \<mapsto> account_with 9000,
                     pk_address sample_lib pk6 \<mapsto> account_with 8000]\<rparr>"

definition sample_db :: "mem_storage state_manager" where
  "sample_db = \<lparr> sm_root = 0, sm_storage = sample_mem \<rparr>"

definition sample_vote :: "private_key \<Rightarrow> vote_type \<Rightarrow> view \<Rightarrow> hash \<Rightarrow> vote" where
  "sample_vote sk t v h = \<lparr> v_view = v, v_block_hash = h, v_vote_type = t,
     v_author = public_key_of sample_lib sk, v_signature = sign sample_lib sk (hash_bytes h) \<rparr>"

definition sample_tx :: "public_key \<Rightarrow> address \<Rightarrow> u256 \<Rightarrow> bytes \<Rightarrow> transaction" where
  "sample_tx pk to v d = \<lparr> tx_chain_id = 1337, tx_nonce = 0, tx_max_priority_fee_per_gas = 5,
     tx_max_fee_per_gas = 20, tx_gas_limit = 21000, tx_to = Some to, tx_value = v, tx_data = d,
     tx_access_list = [], tx_public_key = pk, tx_signature = Signature (pk_bytes pk) \<rparr>"

definition stake_tx :: transaction where
  "stake_tx = sample_tx pk6 sys_contract 2000 [0x3a, 0x4b, 0x66, 0xf1]"

definition withdraw_tx :: transaction where
  "withdraw_tx = sample_tx pk6 sys_contract 0 [0x3c, 0xcf, 0xd6, 0x0b]"

definition call_tx :: transaction where
  "call_tx = sample_tx pk1 77 3 []"

text \<open>Two conflicting votes of the first validator.\<close>

definition sample_evidence :: equivocation_evidence where
  "sample_evidence = \<lparr> vote_a = sample_vote (PrivateKey [1]) Notarize 3 (Hash 8),
     vote_b = sample_vote (PrivateKey [1]) Notarize 3 (Hash 9) \<rparr>"

definition sample_block :: "transaction list \<Rightarrow> equivocation_evidence list \<Rightarrow> block" where
  "sample_block txs es = \<lparr> b_author = pk2, b_view = 7, b_parent_hash = default_hash,
     b_justify = \<lparr> qc_view = 6, qc_block_hash = default_hash, qc_signature = Signature [], qc_signers = [] \<rparr>,
     b_state_root = default_hash, b_receipts_root = default_hash, b_payload = txs, b_is_dummy = False,
     b_base_fee_per_gas = 10, b_gas_used = 0, b_evidence = es, b_committee_hash = default_hash \<rparr>"

end
