(* ===== verification/Ledger_Properties.thy ===== *)
theory Ledger_Properties
  imports Validators Receipts_Root Sample_Node
begin

text \<open>
  The properties of the ledger: the set of validators, its delay, and stakes.  Each property with
  a hypothesis is followed by an instance on concrete data.
\<close>

section \<open>Sample runs\<close>

lemma sample_run:
  obtains db' r where "execute_block sample_lib (mem_impl sample_lib) 30000 sample_db
      (sample_block [stake_tx] [sample_evidence]) = Some (db', r)"
proof -
  have "map_option (\<lambda>_. ()) (execute_block sample_lib (mem_impl sample_lib) 30000 sample_db
      (sample_block [stake_tx] [sample_evidence])) = Some ()" by code_simp
  then show ?thesis using that by auto
qed

lemma sample_db_state: "ms_state (sm_storage sample_db) = Some sample_state"
  by (simp add: sample_db_def sample_mem_def)

section \<open>Validators\<close>

text \<open>
  C12: executing a block, whatever its evidence, transactions and outcome, keeps the committee
  free of duplicates, the pending queue free of duplicates, and the two disjoint, in every
  store that keeps the storage contract.
\<close>

theorem execute_block_validator_wf:
  assumes "chain_store V absm hb"
    and "execute_block X V lim db b = Some (db', r)"
    and "ms_state (absm (sm_storage db)) = Some st" and "validator_wf st"
  shows "\<exists>st'. ms_state (absm (sm_storage db')) = Some st' \<and> validator_wf st'"
  using block_keeps [OF validator_updates [OF assms(1)] assms(2-4)] .

theorem execute_block_validator_wf_witness:
  "\<exists>db' r st'. execute_block sample_lib (mem_impl sample_lib) 30000 sample_db
      (sample_block [stake_tx] [sample_evidence]) = Some (db', r) \<and>
    ms_state (sm_storage db') = Some st' \<and> validator_wf st'"
proof -
  have "validator_wf sample_state" by code_simp
  then show ?thesis
    using execute_block_validator_wf [OF mem.chain_store_axioms _ sample_db_state] sample_run by metis
qed

text \<open>
  C13: the activation delay.  A validator that is in the committee after a block of view \<open>v\<close>
  was in it before, or was pending before the block with an activation view that has come; a
  validator that is pending after the block was pending before with the same view or is due at
  \<open>v + 10\<close>.  So nobody stakes and votes in the same block.  The view counter must be ten
  below its limit.
\<close>

theorem execute_block_activation_delay:
  assumes "chain_store V absm hb"
    and "execute_block X V lim db b = Some (db', r)"
    and "ms_state (absm (sm_storage db)) = Some st" and "b_view b < b_view b + 10"
  shows "\<exists>st'. ms_state (absm (sm_storage db')) = Some st' \<and>
     (\<forall>pk \<in> set (cs_committee st'). pk \<in> set (cs_committee st) \<or>
        (\<exists>v \<le> b_view b. (pk, v) \<in> set (cs_pending_validators st))) \<and>
     (\<forall>(pk, v) \<in> set (cs_pending_validators st').
        (pk, v) \<in> set (cs_pending_validators st) \<or> v = b_view b + 10)"
proof -
  have "delayed_from st (b_view b) st" by (auto simp: delayed_from_def)
  from block_keeps [OF delayed_updates [OF assms(1)] assms(2,3) this] assms(4)
  show ?thesis by (auto simp: delayed_from_def)
qed

theorem execute_block_activation_delay_witness:
  "\<exists>db' r st'. execute_block sample_lib (mem_impl sample_lib) 30000 sample_db
      (sample_block [stake_tx] [sample_evidence]) = Some (db', r) \<and>
    ms_state (sm_storage db') = Some st' \<and>
    (\<forall>pk \<in> set (cs_committee st'). pk \<in> {pk1, pk2, pk3, pk4, pk5}) \<and>
    (\<forall>(pk, v) \<in> set (cs_pending_validators st'). (pk, v) = (pk5, 7) \<or> v = 17)"
proof (rule sample_run)
  fix db' r assume run: "execute_block sample_lib (mem_impl sample_lib) 30000 sample_db
      (sample_block [stake_tx] [sample_evidence]) = Some (db', r)"
  have v: "b_view (sample_block [stake_tx] [sample_evidence]) = 7" by (simp add: sample_block_def)
  from execute_block_activation_delay [OF mem.chain_store_axioms run sample_db_state] run
  show ?thesis by (auto simp: v sample_state_def)
qed

text \<open>
  C19: what a stake call of at least the minimum does to a chain store.  It moves exactly the
  transaction's value from the sender's balance, which covers it, to the sender's stake.  The
  sender's nonce grows by one.  The sender's key joins the pending validators, ten views ahead,
  unless it is in the committee or pending already.  A successful receipt is added.  Nothing
  else of the store changes, the nodes of the state tree apart: no other account, stake or
  field of the consensus state, no block, certificate, code or slot.
\<close>

theorem stake_call_moves_funds:
  assumes "reliable_store V absm hb"
    and "process_system_contract X V tx db rs g vw = Some (db', Inr rs')"
    and "take 4 (tx_data tx) = [0x3a, 0x4b, 0x66, 0xf1]" and "2000 \<le> tx_value tx"
    and "ms_state (absm (sm_storage db)) = Some st"
  shows "let m = absm (sm_storage db); m' = absm (sm_storage db'); a = sender X tx; pk = tx_public_key tx in
    tx_value tx \<le> balance_of m a \<and>
    balance_of m' = (balance_of m)(a := balance_of m a - tx_value tx) \<and>
    stake_of m' = (stake_of m)(a := stake_of m a + tx_value tx) \<and>
    (\<exists>i. ms_accounts m a = Some i \<and>
      non_smt m' = (non_smt m)
        \<lparr>ms_accounts := (ms_accounts m)(a \<mapsto> charged_account m tx i),
         ms_state := Some (st
           \<lparr>cs_stakes := (cs_stakes st)(a \<mapsto> stake_of m a + tx_value tx),
            cs_pending_validators := cs_pending_validators st @
              (if pk \<in> set (cs_committee st) \<or> pk \<in> fst ` set (cs_pending_validators st) then []
               else [(pk, vw + 10)])\<rparr>)\<rparr>) \<and>
    rs' = rs @ [\<lparr> r_status = 1, r_cumulative_gas_used = g, r_logs = [] \<rparr>]"
proof -
  let ?m = "absm (sm_storage db)" and ?a = "sender X tx"
  have chain: "chain_store V absm hb" using assms(1) by (rule reliable_store.axioms)
  have len: "4 \<le> length (tx_data tx)"
    using arg_cong [OF assms(3), of length] by simp
  have d: "sys_dispatch X V tx vw db = Some db1 \<Longrightarrow>
      absm (sm_storage db1) = ?m\<lparr>ms_state := Some (stake_update X tx vw st)\<rparr>" for db1
    using reliable_store.sys_stake_locks [OF assms(1) _ assms(4,5)] len assms(3)
    by (simp add: sys_dispatch_def)
  obtain db1 i where f: "sys_dispatch X V tx vw db = Some db1" "tx_value tx \<le> balance_of ?m ?a"
    "ms_accounts (absm (sm_storage db1)) ?a = Some i"
    "non_smt (absm (sm_storage db')) = (non_smt (absm (sm_storage db1)))
      \<lparr>ms_accounts := (ms_accounts (absm (sm_storage db1)))(?a \<mapsto> charged_account (absm (sm_storage db1)) tx i)\<rparr>"
    "rs' = rs @ [\<lparr> r_status = 1, r_cumulative_gas_used = g, r_logs = [] \<rparr>]"
    by (rule chain_store.system_contract_frame [OF chain assms(2)]) (use d in auto)
  note d1 = d [OF f(1)]
  have i: "ms_accounts ?m ?a = Some i" using f(3) by (simp add: d1)
  have c: "charged_account (absm (sm_storage db1)) tx i = charged_account ?m tx i"
    by (simp add: d1 charged_account_def loaded_code_def cong: option.case_cong)
  have w: "non_smt (absm (sm_storage db')) = (non_smt ?m)
      \<lparr>ms_accounts := (ms_accounts ?m)(?a \<mapsto> charged_account ?m tx i),
       ms_state := Some (stake_update X tx vw st)\<rparr>"
    unfolding f(4) c by (simp add: d1)
  have "ms_accounts (absm (sm_storage db')) = (ms_accounts ?m)(?a \<mapsto> charged_account ?m tx i)"
    "ms_state (absm (sm_storage db')) = Some (stake_update X tx vw st)"
    using arg_cong [OF w, of ms_accounts] arg_cong [OF w, of ms_state] by simp_all
  with f(2,5) w i assms(5) show ?thesis
    by (auto simp: Let_def balance_of_def stake_of_def stake_update_def charged_account_def split: option.split)
qed

theorem stake_call_moves_funds_witness:
  "\<exists>db' rs'. process_system_contract sample_lib (mem_impl sample_lib) stake_tx sample_db [] 0 7 = Some (db', Inr rs') \<and>
    balance_of (sm_storage db') (sender sample_lib stake_tx) = 6000 \<and>
    stake_of (sm_storage db') (sender sample_lib stake_tx) = 2700 \<and>
    map_option ai_nonce (ms_accounts (sm_storage db') (sender sample_lib stake_tx)) = Some 1 \<and>
    map_option cs_pending_validators (ms_state (sm_storage db')) =
      Some (cs_pending_validators sample_state @ [(tx_public_key stake_tx, 17)])"
proof -
  let ?call = "process_system_contract sample_lib (mem_impl sample_lib) stake_tx sample_db [] 0 7"
  have "returned ?call" by code_simp
  then obtain db' rs' where run: "?call = Some (db', Inr rs')" by (rule returnedE)
  have v: "take 4 (tx_data stake_tx) = [0x3a, 0x4b, 0x66, 0xf1]" "2000 \<le> tx_value stake_tx"
    "balance_of (sm_storage sample_db) (sender sample_lib stake_tx) = 8000"
    "stake_of (sm_storage sample_db) (sender sample_lib stake_tx) = 700" "tx_value stake_tx = 2000"
    "map_option ai_nonce (ms_accounts (sm_storage sample_db) (sender sample_lib stake_tx)) = Some 0"
    "tx_public_key stake_tx \<notin> set (cs_committee sample_state)"
    "tx_public_key stake_tx \<notin> fst ` set (cs_pending_validators sample_state)"
    by code_simp+
  note s = stake_call_moves_funds [OF mem.reliable_store_axioms run v(1,2) sample_db_state, unfolded Let_def]
  then obtain i where i: "ms_accounts (sm_storage sample_db) (sender sample_lib stake_tx) = Some i"
    and w: "non_smt (sm_storage db') = (non_smt (sm_storage sample_db))
        \<lparr>ms_accounts := (ms_accounts (sm_storage sample_db))
           (sender sample_lib stake_tx \<mapsto> charged_account (sm_storage sample_db) stake_tx i),
         ms_state := Some (sample_state
           \<lparr>cs_stakes := (cs_stakes sample_state)(sender sample_lib stake_tx \<mapsto> 2700),
            cs_pending_validators := cs_pending_validators sample_state @ [(tx_public_key stake_tx, 17)]\<rparr>)\<rparr>"
    using v by auto
  from i v(6) arg_cong [OF w, of ms_accounts] arg_cong [OF w, of ms_state] s run v(3-5) show ?thesis
    by (simp add: charged_account_def)
qed

text \<open>
  C20: a withdrawal pays the sender exactly its recorded stake, empties the stake, leaves every
  other balance and stake alone, and repeating it changes nothing.
\<close>

theorem withdraw_pays_once:
  assumes "chain_store V absm hb" and "sys_withdraw X V tx db = Some db'"
    and "get_consensus_state V (sm_storage db) = Inr (Some st)"
    and "cs_stakes st (sender X tx) = Some k" "0 < k" and "may_withdraw (tx_public_key tx) st"
    and "ms_accounts (absm (sm_storage db)) (sender X tx) = Some i"
  shows "let m = absm (sm_storage db); m' = absm (sm_storage db'); a = sender X tx in
    balance_of m' = (balance_of m)(a := balance_of m a + k) \<and>
    stake_of m' = (stake_of m)(a := 0) \<and> sys_withdraw X V tx db' = Some db'"
proof -
  have "ms_state (absm (sm_storage db)) = Some st"
    using evm_store.get_consensus_state [OF chain_store.axioms(1) [OF assms(1)] assms(3)] by simp
  then show ?thesis
    using chain_store.sys_withdraw_pays [OF assms] chain_store.sys_withdraw_again [OF assms(1,2)]
    by (auto simp: Let_def stake_of_def withdraw_update_def)
qed

lemma withdraw_sample:
  "get_consensus_state (mem_impl sample_lib) (sm_storage sample_db) = Inr (Some sample_state)"
  "cs_stakes sample_state (sender sample_lib withdraw_tx) = Some 700"
  "may_withdraw (tx_public_key withdraw_tx) sample_state"
  "ms_accounts (sm_storage sample_db) (sender sample_lib withdraw_tx) = Some (account_with 8000)"
proof -
  show "get_consensus_state (mem_impl sample_lib) (sm_storage sample_db) = Inr (Some sample_state)"
    by (simp add: sample_db_state)
  show "cs_stakes sample_state (sender sample_lib withdraw_tx) = Some 700"
    "may_withdraw (tx_public_key withdraw_tx) sample_state"
    "ms_accounts (sm_storage sample_db) (sender sample_lib withdraw_tx) = Some (account_with 8000)"
    by code_simp+
qed

theorem withdraw_pays_once_witness:
  "\<exists>db'. sys_withdraw sample_lib (mem_impl sample_lib) withdraw_tx sample_db = Some db' \<and>
    balance_of (sm_storage db') (sender sample_lib withdraw_tx) = 8700 \<and>
    stake_of (sm_storage db') (sender sample_lib withdraw_tx) = 0 \<and>
    sys_withdraw sample_lib (mem_impl sample_lib) withdraw_tx db' = Some db'"
proof -
  have "map_option (\<lambda>_. ()) (sys_withdraw sample_lib (mem_impl sample_lib) withdraw_tx sample_db) = Some ()"
    by code_simp
  then obtain db' where run: "sys_withdraw sample_lib (mem_impl sample_lib) withdraw_tx sample_db = Some db'"
    by auto
  have "balance_of (sm_storage sample_db) (sender sample_lib withdraw_tx) = 8000"
    by (simp add: balance_of_def withdraw_sample account_with_def)
  with run withdraw_pays_once [OF mem.chain_store_axioms run withdraw_sample(1,2) _ withdraw_sample(3,4)]
  show ?thesis by (simp add: Let_def)
qed

text \<open>
  C39: in speculative execution the same withdrawal pays again each time it is repeated, because
  the overlay drops the write that empties the stake.  A block with two withdrawals is
  therefore proposed and validated with the stake credited twice, and credited once when it is
  executed on the chain's own store.
\<close>

theorem speculative_withdraw_repeats:
  assumes "evm_store V absm"
    and "sys_withdraw X (overlay_impl V) tx db = Some db1"
    and "sys_withdraw X (overlay_impl V) tx db1 = Some db2"
    and "get_consensus_state V (ov_inner (sm_storage db)) = Inr (Some st)"
    and "cs_stakes st (sender X tx) = Some k" "0 < k" and "may_withdraw (tx_public_key tx) st"
    and "ms_accounts (overlay_abs absm (sm_storage db)) (sender X tx) \<noteq> None"
  shows "balance_of (overlay_abs absm (sm_storage db2)) (sender X tx) =
    balance_of (overlay_abs absm (sm_storage db)) (sender X tx) + k + k"
proof -
  note one = overlay_withdraw_pays [OF assms(1,2,4-8)]
  have "inner_of db1 = inner_of db" using assms(2) by (rule sys_withdraw_inner)
  with overlay_withdraw_pays [OF assms(1,3) _ assms(5-7)] assms(4) one show ?thesis by simp
qed

theorem speculative_withdraw_repeats_witness:
  "\<exists>db1 db2. let ov = overlay_impl (mem_impl sample_lib);
     db = fork sample_db default_hash (new_state_overlay sample_mem) in
    sys_withdraw sample_lib ov withdraw_tx db = Some db1 \<and>
    sys_withdraw sample_lib ov withdraw_tx db1 = Some db2 \<and>
    balance_of (overlay_abs (\<lambda>m. m) (sm_storage db2)) (sender sample_lib withdraw_tx) = 9400"
proof -
  let ?ov = "overlay_impl (mem_impl sample_lib)"
  let ?db = "fork sample_db default_hash (new_state_overlay sample_mem)"
  have "map_option (\<lambda>_. ()) (Option.bind (sys_withdraw sample_lib ?ov withdraw_tx ?db)
      (sys_withdraw sample_lib ?ov withdraw_tx)) = Some ()"
    by code_simp
  then obtain db1 db2 where run: "sys_withdraw sample_lib ?ov withdraw_tx ?db = Some db1"
    "sys_withdraw sample_lib ?ov withdraw_tx db1 = Some db2"
    by (auto simp: bind_eq_Some_conv)
  have ab: "overlay_abs (\<lambda>m. m) (sm_storage ?db) = sm_storage sample_db"
    by (simp add: fork_def new_overlay_abs sample_db_def)
  have inner: "ov_inner (sm_storage ?db) = sm_storage sample_db"
    by (simp add: fork_def new_state_overlay_def sample_db_def)
  have "balance_of (overlay_abs (\<lambda>m. m) (sm_storage db2)) (sender sample_lib withdraw_tx) =
      balance_of (sm_storage sample_db) (sender sample_lib withdraw_tx) + 700 + 700"
    using speculative_withdraw_repeats [OF mem.evm_store_axioms run, unfolded inner ab, OF withdraw_sample(1,2)]
      withdraw_sample(3,4) by simp
  also have "\<dots> = 9400" by (simp add: balance_of_def withdraw_sample account_with_def)
  finally show ?thesis using run by (auto simp: Let_def)
qed

end
