(* ===== verification/Block_Properties.thy ===== *)
theory Block_Properties
  imports Executor_Proofs Receipts_Root Sample_Node
begin

text \<open>
  What goes into a block and what its roots say: the selection of transactions, the isolation of
  speculative execution, and the receipts root.
\<close>

section \<open>Selection of transactions\<close>





section \<open>Speculative execution\<close>

text \<open>
  C23: speculation leaves no trace.  Executing any block on an overlay, as proposing and
  validating do, never changes the chain store below it, whatever the block holds and whether
  or not the execution succeeds.
\<close>

theorem speculation_is_isolated:
  assumes "execute_block X (overlay_impl V) limit (fork sm r (new_state_overlay s)) b = Some (sm', res)"
  shows "ov_inner (sm_storage sm') = s"
  using execute_block_inner [OF assms] by (simp add: fork_def new_state_overlay_def)

theorem speculation_is_isolated_witness:
  "\<exists>sm' res. execute_block sample_lib (overlay_impl (mem_impl sample_lib)) 30000
      (fork sample_db default_hash (new_state_overlay sample_mem)) (sample_block [stake_tx] [sample_evidence]) =
      Some (sm', res) \<and> ov_inner (sm_storage sm') = sample_mem"
proof -
  have "map_option (\<lambda>_. ()) (execute_block sample_lib (overlay_impl (mem_impl sample_lib)) 30000
      (fork sample_db default_hash (new_state_overlay sample_mem)) (sample_block [stake_tx] [sample_evidence])) = Some ()"
    by code_simp
  then show ?thesis using speculation_is_isolated by fastforce
qed

section \<open>The receipts root\<close>

text \<open>
  C24: the receipts root binds the receipts.  If hashing does not collide on the serialized
  receipts and on the strings the tree hashes, two receipt lists of the same length with the
  same root are equal.
\<close>

theorem receipts_root_binds:
  assumes "calculate_receipts_root X rs = calculate_receipts_root X rs'" and "length rs = length rs'"
    and "inj_on (\<lambda>r. hash_data X (json_receipt X r)) (set rs \<union> set rs')"
    and "inj_on (keccak256 X) (merkle_inputs X (map (\<lambda>r. hash_data X (json_receipt X r)) rs) \<union>
           merkle_inputs X (map (\<lambda>r. hash_data X (json_receipt X r)) rs'))"
  shows "rs = rs'"
proof (cases "rs = []")
  case False
  let ?h = "\<lambda>r. hash_data X (json_receipt X r)"
  have ne: "map ?h rs \<noteq> []" "map ?h rs' \<noteq> []" using False assms(2) by auto
  have "merkle_loop X (map ?h rs) = merkle_loop X (map ?h rs')"
    using merkle_loop_nth0 [OF ne(1), of X] merkle_loop_nth0 [OF ne(2), of X] assms(1) ne
    by (auto simp: calculate_receipts_root_def)
  from merkle_loop_inj [OF this _ assms(4)] assms(2) have "map ?h rs = map ?h rs'" by simp
  then show ?thesis by (rule map_inj_on [OF _ assms(3)])
qed (use assms(2) in simp)

definition sample_receipt :: "u8 \<Rightarrow> receipt" where
  "sample_receipt status = \<lparr> r_status = status, r_cumulative_gas_used = 21000, r_logs = [] \<rparr>"

theorem receipts_root_binds_witness:
  "calculate_receipts_root sample_lib [sample_receipt 0, sample_receipt 1] \<noteq>
   calculate_receipts_root sample_lib [sample_receipt 1, sample_receipt 0]"
proof
  let ?X = sample_lib and ?r = "sample_receipt 0" and ?q = "sample_receipt 1"
  let ?h = "\<lambda>r. hash_data ?X (json_receipt ?X r)"
  assume eq: "calculate_receipts_root ?X [?r, ?q] = calculate_receipts_root ?X [?q, ?r]"
  have "?h ?r \<noteq> ?h ?q" by code_simp
  then have inj: "inj_on ?h (set [?r, ?q] \<union> set [?q, ?r])" by (auto simp: inj_on_def)
  have inputs: "merkle_inputs ?X [a, b] = {hash_bytes a @ hash_bytes b}" for a b
    by (simp add: merkle_inputs.simps merkle_pad_def)
  have two: "f u \<noteq> f v \<Longrightarrow> inj_on f ({u} \<union> {v})" for f :: "bytes \<Rightarrow> 256 word" and u v by (auto simp: inj_on_def)
  have "keccak256 ?X (hash_bytes (?h ?r) @ hash_bytes (?h ?q)) \<noteq>
      keccak256 ?X (hash_bytes (?h ?q) @ hash_bytes (?h ?r))" by code_simp
  then have "inj_on (keccak256 ?X) (merkle_inputs ?X (map ?h [?r, ?q]) \<union> merkle_inputs ?X (map ?h [?q, ?r]))"
    unfolding list.map inputs by (rule two)
  with eq inj have "[?r, ?q] = [?q, ?r]" by (intro receipts_root_binds) (simp_all only: list.size)
  then show False by (simp add: sample_receipt_def)
qed

text \<open>
  C25: for a power of two of receipts the loop computes the recursive Merkle root; but the length
  is not bound: at an odd level the last hash is repeated, so an odd list of at least three
  receipts and the same list with its last receipt repeated have one root.
\<close>

theorem receipts_root_tree:
  assumes "length rs = 2 ^ k" and "odd (length qs)" and "1 < length qs"
  shows "calculate_receipts_root X rs = merkle_tree_root X k (map (\<lambda>r. hash_data X (json_receipt X r)) rs) \<and>
    calculate_receipts_root X (qs @ [last qs]) = calculate_receipts_root X qs"
proof
  have "rs \<noteq> []" using assms(1) by auto
  then show "calculate_receipts_root X rs = merkle_tree_root X k (map (\<lambda>r. hash_data X (json_receipt X r)) rs)"
    using merkle_loop_tree [of "map (\<lambda>r. hash_data X (json_receipt X r)) rs" k X] assms(1)
    by (simp add: calculate_receipts_root_def)
  let ?h = "map (\<lambda>r. hash_data X (json_receipt X r)) qs"
  have ne: "qs \<noteq> []" using assms(3) by auto
  have pad: "merkle_pad (?h @ [last ?h]) = ?h @ [last ?h]" "merkle_pad ?h = ?h @ [last ?h]"
    using assms(2) by (simp_all add: merkle_pad_def odd_iff_mod_2_eq_one)
  have "merkle_loop X (?h @ [last ?h]) = merkle_loop X ?h"
    using assms(3) ne merkle_loop_step [of "?h @ [last ?h]" X] merkle_loop_step [of ?h X] by (simp only: pad) simp
  with ne show "calculate_receipts_root X (qs @ [last qs]) = calculate_receipts_root X qs"
    by (simp add: calculate_receipts_root_def last_map)
qed

theorem receipts_root_tree_witness:
  "calculate_receipts_root sample_lib [sample_receipt 0, sample_receipt 1, sample_receipt 2, sample_receipt 2] =
   calculate_receipts_root sample_lib [sample_receipt 0, sample_receipt 1, sample_receipt 2]"
  using receipts_root_tree [of "[sample_receipt 0]" 0 "[sample_receipt 0, sample_receipt 1, sample_receipt 2]" sample_lib]
  by simp

end
