(* ===== verification/Consensus.thy ===== *)
theory Consensus
  imports Executor
begin

text \<open>
  The model of \<open>src/src/consensus.rs\<close>: the Simplex state machine of one node.  Every handler
  maps the state to the new state with the error or the list of actions it returns, since the
  source mutates \<open>self\<close> also on the paths that end in an error.  \<^term>\<open>None\<close> is a panic: an
  \<open>unwrap\<close> on a storage error, a division by zero, an empty committee.

  The storage object is shared by the node, its transaction pool and its executor, so the
  state holds it once; of the executor remain the root of its tree and its gas limit.
\<close>

section \<open>State, errors and actions\<close>

datatype consensus_error =
    InvalidView
  | InvalidParent
  | InvalidQC
  | InvalidBlock
  | UnknownAuthor
  | InvalidStateRoot
  | InvalidReceiptsRoot
  | ConsensusInvalidSignature

datatype consensus_action =
    BroadcastVote vote
  | BroadcastEvidence equivocation_evidence
  | BroadcastBlock block
  | BroadcastRequest hash
  | SendBlock block string

type_synonym vote_map = "(public_key, vote) hmap"

record 's simplex_state =
  my_id :: public_key
  my_key :: private_key
  committee :: "public_key list"
  current_view :: view
  finalized_height :: view
  preferred_block :: hash
  preferred_view :: view
  last_voted_view :: view
  ss_block_gas_limit :: u64
  ss_storage :: 's
  votes_received :: "view \<rightharpoonup> vote_map"
  finalize_votes_received :: "view \<rightharpoonup> vote_map"
  orphans :: "(hash, block list) hmap"
  evidence_pool :: evidence_pool
  ss_tx_pool :: tx_pool
  executor_root :: h256
  executor_gas_limit :: u64

type_synonym 's handled = "('s simplex_state \<times> (consensus_error + consensus_action list)) option"

section \<open>Persistence\<close>

definition initial_stakes :: "('x) blst_lib_scheme \<Rightarrow> public_key list \<Rightarrow> address \<rightharpoonup> u256" where
  "initial_stakes X cmt = foldl (\<lambda>m pk. m(pk_address X pk \<mapsto> 5000)) Map.empty cmt"

text \<open>The record \<open>persist_state\<close> falls back to when nothing is stored.\<close>

definition fresh_state ::
  "('x) blst_lib_scheme \<Rightarrow> 's simplex_state \<Rightarrow> consensus_state" where
  "fresh_state X self =
     \<lparr> cs_view = current_view self, cs_finalized_height = finalized_height self,
       cs_preferred_block = preferred_block self, cs_preferred_view = preferred_view self,
       cs_last_voted_view = last_voted_view self, cs_committee = committee self,
       cs_pending_validators = [], cs_exiting_validators = [],
       cs_stakes = initial_stakes X (committee self), cs_inactivity_scores = Map.empty \<rparr>"

definition managed_fields :: "'s simplex_state \<Rightarrow> consensus_state \<Rightarrow> consensus_state" where
  "managed_fields self state =
     state\<lparr> cs_view := current_view self, cs_finalized_height := finalized_height self,
            cs_preferred_block := preferred_block self, cs_preferred_view := preferred_view self,
            cs_last_voted_view := last_voted_view self, cs_committee := committee self \<rparr>"

definition persist_state ::
  "('x) exec_lib_scheme \<Rightarrow> 's storage_trait \<Rightarrow> 's simplex_state \<Rightarrow> 's simplex_state option" where
  "persist_state X V self = do {
     loaded \<leftarrow> unwrap (get_consensus_state V (ss_storage self));
     let state = (case loaded of Some st \<Rightarrow> st | None \<Rightarrow> fresh_state X self);
     (case save_consensus_state V (ss_storage self) (managed_fields self state) of
        Inr s' \<Rightarrow> Some (self\<lparr>ss_storage := s'\<rparr>)
      | Inl _ \<Rightarrow> Some self)
   }"

section \<open>Start of a node\<close>

definition genesis_block :: "('x) types_lib_scheme \<Rightarrow> block option" where
  "genesis_block X = do {
     qc \<leftarrow> default_qc X;
     (pk0, _) \<leftarrow> generate_keypair_from_id X 0;
     Some (new_block pk0 0 default_hash qc default_hash default_hash [] (ucast INITIAL_BASE_FEE)
             0 [] default_hash)
   }"

definition genesis_state :: "('x) types_lib_scheme \<Rightarrow> public_key list \<Rightarrow> hash \<Rightarrow> consensus_state" where
  "genesis_state X cmt genesis_hash =
     \<lparr> cs_view = 1, cs_finalized_height = 0, cs_preferred_block = genesis_hash,
       cs_preferred_view = 0, cs_last_voted_view = 0, cs_committee = cmt,
       cs_pending_validators = [], cs_exiting_validators = [],
       cs_stakes = initial_stakes X cmt, cs_inactivity_scores = Map.empty \<rparr>"

definition node_state ::
  "public_key \<Rightarrow> private_key \<Rightarrow> consensus_state \<Rightarrow> 's \<Rightarrow> tx_pool \<Rightarrow> h256 \<Rightarrow> u64 \<Rightarrow> u64 \<Rightarrow> 's simplex_state" where
  "node_state pk sk cs s pool r exec_limit limit =
     \<lparr> my_id = pk, my_key = sk, committee = cs_committee cs, current_view = cs_view cs,
       finalized_height = cs_finalized_height cs, preferred_block = cs_preferred_block cs,
       preferred_view = cs_preferred_view cs, last_voted_view = cs_last_voted_view cs,
       ss_block_gas_limit = limit, ss_storage = s, votes_received = Map.empty,
       finalize_votes_received = Map.empty, orphans = [], evidence_pool = new_evidence_pool,
       ss_tx_pool = pool, executor_root = r, executor_gas_limit = exec_limit \<rparr>"

definition new_simplex_state ::
  "('x) exec_lib_scheme \<Rightarrow> 's storage_trait \<Rightarrow> public_key \<Rightarrow> private_key \<Rightarrow> public_key list \<Rightarrow> 's \<Rightarrow>
   tx_pool \<Rightarrow> h256 \<Rightarrow> u64 \<Rightarrow> u64 \<Rightarrow> 's simplex_state option" where
  "new_simplex_state X V pk sk cmt s pool r exec_limit limit =
     (case get_consensus_state V s of
        Inr (Some saved) \<Rightarrow>
          Some (node_state pk sk saved s pool r exec_limit DEFAULT_BLOCK_GAS_LIMIT)
      | _ \<Rightarrow> do {
          genesis \<leftarrow> genesis_block X;
          s1 \<leftarrow> unwrap (save_block V s genesis);
          s2 \<leftarrow> unwrap (save_qc V s1 (b_justify genesis));
          let initial = genesis_state X cmt (hash_block X genesis);
          s3 \<leftarrow> unwrap (save_consensus_state V s2 initial);
          (pk0, _) \<leftarrow> generate_keypair_from_id X 0;
          s4 \<leftarrow> unwrap (save_account V s3 (pk_address X pk0)
                  \<lparr> ai_nonce = 0, ai_balance = - 1, ai_code_hash = Hash (keccak256 X []),
                    ai_code = None \<rparr>);
          Some (node_state pk sk initial s4 pool r exec_limit limit)
        })"

section \<open>Votes, leaders and certificates\<close>

definition create_vote ::
  "('x) blst_lib_scheme \<Rightarrow> 's simplex_state \<Rightarrow> view \<Rightarrow> hash \<Rightarrow> vote_type \<Rightarrow> vote" where
  "create_vote X self vw h t =
     \<lparr> v_view = vw, v_block_hash = h, v_vote_type = t, v_author = my_id self,
       v_signature = sign X (my_key self) (hash_bytes h) \<rparr>"

definition is_leader :: "'s simplex_state \<Rightarrow> view \<Rightarrow> bool option" where
  "is_leader self vw =
     (if committee self = [] then None
      else Some (committee self ! (unat vw mod length (committee self)) = my_id self))"

definition threshold :: "'s simplex_state \<Rightarrow> nat" where
  "threshold self = length (committee self) * 2 div 3 + 1"

definition verify_qc :: "('x) blst_lib_scheme \<Rightarrow> quorum_certificate \<Rightarrow> consensus_error + unit" where
  "verify_qc X qc =
     (if qc_view qc = 0 then Inr ()
      else if \<not> verify_aggregate X (qc_signers qc) (hash_bytes (qc_block_hash qc)) (qc_signature qc)
      then Inl InvalidQC
      else Inr ())"

definition update_preferred_chain ::
  "('x) exec_lib_scheme \<Rightarrow> 's storage_trait \<Rightarrow> 's simplex_state \<Rightarrow> quorum_certificate \<Rightarrow>
   's simplex_state option" where
  "update_preferred_chain X V self qc =
     (if qc_block_hash qc \<noteq> default_hash \<and> qc_view qc \<ge> preferred_view self
      then persist_state X V (self\<lparr>preferred_view := qc_view qc, preferred_block := qc_block_hash qc\<rparr>)
      else Some self)"

section \<open>Proposals\<close>

text \<open>
  \<open>calculate_next_base_fee\<close>: \<open>U256\<close> addition and multiplication wrap around and division by zero
  panics.
\<close>

definition calculate_next_base_fee :: "u64 \<Rightarrow> block \<Rightarrow> u256 option" where
  "calculate_next_base_fee limit parent =
     (let target = limit div 2; gas_used = b_gas_used parent; fee = b_base_fee_per_gas parent in
      if gas_used = target then Some fee
      else if target = 0 then None
      else if gas_used > target
      then Some (fee + fee * ucast (gas_used - target) div ucast target div 8)
      else (let decrease = fee * ucast (target - gas_used) div ucast target div 8
            in Some (if fee < decrease then 0 else fee - decrease)))"

definition create_proposal ::
  "('x) exec_lib_scheme \<Rightarrow> 's storage_trait \<Rightarrow> 's simplex_state \<Rightarrow> view \<Rightarrow> quorum_certificate \<Rightarrow>
   hash \<Rightarrow> (consensus_error + block) option" where
  "create_proposal X V self vw qc parent =
     (case get_block V (ss_storage self) parent of
        Inr (Some parent_block) \<Rightarrow> do {
          base_fee \<leftarrow> calculate_next_base_fee (ss_block_gas_limit self) parent_block;
          let payload = get_transactions_for_block X (ss_tx_pool self) (ss_block_gas_limit self) base_fee;
          Some (Inr (new_block (my_id self) vw parent qc default_hash default_hash payload base_fee 0
                       (get_all X (evidence_pool self)) (hash_committee X (committee self))))
        }
      | _ \<Rightarrow> Some (Inl InvalidParent))"

text \<open>Execution on an overlay, forked from the state root of the parent.\<close>

definition parent_root :: "'s storage_trait \<Rightarrow> 's simplex_state \<Rightarrow> hash \<Rightarrow> hash" where
  "parent_root V self parent =
     (if parent = default_hash then default_hash
      else case get_block V (ss_storage self) parent of
             Inr (Some b) \<Rightarrow> b_state_root b
           | _ \<Rightarrow> default_hash)"

definition executor_manager :: "'s simplex_state \<Rightarrow> 's state_manager" where
  "executor_manager self = \<lparr> sm_root = executor_root self, sm_storage = ss_storage self \<rparr>"

definition execute_on_overlay ::
  "('x) exec_lib_scheme \<Rightarrow> 's storage_trait \<Rightarrow> 's simplex_state \<Rightarrow> hash \<Rightarrow> block \<Rightarrow>
   (execution_error + block) option" where
  "execute_on_overlay X V self parent block =
     map_option snd (execute_block X (overlay_impl V) (ss_block_gas_limit self)
       (fork (executor_manager self) (parent_root V self parent)
          (new_state_overlay (ss_storage self))) block)"

definition cleanup_proposed_txs ::
  "('x) exec_lib_scheme \<Rightarrow> 's simplex_state \<Rightarrow> block \<Rightarrow> 's simplex_state" where
  "cleanup_proposed_txs X self block =
     self\<lparr>ss_tx_pool := remove_transactions X (ss_tx_pool self) (b_payload block)\<rparr>"

text \<open>The votes a node casts for a block: notarize, and finalize its justification.\<close>

definition proposal_votes ::
  "('x) exec_lib_scheme \<Rightarrow> 's simplex_state \<Rightarrow> block \<Rightarrow> consensus_action list" where
  "proposal_votes X self block =
     BroadcastVote (create_vote X self (b_view block) (hash_block X block) Notarize) #
     (if qc_view (b_justify block) > 0
      then [BroadcastVote (create_vote X self (qc_view (b_justify block))
              (qc_block_hash (b_justify block)) Finalize)]
      else [])"

definition try_propose ::
  "('x) exec_lib_scheme \<Rightarrow> 's storage_trait \<Rightarrow> 's simplex_state \<Rightarrow> 's handled" where
  "try_propose X V self = do {
     leader \<leftarrow> is_leader self (current_view self);
     if \<not> leader then Some (self, Inr [])
     else case get_qc V (ss_storage self) (current_view self - 1) of
       Inr (Some qc) \<Rightarrow> do {
         let parent = (if qc_block_hash qc = default_hash then preferred_block self
                       else qc_block_hash qc);
         proposal \<leftarrow> create_proposal X V self (current_view self) qc parent;
         (case proposal of
            Inl e \<Rightarrow> Some (self, Inl e)
          | Inr block0 \<Rightarrow> do {
              executed \<leftarrow> execute_on_overlay X V self parent block0;
              (case executed of
                 Inl _ \<Rightarrow> Some (self, Inl InvalidParent)
               | Inr block \<Rightarrow> do {
                   let self1 = cleanup_proposed_txs X self block;
                   s' \<leftarrow> unwrap (save_block V (ss_storage self1) block);
                   let self2 = self1\<lparr>ss_storage := s',
                         evidence_pool := remove_evidence (evidence_pool self1) (b_evidence block)\<rparr>;
                   Some (self2, Inr (BroadcastBlock block # proposal_votes X self2 block))
                 })
            })
       }
     | _ \<Rightarrow> Some (self, Inr [])
   }"

section \<open>Validation\<close>

definition buffer_orphan :: "'s simplex_state \<Rightarrow> block \<Rightarrow> 's simplex_state" where
  "buffer_orphan self block =
     self\<lparr>orphans := AList.update (b_parent_hash block)
        ((case map_of (orphans self) (b_parent_hash block) of Some l \<Rightarrow> l | None \<Rightarrow> []) @ [block])
        (orphans self)\<rparr>"

text \<open>Lines 419 to 435: the certificate, the preferred chain, storage and the pools.\<close>

definition accept_block ::
  "('x) exec_lib_scheme \<Rightarrow> 's storage_trait \<Rightarrow> 's simplex_state \<Rightarrow> block \<Rightarrow>
   ('s simplex_state \<times> (consensus_error + bool \<times> consensus_action list)) option" where
  "accept_block X V self block =
     (case verify_qc X (b_justify block) of
        Inl e \<Rightarrow> Some (self, Inl e)
      | Inr _ \<Rightarrow> do {
          self1 \<leftarrow> update_preferred_chain X V self (b_justify block);
          s' \<leftarrow> unwrap (save_block V (ss_storage self1) block);
          Some (self1\<lparr>ss_storage := s',
                      ss_tx_pool := remove_transactions X (ss_tx_pool self1) (b_payload block),
                      evidence_pool := remove_evidence (evidence_pool self1) (b_evidence block)\<rparr>,
                Inr (True, []))
        })"

definition validate_and_store_block ::
  "('x) exec_lib_scheme \<Rightarrow> 's storage_trait \<Rightarrow> 's simplex_state \<Rightarrow> block \<Rightarrow>
   ('s simplex_state \<times> (consensus_error + bool \<times> consensus_action list)) option" where
  "validate_and_store_block X V self block =
     (if (case get_block V (ss_storage self) (hash_block X block) of Inr (Some _) \<Rightarrow> True | _ \<Rightarrow> False)
      then Some (self, Inr (True, []))
      else do {
        missing \<leftarrow> (if b_parent_hash block = default_hash then Some False
                    else do {
                      p \<leftarrow> unwrap (get_block V (ss_storage self) (b_parent_hash block));
                      Some (p = None)
                    });
        if missing
        then Some (buffer_orphan self block, Inr (False, [BroadcastRequest (b_parent_hash block)]))
        else if b_committee_hash block \<noteq> hash_committee X (committee self)
        then Some (self, Inl InvalidBlock)
        else do {
          executed \<leftarrow> execute_on_overlay X V self (b_parent_hash block) (block\<lparr>b_gas_used := 0\<rparr>);
          (case executed of
             Inl _ \<Rightarrow> Some (self, Inl InvalidBlock)
           | Inr executed_block \<Rightarrow>
               (if b_state_root block \<noteq> b_state_root executed_block
                then Some (self, Inl InvalidStateRoot)
                else if b_receipts_root executed_block \<noteq> b_receipts_root block
                then Some (self, Inl InvalidReceiptsRoot)
                else accept_block X V self block))
        }
      })"

section \<open>Incoming proposals\<close>

text \<open>Fast-forward of the view, as \<open>on_proposal\<close> and \<open>on_block_response\<close> do it.\<close>

definition fast_forward ::
  "('x) exec_lib_scheme \<Rightarrow> 's storage_trait \<Rightarrow> 's simplex_state \<Rightarrow> view \<Rightarrow> 's simplex_state option" where
  "fast_forward X V self vw =
     (if vw \<ge> current_view self then persist_state X V (self\<lparr>current_view := vw\<rparr>) else Some self)"

definition on_proposal ::
  "('x) exec_lib_scheme \<Rightarrow> 's storage_trait \<Rightarrow> 's simplex_state \<Rightarrow> block \<Rightarrow> 's handled" where
  "on_proposal X V self block =
     (if b_view block < current_view self then Some (self, Inl InvalidView)
      else do {
        (self1, r) \<leftarrow> validate_and_store_block X V self block;
        (case r of
           Inl e \<Rightarrow> Some (self1, Inl e)
         | Inr (stored, actions) \<Rightarrow>
             (if \<not> stored then Some (self1, Inr actions)
              else do {
                self2 \<leftarrow> fast_forward X V self1 (b_view block);
                if b_view block \<le> last_voted_view self2 then Some (self2, Inr actions)
                else do {
                  self3 \<leftarrow> persist_state X V (self2\<lparr>last_voted_view := b_view block\<rparr>);
                  Some (self3, Inr (actions @ proposal_votes X self3 block))
                }
              }))
      })"

section \<open>Incoming votes\<close>

definition votes_of :: "(view \<rightharpoonup> vote_map) \<Rightarrow> view \<Rightarrow> vote_map" where
  "votes_of m vw = (case m vw of Some l \<Rightarrow> l | None \<Rightarrow> [])"

text \<open>The commit of a finalized block on the node's own storage, lines 789 to 817.\<close>

definition commit_finalized ::
  "('x) exec_lib_scheme \<Rightarrow> 's storage_trait \<Rightarrow> 's simplex_state \<Rightarrow> hash \<Rightarrow> 's simplex_state option" where
  "commit_finalized X V self h =
     (case get_block V (ss_storage self) h of
        Inr (Some block) \<Rightarrow> do {
          (db, r) \<leftarrow> execute_block X V (executor_gas_limit self) (executor_manager self) block;
          let self1 = self\<lparr>ss_storage := sm_storage db, executor_root := sm_root db\<rparr>;
          (case r of
             Inl _ \<Rightarrow> Some self1
           | Inr _ \<Rightarrow>
               (case sm_get_consensus_state V db of
                  Inr (Some state) \<Rightarrow> Some (self1\<lparr>committee := cs_committee state\<rparr>)
                | _ \<Rightarrow> Some self1))
        }
      | _ \<Rightarrow> Some self)"

definition on_finalize_vote ::
  "('x) exec_lib_scheme \<Rightarrow> 's storage_trait \<Rightarrow> 's simplex_state \<Rightarrow> vote \<Rightarrow> 's handled" where
  "on_finalize_vote X V self vote =
     (let view_votes = AList.update (v_author vote) vote
                         (votes_of (finalize_votes_received self) (v_view vote));
          self1 = self\<lparr>finalize_votes_received :=
                         (finalize_votes_received self)(v_view vote \<mapsto> view_votes)\<rparr>
      in if length view_votes \<ge> threshold self1 \<and> v_view vote > finalized_height self1
         then do {
           self2 \<leftarrow> persist_state X V (self1\<lparr>finalized_height := v_view vote\<rparr>);
           if v_block_hash vote = default_hash then Some (self2, Inr [])
           else do {
             self3 \<leftarrow> commit_finalized X V self2 (v_block_hash vote);
             Some (self3, Inr [])
           }
         }
         else Some (self1, Inr []))"

text \<open>Lines 576 to 647: the leader of the next view proposes on top of the new certificate.\<close>

definition chain_proposal ::
  "('x) exec_lib_scheme \<Rightarrow> 's storage_trait \<Rightarrow> 's simplex_state \<Rightarrow> quorum_certificate \<Rightarrow>
   ('s simplex_state \<times> consensus_action list) option" where
  "chain_proposal X V self qc = do {
     let next_view = qc_view qc + 1;
     leader \<leftarrow> is_leader self next_view;
     if \<not> leader then Some (self, [])
     else do {
       let parent = (if qc_block_hash qc = default_hash then preferred_block self
                     else qc_block_hash qc);
       proposal \<leftarrow> create_proposal X V self next_view qc parent;
       (case proposal of
          Inl _ \<Rightarrow> Some (self, [])
        | Inr block0 \<Rightarrow> do {
            executed \<leftarrow> execute_on_overlay X V self parent block0;
            (case executed of
               Inl _ \<Rightarrow> Some (self, [])
             | Inr block \<Rightarrow> do {
                 let self1 = cleanup_proposed_txs X self block;
                 s' \<leftarrow> unwrap (save_block V (ss_storage self1) block);
                 self2 \<leftarrow> persist_state X V
                            (self1\<lparr>ss_storage := s', last_voted_view := b_view block\<rparr>);
                 Some (self2, BroadcastBlock block # proposal_votes X self2 block)
               })
          })
     }
   }"

text \<open>Lines 546 to 651: enough votes for one block.\<close>

definition form_qc ::
  "('x) exec_lib_scheme \<Rightarrow> vote \<Rightarrow> vote list \<Rightarrow> quorum_certificate option" where
  "form_qc X vote matching = do {
     agg \<leftarrow> aggregate X (map v_signature matching);
     Some \<lparr> qc_view = v_view vote, qc_block_hash = v_block_hash vote, qc_signature = agg,
            qc_signers = map v_author matching \<rparr>
   }"

definition on_quorum ::
  "('x) exec_lib_scheme \<Rightarrow> 's storage_trait \<Rightarrow> 's simplex_state \<Rightarrow> vote \<Rightarrow> vote list \<Rightarrow> 's handled" where
  "on_quorum X V self vote matching = do {
     qc \<leftarrow> form_qc X vote matching;
     existing \<leftarrow> unwrap (get_qc V (ss_storage self) (v_view vote));
     (case existing of
        Some _ \<Rightarrow> Some (self, Inr [])
      | None \<Rightarrow> do {
          s1 \<leftarrow> unwrap (save_qc V (ss_storage self) qc);
          self1 \<leftarrow> update_preferred_chain X V (self\<lparr>ss_storage := s1\<rparr>) qc;
          let finalize_vote = create_vote X self1 (v_view vote) (v_block_hash vote) Finalize;
          self2 \<leftarrow> (if v_view vote + 1 > current_view self1
                    then persist_state X V (self1\<lparr>current_view := v_view vote + 1\<rparr>)
                    else Some self1);
          (self3, actions) \<leftarrow> chain_proposal X V self2 qc;
          Some (self3, Inr (BroadcastVote finalize_vote # actions))
        })
   }"

definition on_vote ::
  "('x) exec_lib_scheme \<Rightarrow> 's storage_trait \<Rightarrow> 's simplex_state \<Rightarrow> vote \<Rightarrow> 's handled" where
  "on_vote X V self vote =
     (if \<not> verify X (v_author vote) (hash_bytes (v_block_hash vote)) (v_signature vote)
      then Some (self, Inl ConsensusInvalidSignature)
      else if v_vote_type vote = Finalize then on_finalize_vote X V self vote
      else
        let view_votes = votes_of (votes_received self) (v_view vote) in
        case (case map_of view_votes (v_author vote) of
                Some existing \<Rightarrow>
                  (if v_block_hash existing \<noteq> v_block_hash vote \<and>
                      v_block_hash existing \<noteq> default_hash \<and> v_block_hash vote \<noteq> default_hash
                   then Some existing else None)
              | None \<Rightarrow> None) of
          Some existing \<Rightarrow>
            (let evidence = \<lparr> vote_a = existing, vote_b = vote \<rparr>;
                 (pool, added) = add_evidence (evidence_pool self) evidence
             in Some (self\<lparr>evidence_pool := pool\<rparr>,
                      Inr (if added then [BroadcastEvidence evidence] else [])))
        | None \<Rightarrow>
            (let votes' = AList.update (v_author vote) vote view_votes;
                 self1 = self\<lparr>votes_received := (votes_received self)(v_view vote \<mapsto> votes')\<rparr>;
                 matching = filter (\<lambda>v. v_block_hash v = v_block_hash vote)
                              (map snd (iter_votes X votes'))
             in if length matching \<ge> threshold self1
                then on_quorum X V self1 vote matching
                else Some (self1, Inr [])))"

section \<open>Timeouts\<close>

definition on_timeout ::
  "('x) exec_lib_scheme \<Rightarrow> 's simplex_state \<Rightarrow> view \<Rightarrow> 's handled" where
  "on_timeout X self vw =
     (if vw < current_view self then Some (self, Inr [])
      else Some (self, Inr [BroadcastVote (create_vote X self vw default_hash Notarize)]))"

section \<open>Block synchronisation\<close>

definition on_block_request ::
  "'s storage_trait \<Rightarrow> 's simplex_state \<Rightarrow> hash \<Rightarrow> string \<Rightarrow> 's handled" where
  "on_block_request V self h peer =
     (case get_block V (ss_storage self) h of
        Inr (Some block) \<Rightarrow> Some (self, Inr [SendBlock block peer])
      | _ \<Rightarrow> Some (self, Inr []))"

text \<open>
  \<open>on_block_response\<close> calls itself on the orphans that waited for the block.  Each nested call
  first removes one entry of the orphan buffer, so the number of entries bounds the depth; the
  first argument of \<open>respond\<close> is the depth left.  Running out of depth is the outer \<open>None\<close>; a
  panic of the code is \<open>Some None\<close>.
\<close>

fun respond ::
  "('x) exec_lib_scheme \<Rightarrow> 's storage_trait \<Rightarrow> nat \<Rightarrow> 's simplex_state \<Rightarrow> block \<Rightarrow> 's handled option"
and respond_orphans ::
  "('x) exec_lib_scheme \<Rightarrow> 's storage_trait \<Rightarrow> nat \<Rightarrow> 's simplex_state \<Rightarrow> block list \<Rightarrow>
   consensus_action list \<Rightarrow> ('s simplex_state \<times> consensus_action list) option option" where
  "respond X V 0 self block = None"
| "respond X V (Suc n) self block =
     (case validate_and_store_block X V self block of
        None \<Rightarrow> Some None
      | Some (self1, Inl e) \<Rightarrow> Some (Some (self1, Inl e))
      | Some (self1, Inr (stored, actions)) \<Rightarrow>
          (if \<not> stored then Some (Some (self1, Inr actions))
           else (case fast_forward X V self1 (b_view block) of
              None \<Rightarrow> Some None
            | Some self2 \<Rightarrow>
                (case map_of (orphans self2) (hash_block X block) of
                   None \<Rightarrow> Some (Some (self2, Inr actions))
                 | Some waiting \<Rightarrow>
                     map_option (map_option (\<lambda>(self3, actions'). (self3, Inr actions')))
                       (respond_orphans X V n
                          (self2\<lparr>orphans := AList.delete (hash_block X block) (orphans self2)\<rparr>)
                          waiting actions)))))"
| "respond_orphans X V n self [] actions = Some (Some (self, actions))"
| "respond_orphans X V n self (orphan # waiting) actions =
     (case respond X V n self orphan of
        None \<Rightarrow> None
      | Some None \<Rightarrow> Some None
      | Some (Some (self1, r)) \<Rightarrow>
          respond_orphans X V n self1 waiting
            (case r of Inr orphan_actions \<Rightarrow> actions @ orphan_actions | Inl _ \<Rightarrow> actions))"

definition on_block_response ::
  "('x) exec_lib_scheme \<Rightarrow> 's storage_trait \<Rightarrow> 's simplex_state \<Rightarrow> block \<Rightarrow> 's handled" where
  "on_block_response X V self block =
     (case respond X V (Suc (length (orphans self))) self block of None \<Rightarrow> None | Some res \<Rightarrow> res)"

end
