(* ===== verification/Consensus_Cases.thy ===== *)
theory Consensus_Cases
  imports Consensus Executor_Proofs
begin

text \<open>
  Elimination rules for the handlers: each lists the outcomes of a handler as equations on the
  new state, so that the invariants are proved per outcome instead of by unfolding.
\<close>

section \<open>Persistence and small steps\<close>

lemma persist_saveE:
  assumes "persist_state X V st = Some st'"
  obtains (saved) cs s' where "save_consensus_state V (ss_storage st) cs = Inr s'" "st' = st\<lparr>ss_storage := s'\<rparr>"
    | (failed) "st' = st"
proof -
  from assms obtain cs where
    *: "(case save_consensus_state V (ss_storage st) cs of
          Inr s' \<Rightarrow> Some (st\<lparr>ss_storage := s'\<rparr>) | Inl _ \<Rightarrow> Some st) = Some st'"
    by (auto simp: persist_state_def bind_eq_Some_conv Let_def)
  show ?thesis
  proof (cases "save_consensus_state V (ss_storage st) cs")
    case (Inl e)
    with * have "st' = st" by simp
    then show ?thesis by (rule failed)
  next
    case (Inr s')
    with * have "st' = st\<lparr>ss_storage := s'\<rparr>" by simp
    with Inr show ?thesis by (rule saved)
  qed
qed

lemma persist_stateE:
  assumes "persist_state X V st = Some st'"
  obtains s' where "st' = st\<lparr>ss_storage := s'\<rparr>"
  using assms
proof (cases rule: persist_saveE)
  case failed
  then have "st' = st\<lparr>ss_storage := ss_storage st\<rparr>" by simp
  then show ?thesis by (rule that)
qed (rule that)

lemma update_preferred_chainE:
  assumes "update_preferred_chain X V st qc = Some st'"
  obtains (same) "st' = st" "qc_block_hash qc = default_hash \<or> qc_view qc < preferred_view st"
    | (better) s' where "qc_block_hash qc \<noteq> default_hash" "preferred_view st \<le> qc_view qc"
        "st' = st\<lparr>preferred_view := qc_view qc, preferred_block := qc_block_hash qc, ss_storage := s'\<rparr>"
proof (cases "qc_block_hash qc \<noteq> default_hash \<and> preferred_view st \<le> qc_view qc")
  case True
  with assms have "persist_state X V (st\<lparr>preferred_view := qc_view qc, preferred_block := qc_block_hash qc\<rparr>) = Some st'"
    by (simp add: update_preferred_chain_def)
  then obtain s' where
    "st' = st\<lparr>preferred_view := qc_view qc, preferred_block := qc_block_hash qc, ss_storage := s'\<rparr>"
    by (rule persist_stateE) simp
  with True show ?thesis using better by blast
next
  case False
  with assms have "st' = st" by (auto simp: update_preferred_chain_def)
  with False show ?thesis using same by (auto simp: not_le)
qed

lemma fast_forwardE:
  assumes "fast_forward X V st vw = Some st'"
  obtains s' where "st' = st\<lparr>current_view := max (current_view st) vw, ss_storage := s'\<rparr>"
proof (cases "current_view st \<le> vw")
  case True
  with assms have "persist_state X V (st\<lparr>current_view := vw\<rparr>) = Some st'"
    by (simp add: fast_forward_def)
  then obtain s' where "st' = st\<lparr>current_view := vw, ss_storage := s'\<rparr>" by (rule persist_stateE) simp
  with True show ?thesis using that by (simp add: max_absorb2)
next
  case False
  with assms have "st' = st" by (simp add: fast_forward_def)
  with False have "st' = st\<lparr>current_view := max (current_view st) vw, ss_storage := ss_storage st\<rparr>"
    by (simp add: max_def)
  then show ?thesis by (rule that)
qed

section \<open>Validation\<close>

lemma accept_blockE:
  assumes "accept_block X V st b = Some (st', r)"
  obtains (bad_qc) e where "st' = st" "r = Inl e" "verify_qc X (b_justify b) = Inl e"
    | (stored) st1 s' where "verify_qc X (b_justify b) = Inr ()"
        "update_preferred_chain X V st (b_justify b) = Some st1"
        "save_block V (ss_storage st1) b = Inr s'"
        "st' = st1\<lparr>ss_storage := s',
           ss_tx_pool := remove_transactions X (ss_tx_pool st1) (b_payload b),
           evidence_pool := remove_evidence (evidence_pool st1) (b_evidence b)\<rparr>"
        "r = Inr (True, [])"
  using assms by (auto simp: accept_block_def bind_eq_Some_conv split: sum.splits)

text \<open>Validation in two steps: the lookup of the block and its parent, and the checks.\<close>

definition parent_missing :: "'s storage_trait \<Rightarrow> 's \<Rightarrow> hash \<Rightarrow> bool option" where
  "parent_missing V s h =
     (if h = default_hash then Some False
      else do { p \<leftarrow> unwrap (get_block V s h); Some (p = None) })"

definition check_block ::
  "('x) exec_lib_scheme \<Rightarrow> 's storage_trait \<Rightarrow> 's simplex_state \<Rightarrow> block \<Rightarrow>
   ('s simplex_state \<times> (consensus_error + bool \<times> consensus_action list)) option" where
  "check_block X V st b =
     (if b_committee_hash b \<noteq> hash_committee X (committee st) then Some (st, Inl InvalidBlock)
      else do {
        executed \<leftarrow> execute_on_overlay X V st (b_parent_hash b) (b\<lparr>b_gas_used := 0\<rparr>);
        (case executed of
           Inl _ \<Rightarrow> Some (st, Inl InvalidBlock)
         | Inr eb \<Rightarrow>
             (if b_state_root b \<noteq> b_state_root eb then Some (st, Inl InvalidStateRoot)
              else if b_receipts_root eb \<noteq> b_receipts_root b then Some (st, Inl InvalidReceiptsRoot)
              else accept_block X V st b))
      })"

lemma case_known:
  "(if (case g of Inr (Some _) \<Rightarrow> True | _ \<Rightarrow> False) then A else B) =
   (case g of Inr (Some _) \<Rightarrow> A | _ \<Rightarrow> B)"
  by (simp split: sum.split option.split)

lemma validate_unfold:
  "validate_and_store_block X V st b =
     (case get_block V (ss_storage st) (hash_block X b) of
        Inr (Some _) \<Rightarrow> Some (st, Inr (True, []))
      | _ \<Rightarrow> do {
          m \<leftarrow> parent_missing V (ss_storage st) (b_parent_hash b);
          if m then Some (buffer_orphan st b, Inr (False, [BroadcastRequest (b_parent_hash b)]))
          else check_block X V st b
        })"
  unfolding validate_and_store_block_def case_known parent_missing_def check_block_def by (rule refl)

lemma check_blockE:
  assumes "check_block X V st b = Some (st', r)"
  obtains (invalid) e where "st' = st" "r = Inl e"
    | (accepted) eb where "b_committee_hash b = hash_committee X (committee st)"
        "execute_on_overlay X V st (b_parent_hash b) (b\<lparr>b_gas_used := 0\<rparr>) = Some (Inr eb)"
        "b_state_root eb = b_state_root b" "b_receipts_root eb = b_receipts_root b"
        "accept_block X V st b = Some (st', r)"
proof (cases "b_committee_hash b = hash_committee X (committee st)")
  case True
  with assms obtain ex where ex: "execute_on_overlay X V st (b_parent_hash b) (b\<lparr>b_gas_used := 0\<rparr>) = Some ex"
    by (auto simp: check_block_def bind_eq_Some_conv)
  show ?thesis
  proof (cases ex)
    case (Inl e)
    with assms True ex have "st' = st" "r = Inl InvalidBlock" by (simp_all add: check_block_def)
    then show ?thesis by (rule invalid)
  next
    case (Inr eb)
    with assms True ex have "(st' = st \<and> (\<exists>e. r = Inl e)) \<or> (b_state_root eb = b_state_root b \<and>
        b_receipts_root eb = b_receipts_root b \<and> accept_block X V st b = Some (st', r))"
      by (auto simp: check_block_def split: if_splits)
    with True ex Inr invalid accepted show ?thesis by blast
  qed
next
  case False
  with assms have "st' = st" "r = Inl InvalidBlock" by (simp_all add: check_block_def)
  then show ?thesis by (rule invalid)
qed

lemma validate_and_store_blockE:
  assumes "validate_and_store_block X V st b = Some (st', r)"
  obtains (known) b' where "get_block V (ss_storage st) (hash_block X b) = Inr (Some b')"
      "st' = st" "r = Inr (True, [])"
    | (orphan) "b_parent_hash b \<noteq> default_hash" "get_block V (ss_storage st) (b_parent_hash b) = Inr None"
        "st' = buffer_orphan st b" "r = Inr (False, [BroadcastRequest (b_parent_hash b)])"
    | (invalid) e where "st' = st" "r = Inl e"
    | (accepted) eb where
        "b_parent_hash b = default_hash \<or> (\<exists>p. get_block V (ss_storage st) (b_parent_hash b) = Inr (Some p))"
        "b_committee_hash b = hash_committee X (committee st)"
        "execute_on_overlay X V st (b_parent_hash b) (b\<lparr>b_gas_used := 0\<rparr>) = Some (Inr eb)"
        "b_state_root eb = b_state_root b" "b_receipts_root eb = b_receipts_root b"
        "accept_block X V st b = Some (st', r)"
proof (cases "\<exists>b'. get_block V (ss_storage st) (hash_block X b) = Inr (Some b')")
  case True
  then obtain b' where b: "get_block V (ss_storage st) (hash_block X b) = Inr (Some b')" by blast
  with assms have "st' = st" "r = Inr (True, [])" by (simp_all add: validate_unfold)
  with b show ?thesis by (intro known)
next
  case False
  with assms obtain m where m: "parent_missing V (ss_storage st) (b_parent_hash b) = Some m"
    and rest: "(if m then Some (buffer_orphan st b, Inr (False, [BroadcastRequest (b_parent_hash b)]))
       else check_block X V st b) = Some (st', r)"
    by (cases "get_block V (ss_storage st) (hash_block X b)"; cases "projr (get_block V (ss_storage st) (hash_block X b))")
       (auto simp: validate_unfold bind_eq_Some_conv)
  show ?thesis
  proof (cases m)
    case True
    with rest have "st' = buffer_orphan st b" "r = Inr (False, [BroadcastRequest (b_parent_hash b)])"
      by simp_all
    moreover have "b_parent_hash b \<noteq> default_hash" "get_block V (ss_storage st) (b_parent_hash b) = Inr None"
      using m True by (auto simp: parent_missing_def bind_eq_Some_conv split: if_splits)
    ultimately show ?thesis by (intro orphan)
  next
    case False
    then have p: "b_parent_hash b = default_hash \<or> (\<exists>p. get_block V (ss_storage st) (b_parent_hash b) = Inr (Some p))"
      using m by (auto simp: parent_missing_def bind_eq_Some_conv split: if_splits)
    from False rest have "check_block X V st b = Some (st', r)" by simp
    then show ?thesis using p invalid accepted by (cases rule: check_blockE) blast+
  qed
qed

lemma validate_InlD: "validate_and_store_block X V st b = Some (st', Inl e) \<Longrightarrow> st' = st"
  by (erule validate_and_store_blockE) (auto elim: accept_blockE)

lemma validate_InrD:
  "validate_and_store_block X V st b = Some (st', Inr (stored, acts)) \<Longrightarrow>
   (if stored then acts = [] else acts = [BroadcastRequest (b_parent_hash b)] \<and> st' = buffer_orphan st b)"
  by (erule validate_and_store_blockE) (auto elim: accept_blockE)

section \<open>Proposals\<close>

lemma on_proposalE:
  assumes "on_proposal X V st b = Some (st', r)"
  obtains (rejected) e where "st' = st" "r = Inl e"
    | (orphan) "current_view st \<le> b_view b"
        "validate_and_store_block X V st b = Some (st', Inr (False, [BroadcastRequest (b_parent_hash b)]))"
        "st' = buffer_orphan st b" "r = Inr [BroadcastRequest (b_parent_hash b)]"
    | (no_vote) st1 where "current_view st \<le> b_view b"
        "validate_and_store_block X V st b = Some (st1, Inr (True, []))"
        "fast_forward X V st1 (b_view b) = Some st'" "b_view b \<le> last_voted_view st'" "r = Inr []"
    | (vote) st1 st2 where "current_view st \<le> b_view b"
        "validate_and_store_block X V st b = Some (st1, Inr (True, []))"
        "fast_forward X V st1 (b_view b) = Some st2" "last_voted_view st2 < b_view b"
        "persist_state X V (st2\<lparr>last_voted_view := b_view b\<rparr>) = Some st'"
        "r = Inr (proposal_votes X st' b)"
proof (cases "b_view b < current_view st")
  case True
  with assms have "st' = st" "r = Inl InvalidView" by (simp_all add: on_proposal_def)
  then show ?thesis by (rule rejected)
next
  case late: False
  then have le: "current_view st \<le> b_view b" by simp
  from late assms obtain st1 r1 where v: "validate_and_store_block X V st b = Some (st1, r1)"
    by (auto simp: on_proposal_def bind_eq_Some_conv)
  show ?thesis
  proof (cases r1)
    case (Inl e)
    with assms late v have "st' = st" "r = Inl e"
      using validate_InlD by (fastforce simp: on_proposal_def)+
    then show ?thesis by (rule rejected)
  next
    case (Inr p)
    then obtain stored acts where p: "r1 = Inr (stored, acts)" by (cases p) auto
    note v = v [unfolded p] and acts = validate_InrD [OF v [unfolded p]]
    show ?thesis
    proof (cases stored)
      case False
      with assms late v have "st' = st1" "r = Inr acts" by (simp_all add: on_proposal_def)
      with False acts v show ?thesis by (intro orphan le) simp_all
    next
      case True
      with assms late v acts obtain st2 where ff: "fast_forward X V st1 (b_view b) = Some st2"
        by (auto simp: on_proposal_def bind_eq_Some_conv)
      show ?thesis
      proof (cases "b_view b \<le> last_voted_view st2")
        case le2: True
        with assms late v acts True ff have "st' = st2" "r = Inr []" by (simp_all add: on_proposal_def)
        with le2 ff v acts True show ?thesis by (intro no_vote [OF le]) simp_all
      next
        case gt: False
        with assms late v acts True ff obtain st3 where
          "persist_state X V (st2\<lparr>last_voted_view := b_view b\<rparr>) = Some st3" "st' = st3"
          "r = Inr (proposal_votes X st3 b)"
          by (auto simp: on_proposal_def bind_eq_Some_conv)
        with gt ff v acts True show ?thesis by (intro vote [OF le]) simp_all
      qed
    qed
  qed
qed

section \<open>Own proposals\<close>

lemma try_proposeE:
  assumes "try_propose X V st = Some (st', r)"
  obtains (idle) "st' = st" "r = Inr []"
    | (failed) e where "st' = st" "r = Inl e"
    | (proposed) qc parent block0 block s' where
        "is_leader st (current_view st) = Some True"
        "get_qc V (ss_storage st) (current_view st - 1) = Inr (Some qc)"
        "parent = (if qc_block_hash qc = default_hash then preferred_block st else qc_block_hash qc)"
        "create_proposal X V st (current_view st) qc parent = Some (Inr block0)"
        "execute_on_overlay X V st parent block0 = Some (Inr block)"
        "save_block V (ss_storage st) block = Inr s'"
        "st' = (cleanup_proposed_txs X st block)\<lparr>ss_storage := s',
           evidence_pool := remove_evidence (evidence_pool st) (b_evidence block)\<rparr>"
        "r = Inr (BroadcastBlock block # proposal_votes X st' block)"
proof -
  from assms obtain l where l: "is_leader st (current_view st) = Some l"
    by (auto simp: try_propose_def bind_eq_Some_conv)
  show ?thesis
  proof (cases "l \<and> (\<exists>qc. get_qc V (ss_storage st) (current_view st - 1) = Inr (Some qc))")
    case False
    then have "st' = st \<and> r = Inr []"
      using assms l
      by (cases l; cases "get_qc V (ss_storage st) (current_view st - 1)";
          cases "projr (get_qc V (ss_storage st) (current_view st - 1))")
         (auto simp: try_propose_def)
    then show ?thesis using idle by blast
  next
    case True
    then obtain qc where q: "get_qc V (ss_storage st) (current_view st - 1) = Inr (Some qc)" and l1: l by blast
    let ?parent = "if qc_block_hash qc = default_hash then preferred_block st else qc_block_hash qc"
    note red = assms [unfolded try_propose_def l bind.bind_lunit q Let_def]
    from red l1 obtain pr where pr: "create_proposal X V st (current_view st) qc ?parent = Some pr"
      by (auto simp: bind_eq_Some_conv)
    show ?thesis
    proof (cases pr)
      case (Inl e)
      with red l1 pr have "st' = st" "r = Inl e" by simp_all
      then show ?thesis by (rule failed)
    next
      case (Inr block0)
      with red l1 pr obtain ex where ex: "execute_on_overlay X V st ?parent block0 = Some ex"
        by (auto simp: bind_eq_Some_conv)
      show ?thesis
      proof (cases ex)
        case (Inl e)
        with red l1 pr \<open>pr = Inr block0\<close> ex have "st' = st" "r = Inl InvalidParent" by simp_all
        then show ?thesis by (rule failed)
      next
        case (Inr block)
        have sel: "ss_storage (cleanup_proposed_txs X st block) = ss_storage st"
          "evidence_pool (cleanup_proposed_txs X st block) = evidence_pool st"
          by (simp_all add: cleanup_proposed_txs_def)
        from red l1 pr \<open>pr = Inr block0\<close> ex Inr obtain s' where "save_block V (ss_storage st) block = Inr s'"
          "st' = (cleanup_proposed_txs X st block)\<lparr>ss_storage := s',
             evidence_pool := remove_evidence (evidence_pool st) (b_evidence block)\<rparr>"
          "r = Inr (BroadcastBlock block # proposal_votes X st' block)"
          by (auto simp: sel bind_eq_Some_conv)
        then show ?thesis
          using l l1 q pr ex \<open>pr = Inr block0\<close> Inr by (intro proposed [OF _ q refl]) simp_all
      qed
    qed
  qed
qed

lemma chain_proposalE:
  assumes "chain_proposal X V st qc = Some (st', acts)"
  obtains (idle) "st' = st" "acts = []"
    | (proposed) parent block0 block s' where
        "is_leader st (qc_view qc + 1) = Some True"
        "parent = (if qc_block_hash qc = default_hash then preferred_block st else qc_block_hash qc)"
        "create_proposal X V st (qc_view qc + 1) qc parent = Some (Inr block0)"
        "execute_on_overlay X V st parent block0 = Some (Inr block)"
        "save_block V (ss_storage st) block = Inr s'"
        "persist_state X V ((cleanup_proposed_txs X st block)\<lparr>ss_storage := s', last_voted_view := b_view block\<rparr>)
           = Some st'"
        "acts = BroadcastBlock block # proposal_votes X st' block"
proof -
  from assms obtain l where l: "is_leader st (qc_view qc + 1) = Some l"
    by (auto simp: chain_proposal_def Let_def bind_eq_Some_conv)
  show ?thesis
  proof (cases l)
    case False
    with assms l have "st' = st" "acts = []" by (simp_all add: chain_proposal_def Let_def)
    then show ?thesis by (rule idle)
  next
    case l1: True
    let ?parent = "if qc_block_hash qc = default_hash then preferred_block st else qc_block_hash qc"
    note red = assms [unfolded chain_proposal_def Let_def l bind.bind_lunit]
    from red l l1 obtain pr where pr: "create_proposal X V st (qc_view qc + 1) qc ?parent = Some pr"
      by (auto simp: bind_eq_Some_conv)
    show ?thesis
    proof (cases pr)
      case (Inl e)
      with red l l1 pr have "st' = st" "acts = []" by simp_all
      then show ?thesis by (rule idle)
    next
      case (Inr block0)
      with red l l1 pr obtain ex where ex: "execute_on_overlay X V st ?parent block0 = Some ex"
        by (auto simp: bind_eq_Some_conv)
      show ?thesis
      proof (cases ex)
        case (Inl e)
        with red l l1 pr \<open>pr = Inr block0\<close> ex have "st' = st" "acts = []" by simp_all
        then show ?thesis by (rule idle)
      next
        case (Inr block)
        have sel: "ss_storage (cleanup_proposed_txs X st block) = ss_storage st"
          by (simp add: cleanup_proposed_txs_def)
        from red l l1 pr \<open>pr = Inr block0\<close> ex Inr obtain s' where "save_block V (ss_storage st) block = Inr s'"
          "persist_state X V ((cleanup_proposed_txs X st block)\<lparr>ss_storage := s', last_voted_view := b_view block\<rparr>)
             = Some st'"
          "acts = BroadcastBlock block # proposal_votes X st' block"
          by (auto simp: sel bind_eq_Some_conv)
        then show ?thesis
          using l l1 pr ex \<open>pr = Inr block0\<close> Inr by (intro proposed [OF _ refl]) simp_all
      qed
    qed
  qed
qed

section \<open>Votes\<close>

lemma on_quorumE:
  assumes "on_quorum X V st vote vs = Some (st', r)"
  obtains (known) q where "get_qc V (ss_storage st) (v_view vote) = Inr (Some q)" "st' = st" "r = Inr []"
    | (formed) qc s1 st1 st2 acts where "form_qc X vote vs = Some qc"
        "get_qc V (ss_storage st) (v_view vote) = Inr None"
        "save_qc V (ss_storage st) qc = Inr s1"
        "update_preferred_chain X V (st\<lparr>ss_storage := s1\<rparr>) qc = Some st1"
        "(if v_view vote + 1 > current_view st1
          then persist_state X V (st1\<lparr>current_view := v_view vote + 1\<rparr>) else Some st1) = Some st2"
        "chain_proposal X V st2 qc = Some (st', acts)"
        "r = Inr (BroadcastVote (create_vote X st1 (v_view vote) (v_block_hash vote) Finalize) # acts)"
proof -
  from assms obtain qc ex where q: "form_qc X vote vs = Some qc"
    and g: "get_qc V (ss_storage st) (v_view vote) = Inr ex"
    by (auto simp: on_quorum_def bind_eq_Some_conv)
  note red = assms [unfolded on_quorum_def q g, simplified]
  show ?thesis
  proof (cases ex)
    case None
    from red [unfolded None] obtain s1 st1 st2 acts where
      "save_qc V (ss_storage st) qc = Inr s1"
      "update_preferred_chain X V (st\<lparr>ss_storage := s1\<rparr>) qc = Some st1"
      "(if v_view vote + 1 > current_view st1
          then persist_state X V (st1\<lparr>current_view := v_view vote + 1\<rparr>) else Some st1) = Some st2"
      "chain_proposal X V st2 qc = Some (st', acts)"
      "r = Inr (BroadcastVote (create_vote X st1 (v_view vote) (v_block_hash vote) Finalize) # acts)"
      by (auto simp: bind_eq_Some_conv Let_def)
    with q g None show ?thesis by (intro formed) simp_all
  next
    case (Some q)
    with red have "st' = st" "r = Inr []" by simp_all
    with g Some show ?thesis by (intro known) simp_all
  qed
qed

text \<open>Committing a finalized block: nothing, or one execution on the node's own store.\<close>

lemma commit_finalizedE:
  assumes "commit_finalized X V st h = Some st'"
  obtains (nothing) "st' = st"
    | (executed) b db r cmt where "get_block V (ss_storage st) h = Inr (Some b)"
        "execute_block X V (executor_gas_limit st) (executor_manager st) b = Some (db, r)"
        "st' = st\<lparr>ss_storage := sm_storage db, executor_root := sm_root db, committee := cmt\<rparr>"
        "cmt = (case r of Inl _ \<Rightarrow> committee st
           | Inr _ \<Rightarrow> (case sm_get_consensus_state V db of
               Inr (Some cs) \<Rightarrow> cs_committee cs | _ \<Rightarrow> committee st))"
proof (cases "\<exists>b. get_block V (ss_storage st) h = Inr (Some b)")
  case False
  with assms have "st' = st"
    by (cases "get_block V (ss_storage st) h"; cases "projr (get_block V (ss_storage st) h)")
       (auto simp: commit_finalized_def)
  then show ?thesis by (rule nothing)
next
  case True
  then obtain b where b: "get_block V (ss_storage st) h = Inr (Some b)" by blast
  with assms obtain db r where
    e: "execute_block X V (executor_gas_limit st) (executor_manager st) b = Some (db, r)"
    by (auto simp: commit_finalized_def bind_eq_Some_conv)
  let ?cmt = "case r of Inl _ \<Rightarrow> committee st
           | Inr _ \<Rightarrow> (case sm_get_consensus_state V db of
               Inr (Some cs) \<Rightarrow> cs_committee cs | _ \<Rightarrow> committee st)"
  have "st' = st\<lparr>ss_storage := sm_storage db, executor_root := sm_root db, committee := ?cmt\<rparr>"
    using assms b e
    by (cases r; cases "sm_get_consensus_state V db"; cases "projr (sm_get_consensus_state V db)")
       (auto simp: commit_finalized_def Let_def)
  with b e show ?thesis by (intro executed [OF b e _ refl])
qed

lemma on_finalize_voteE:
  fixes st vote
  defines "votes \<equiv> AList.update (v_author vote) vote (votes_of (finalize_votes_received st) (v_view vote))"
  assumes "on_finalize_vote X V st vote = Some (st', r)"
  obtains (counted) "length votes < threshold st \<or> v_view vote \<le> finalized_height st"
      "st' = st\<lparr>finalize_votes_received := (finalize_votes_received st)(v_view vote \<mapsto> votes)\<rparr>" "r = Inr []"
    | (finalized) st2 where "threshold st \<le> length votes" "finalized_height st < v_view vote"
        "persist_state X V (st\<lparr>finalize_votes_received := (finalize_votes_received st)(v_view vote \<mapsto> votes),
            finalized_height := v_view vote\<rparr>) = Some st2"
        "(if v_block_hash vote = default_hash then Some st2 else commit_finalized X V st2 (v_block_hash vote))
           = Some st'"
        "r = Inr []"
proof (cases "threshold st \<le> length votes \<and> finalized_height st < v_view vote")
  case True
  then have "(threshold (st\<lparr>finalize_votes_received := (finalize_votes_received st)(v_view vote \<mapsto> votes)\<rparr>) \<le> length votes \<and>
      finalized_height (st\<lparr>finalize_votes_received := (finalize_votes_received st)(v_view vote \<mapsto> votes)\<rparr>) < v_view vote) = True"
    by (simp add: threshold_def)
  note red = assms(2) [unfolded on_finalize_vote_def Let_def, folded votes_def, unfolded this, simplified]
  then obtain st2 where "persist_state X V (st\<lparr>finalize_votes_received := (finalize_votes_received st)(v_view vote \<mapsto> votes),
            finalized_height := v_view vote\<rparr>) = Some st2"
      "(if v_block_hash vote = default_hash then Some st2 else commit_finalized X V st2 (v_block_hash vote))
           = Some st'" "r = Inr []"
    by (auto simp: bind_eq_Some_conv split: if_splits)
  with True show ?thesis by (intro finalized) auto
next
  case False
  with assms(2) have "st' = st\<lparr>finalize_votes_received := (finalize_votes_received st)(v_view vote \<mapsto> votes)\<rparr>" "r = Inr []"
    by (auto simp: on_finalize_vote_def Let_def threshold_def votes_def)
  with False show ?thesis by (intro counted) auto
qed

definition conflicting :: "vote \<Rightarrow> vote \<Rightarrow> bool" where
  "conflicting existing vote = (v_block_hash existing \<noteq> v_block_hash vote \<and>
     v_block_hash existing \<noteq> default_hash \<and> v_block_hash vote \<noteq> default_hash)"

definition record_vote :: "'s simplex_state \<Rightarrow> vote \<Rightarrow> 's simplex_state" where
  "record_vote st vote = st\<lparr>votes_received := (votes_received st)(v_view vote \<mapsto>
     AList.update (v_author vote) vote (votes_of (votes_received st) (v_view vote)))\<rparr>"

definition matching_votes :: "('x) exec_lib_scheme \<Rightarrow> 's simplex_state \<Rightarrow> vote \<Rightarrow> vote list" where
  "matching_votes X st vote = filter (\<lambda>v. v_block_hash v = v_block_hash vote)
     (map snd (iter_votes X (votes_of (votes_received st) (v_view vote))))"

lemma votes_of_upd [simp]: "votes_of (m(v \<mapsto> l)) w = (if w = v then l else votes_of m w)"
  by (simp add: votes_of_def)

lemma on_voteE:
  assumes "on_vote X V st vote = Some (st', r)"
  obtains (bad_signature) "st' = st" "r = Inl ConsensusInvalidSignature"
    | (finalize) "verify X (v_author vote) (hash_bytes (v_block_hash vote)) (v_signature vote)"
        "v_vote_type vote = Finalize" "on_finalize_vote X V st vote = Some (st', r)"
    | (equivocation) existing where
        "verify X (v_author vote) (hash_bytes (v_block_hash vote)) (v_signature vote)"
        "v_vote_type vote = Notarize"
        "map_of (votes_of (votes_received st) (v_view vote)) (v_author vote) = Some existing"
        "conflicting existing vote"
        "st' = st\<lparr>evidence_pool := fst (add_evidence (evidence_pool st) \<lparr>vote_a = existing, vote_b = vote\<rparr>)\<rparr>"
        "r = Inr (if snd (add_evidence (evidence_pool st) \<lparr>vote_a = existing, vote_b = vote\<rparr>)
                  then [BroadcastEvidence \<lparr>vote_a = existing, vote_b = vote\<rparr>] else [])"
    | (recorded) "verify X (v_author vote) (hash_bytes (v_block_hash vote)) (v_signature vote)"
        "v_vote_type vote = Notarize"
        "length (matching_votes X (record_vote st vote) vote) < threshold st" "st' = record_vote st vote" "r = Inr []"
    | (quorum) "verify X (v_author vote) (hash_bytes (v_block_hash vote)) (v_signature vote)"
        "v_vote_type vote = Notarize"
        "threshold st \<le> length (matching_votes X (record_vote st vote) vote)"
        "on_quorum X V (record_vote st vote) vote (matching_votes X (record_vote st vote) vote) = Some (st', r)"
proof -
  let ?votes = "votes_of (votes_received st) (v_view vote)"
  consider (b) "\<not> verify X (v_author vote) (hash_bytes (v_block_hash vote)) (v_signature vote)"
    | (f) "verify X (v_author vote) (hash_bytes (v_block_hash vote)) (v_signature vote)" "v_vote_type vote = Finalize"
    | (n) "verify X (v_author vote) (hash_bytes (v_block_hash vote)) (v_signature vote)" "v_vote_type vote = Notarize"
    using vote_type.exhaust by blast
  then show ?thesis
  proof cases
    case b
    with assms have "st' = st" "r = Inl ConsensusInvalidSignature" by (simp_all add: on_vote_def)
    then show ?thesis by (rule bad_signature)
  next
    case f
    with assms have "on_finalize_vote X V st vote = Some (st', r)" by (simp add: on_vote_def)
    with f show ?thesis by (intro finalize)
  next
    case n
    show ?thesis
    proof (cases "\<exists>e. map_of ?votes (v_author vote) = Some e \<and> conflicting e vote")
      case True
      then obtain e where e: "map_of ?votes (v_author vote) = Some e" "conflicting e vote" by blast
      with assms n have "st' = st\<lparr>evidence_pool := fst (add_evidence (evidence_pool st) \<lparr>vote_a = e, vote_b = vote\<rparr>)\<rparr>"
        "r = Inr (if snd (add_evidence (evidence_pool st) \<lparr>vote_a = e, vote_b = vote\<rparr>)
                  then [BroadcastEvidence \<lparr>vote_a = e, vote_b = vote\<rparr>] else [])"
        by (auto simp: on_vote_def Let_def conflicting_def case_prod_unfold)
      with n e show ?thesis by (intro equivocation)
    next
      case False
      then have none: "(case map_of ?votes (v_author vote) of
                Some existing \<Rightarrow>
                  (if v_block_hash existing \<noteq> v_block_hash vote \<and>
                      v_block_hash existing \<noteq> default_hash \<and> v_block_hash vote \<noteq> default_hash
                   then Some existing else None)
              | None \<Rightarrow> None) = None"
        by (auto simp: conflicting_def split: option.split)
      have vt: "(v_vote_type vote = Finalize) = False" using n by simp
      have "(if threshold st \<le> length (matching_votes X (record_vote st vote) vote)
          then on_quorum X V (record_vote st vote) vote (matching_votes X (record_vote st vote) vote)
          else Some (record_vote st vote, Inr [])) = Some (st', r)"
        using assms n unfolding on_vote_def Let_def none vt
        by (auto simp: record_vote_def matching_votes_def threshold_def split: if_splits)
      with n quorum recorded show ?thesis by (auto simp: not_le split: if_splits)
    qed
  qed
qed

section \<open>Synced blocks\<close>

lemma respondE:
  assumes "respond X V (Suc n) st b = Some (Some (st', r))"
  obtains (invalid) e where "st' = st" "r = Inl e"
    | (orphan) "validate_and_store_block X V st b = Some (st', Inr (False, [BroadcastRequest (b_parent_hash b)]))"
        "st' = buffer_orphan st b" "r = Inr [BroadcastRequest (b_parent_hash b)]"
    | (stored) st1 where "validate_and_store_block X V st b = Some (st1, Inr (True, []))"
        "fast_forward X V st1 (b_view b) = Some st'" "map_of (orphans st') (hash_block X b) = None" "r = Inr []"
    | (nested) st1 st2 waiting acts where "validate_and_store_block X V st b = Some (st1, Inr (True, []))"
        "fast_forward X V st1 (b_view b) = Some st2" "map_of (orphans st2) (hash_block X b) = Some waiting"
        "respond_orphans X V n (st2\<lparr>orphans := AList.delete (hash_block X b) (orphans st2)\<rparr>) waiting []
           = Some (Some (st', acts))"
        "r = Inr acts"
proof -
  from assms obtain st1 r1 where v: "validate_and_store_block X V st b = Some (st1, r1)"
    by (auto split: option.splits)
  show ?thesis
  proof (cases r1)
    case (Inl e)
    with assms v have "st' = st1" "r = Inl e" by simp_all
    with v Inl show ?thesis using validate_InlD by (intro invalid) auto
  next
    case (Inr p)
    then obtain stored acts where p: "r1 = Inr (stored, acts)" by (cases p) auto
    note v = v [unfolded p] and acts = validate_InrD [OF v [unfolded p]]
    show ?thesis
    proof (cases stored)
      case False
      with assms v have "st' = st1" "r = Inr acts" by simp_all
      with False acts v show ?thesis by (intro orphan) simp_all
    next
      case True
      with assms v acts obtain st2 where ff: "fast_forward X V st1 (b_view b) = Some st2"
        by (cases "fast_forward X V st1 (b_view b)") simp_all
      show ?thesis
      proof (cases "map_of (orphans st2) (hash_block X b)")
        case None
        with assms v acts True ff have "st' = st2" "r = Inr []" by simp_all
        with None ff v acts True show ?thesis by (intro stored) simp_all
      next
        case (Some waiting)
        with assms v acts True ff obtain acts' where
          "respond_orphans X V n (st2\<lparr>orphans := AList.delete (hash_block X b) (orphans st2)\<rparr>) waiting []
             = Some (Some (st', acts'))" "r = Inr acts'"
          by auto
        with Some ff v acts True show ?thesis by (intro nested) simp_all
      qed
    qed
  qed
qed

lemma respond_orphans_ConsE:
  assumes "respond_orphans X V n st (b # bs) acts = Some (Some (st', acts'))"
  obtains st1 r1 where "respond X V n st b = Some (Some (st1, r1))"
    "respond_orphans X V n st1 bs (case r1 of Inr a \<Rightarrow> acts @ a | Inl _ \<Rightarrow> acts) = Some (Some (st', acts'))"
  using assms by (auto split: option.splits)

lemma on_block_responseD:
  "on_block_response X V st b = Some p \<Longrightarrow> respond X V (Suc (length (orphans st))) st b = Some (Some p)"
  by (simp add: on_block_response_def del: respond.simps split: option.splits)

text \<open>A result reached at some depth is the result at every greater depth.\<close>

lemma respond_orphans_mono:
  assumes "\<And>st b res. respond X V n st b = Some res \<Longrightarrow> respond X V m st b = Some res"
  shows "respond_orphans X V n st bs acts = Some res \<Longrightarrow> respond_orphans X V m st bs acts = Some res"
proof (induction bs arbitrary: st acts)
  case (Cons b bs)
  from Cons.prems obtain r where r: "respond X V n st b = Some r" by (auto split: option.splits)
  with Cons assms [OF r] show ?case by (auto split: option.splits)
qed simp

lemma respond_mono:
  "respond X V n st b = Some res \<Longrightarrow> n \<le> m \<Longrightarrow> respond X V m st b = Some res"
proof (induction n arbitrary: st b res m)
  case (Suc n)
  from Suc.prems(2) obtain m' where m: "m = Suc m'" "n \<le> m'" by (cases m) auto
  have "respond_orphans X V n st bs acts = Some res \<Longrightarrow> respond_orphans X V m' st bs acts = Some res"
    for st bs acts res
    using Suc.IH [OF _ m(2)] by (rule respond_orphans_mono)
  with Suc.prems(1) show ?case unfolding m(1)
    by (auto split: option.splits sum.splits prod.splits if_splits)
qed simp

end
