(* ===== verification/Node_Invariant.thy ===== *)
theory Node_Invariant
  imports Consensus_Cases
begin

text \<open>
  The events a node reacts to, runs as sequences of handled events, and the locale
  \<open>node_invariant\<close>: a predicate on node states that is kept by each elementary step the
  handlers are made of is kept by every handler and holds along every run.  Its part
  \<open>quiet_steps\<close> leaves out the steps that count votes, certify and finalize.
\<close>

section \<open>Events and runs\<close>

datatype event =
    Propose
  | ProposalIn block
  | VoteIn vote
  | TimeoutAt view
  | RequestIn hash string
  | ResponseIn block
  | EvidenceIn equivocation_evidence
  | TransactionIn transaction

text \<open>The dispatch of \<open>src/src/main.rs\<close>, lines 124 to 201, and of the timer.\<close>

fun handle :: "('x) exec_lib_scheme \<Rightarrow> 's storage_trait \<Rightarrow> 's simplex_state \<Rightarrow> event \<Rightarrow> 's handled" where
  "handle X V st Propose = try_propose X V st"
| "handle X V st (ProposalIn b) = on_proposal X V st b"
| "handle X V st (VoteIn v) = on_vote X V st v"
| "handle X V st (TimeoutAt vw) = on_timeout X st vw"
| "handle X V st (RequestIn h peer) = on_block_request V st h peer"
| "handle X V st (ResponseIn b) = on_block_response X V st b"
| "handle X V st (EvidenceIn e) =
     Some (st\<lparr>evidence_pool := fst (add_evidence (evidence_pool st) e)\<rparr>, Inr [])"
| "handle X V st (TransactionIn tx) =
     Some (st\<lparr>ss_tx_pool := fst (add_transaction X V (ss_storage st) (ss_tx_pool st) tx)\<rparr>, Inr [])"

definition actions_of :: "consensus_error + consensus_action list \<Rightarrow> consensus_action list" where
  "actions_of r = (case r of Inl _ \<Rightarrow> [] | Inr acts \<Rightarrow> acts)"

lemma actions_of_simps [simp]: "actions_of (Inl e) = []" "actions_of (Inr acts) = acts"
  by (simp_all add: actions_of_def)

inductive run ::
  "('x) exec_lib_scheme \<Rightarrow> 's storage_trait \<Rightarrow> 's simplex_state \<Rightarrow> consensus_action list \<Rightarrow>
   's simplex_state \<Rightarrow> bool" for X V st0 where
  start: "run X V st0 [] st0"
| event: "run X V st0 acts st \<Longrightarrow> handle X V st ev = Some (st', r) \<Longrightarrow>
          run X V st0 (acts @ actions_of r) st'"

section \<open>Invariants of the elementary steps\<close>

definition known_parent :: "'s storage_trait \<Rightarrow> 's simplex_state \<Rightarrow> block \<Rightarrow> bool" where
  "known_parent V st b = (b_parent_hash b = default_hash \<or>
     (\<exists>p. get_block V (ss_storage st) (b_parent_hash b) = Inr (Some p)))"

definition verified_vote :: "('x) blst_lib_scheme \<Rightarrow> vote \<Rightarrow> bool" where
  "verified_vote X vote = verify X (v_author vote) (hash_bytes (v_block_hash vote)) (v_signature vote)"

definition record_finalize :: "'s simplex_state \<Rightarrow> vote \<Rightarrow> 's simplex_state" where
  "record_finalize st vote = st\<lparr>finalize_votes_received := (finalize_votes_received st)(v_view vote \<mapsto>
     AList.update (v_author vote) vote (votes_of (finalize_votes_received st) (v_view vote)))\<rparr>"

lemma execute_block_header:
  assumes "execute_block X V lim db b = Some (db', Inr b')"
  shows "\<exists>sr rr g. b' = b\<lparr>b_state_root := sr, b_receipts_root := rr, b_gas_used := g\<rparr>"
  using assms by (cases rule: execute_blockE) auto

lemma execute_on_overlay_header:
  assumes "execute_on_overlay X V st p b = Some (Inr b')"
  shows "\<exists>sr rr g. b' = b\<lparr>b_state_root := sr, b_receipts_root := rr, b_gas_used := g\<rparr>"
  using assms by (auto simp: execute_on_overlay_def intro: execute_block_header)

lemma proposal_header:
  assumes "create_proposal X V st vw qc parent = Some (Inr b0)"
    and "execute_on_overlay X V st parent b0 = Some (Inr b)"
  shows "b_author b = my_id st" "b_view b = vw" "b_parent_hash b = parent" "b_justify b = qc"
    "known_parent V st b"
proof -
  obtain pb where pb: "get_block V (ss_storage st) parent = Inr (Some pb)"
    and b0: "b_author b0 = my_id st" "b_view b0 = vw" "b_parent_hash b0 = parent" "b_justify b0 = qc"
    using assms(1) by (auto simp: create_proposal_def bind_eq_Some_conv Let_def new_block_def
        split: sum.splits option.splits)
  show "b_author b = my_id st" "b_view b = vw" "b_parent_hash b = parent" "b_justify b = qc"
    "known_parent V st b"
    using execute_on_overlay_header [OF assms(2)] b0 pb by (auto simp: known_parent_def)
qed

text \<open>The steps of the handlers that neither count votes nor certify nor finalize.\<close>

locale quiet_steps =
  fixes X :: "'x exec_lib_scheme" and V :: "'s storage_trait" and I :: "'s simplex_state \<Rightarrow> bool"
  assumes preferred: "I st \<Longrightarrow> update_preferred_chain X V st qc = Some st' \<Longrightarrow> I st'"
    and new_view: "I st \<Longrightarrow> current_view st \<le> vw \<Longrightarrow>
          persist_state X V (st\<lparr>current_view := vw\<rparr>) = Some st' \<Longrightarrow> I st'"
    and voted: "I st \<Longrightarrow> persist_state X V (st\<lparr>last_voted_view := vw\<rparr>) = Some st' \<Longrightarrow> I st'"
    and new_block: "I st \<Longrightarrow> known_parent V st b \<Longrightarrow>
          st1 = st \<or> update_preferred_chain X V st (b_justify b) = Some st1 \<Longrightarrow> I st1 \<Longrightarrow>
          save_block V (ss_storage st1) b = Inr s' \<Longrightarrow> I (st1\<lparr>ss_storage := s'\<rparr>)"
    and drop_txs: "I st \<Longrightarrow> I (cleanup_proposed_txs X st b)"
    and drop_evidence: "I st \<Longrightarrow> I (st\<lparr>evidence_pool := remove_evidence (evidence_pool st) es\<rparr>)"
    and new_evidence: "I st \<Longrightarrow> I (st\<lparr>evidence_pool := fst (add_evidence (evidence_pool st) e)\<rparr>)"
    and new_tx: "I st \<Longrightarrow> I (st\<lparr>ss_tx_pool := fst (add_transaction X V (ss_storage st) (ss_tx_pool st) tx)\<rparr>)"
    and buffer: "I st \<Longrightarrow> I (buffer_orphan st b)"
    and unbuffer: "I st \<Longrightarrow> I (st\<lparr>orphans := AList.delete h (orphans st)\<rparr>)"
begin

lemma keeps_accept: "accept_block X V st b = Some (st', r) \<Longrightarrow> known_parent V st b \<Longrightarrow> I st \<Longrightarrow> I st'"
proof (erule accept_blockE)
  fix st1 s'
  assume kp: "known_parent V st b" and I: "I st"
    and up: "update_preferred_chain X V st (b_justify b) = Some st1"
    and save: "save_block V (ss_storage st1) b = Inr s'"
    and st': "st' = st1\<lparr>ss_storage := s', ss_tx_pool := remove_transactions X (ss_tx_pool st1) (b_payload b),
      evidence_pool := remove_evidence (evidence_pool st1) (b_evidence b)\<rparr>"
  have "I (st1\<lparr>ss_storage := s'\<rparr>)"
    using new_block [OF I kp _ preferred [OF I up] save] up by blast
  from drop_evidence [OF drop_txs [OF this, of b], of "b_evidence b"] show "I st'"
    unfolding st' by (simp add: cleanup_proposed_txs_def)
qed auto

lemma keeps_validate: "validate_and_store_block X V st b = Some (st', r) \<Longrightarrow> I st \<Longrightarrow> I st'"
  by (erule validate_and_store_blockE) (auto intro: buffer keeps_accept simp: known_parent_def)

lemma keeps_fast_forward: "fast_forward X V st vw = Some st' \<Longrightarrow> I st \<Longrightarrow> I st'"
  by (auto simp: fast_forward_def split: if_splits intro: new_view)

lemma keeps_proposal: "on_proposal X V st b = Some (st', r) \<Longrightarrow> I st \<Longrightarrow> I st'"
  by (erule on_proposalE) (metis keeps_validate keeps_fast_forward voted)+

lemma keeps_saved_proposal:
  assumes "I st" and "create_proposal X V st vw qc parent = Some (Inr b0)"
    and "execute_on_overlay X V st parent b0 = Some (Inr b)" and "save_block V (ss_storage st) b = Inr s'"
  shows "I ((cleanup_proposed_txs X st b)\<lparr>ss_storage := s'\<rparr>)"
proof (rule new_block)
  show "I (cleanup_proposed_txs X st b)" using assms(1) by (rule drop_txs)
  then show "I (cleanup_proposed_txs X st b)" .
  show "known_parent V (cleanup_proposed_txs X st b) b"
    using proposal_header(5) [OF assms(2,3)] by (simp add: known_parent_def cleanup_proposed_txs_def)
  show "save_block V (ss_storage (cleanup_proposed_txs X st b)) b = Inr s'"
    using assms(4) by (simp add: cleanup_proposed_txs_def)
qed simp

lemma keeps_try_propose: "try_propose X V st = Some (st', r) \<Longrightarrow> I st \<Longrightarrow> I st'"
proof (erule try_proposeE)
  fix qc parent b0 b s'
  assume "I st" and p: "create_proposal X V st (current_view st) qc parent = Some (Inr b0)"
    "execute_on_overlay X V st parent b0 = Some (Inr b)" "save_block V (ss_storage st) b = Inr s'"
    and st': "st' = cleanup_proposed_txs X st b\<lparr>ss_storage := s',
      evidence_pool := remove_evidence (evidence_pool st) (b_evidence b)\<rparr>"
  have "evidence_pool st = evidence_pool ((cleanup_proposed_txs X st b)\<lparr>ss_storage := s'\<rparr>)"
    by (simp add: cleanup_proposed_txs_def)
  with drop_evidence [OF keeps_saved_proposal [OF \<open>I st\<close> p], of "b_evidence b"]
  show "I st'" unfolding st' by simp
qed auto

lemma keeps_chain_proposal: "chain_proposal X V st qc = Some (st', acts) \<Longrightarrow> I st \<Longrightarrow> I st'"
proof (erule chain_proposalE)
  fix parent b0 b s'
  assume "I st" and p: "create_proposal X V st (qc_view qc + 1) qc parent = Some (Inr b0)"
    "execute_on_overlay X V st parent b0 = Some (Inr b)" "save_block V (ss_storage st) b = Inr s'"
    and st': "persist_state X V ((cleanup_proposed_txs X st b)\<lparr>ss_storage := s', last_voted_view := b_view b\<rparr>) = Some st'"
  show "I st'" using voted [OF keeps_saved_proposal [OF \<open>I st\<close> p]] st' by simp
qed simp

text \<open>What \<open>on_quorum\<close> does once the certificate is stored.\<close>

lemma keeps_certified:
  assumes "I (st\<lparr>ss_storage := s1\<rparr>)"
    and "update_preferred_chain X V (st\<lparr>ss_storage := s1\<rparr>) qc = Some st1"
    and "(if current_view st1 < v_view v + 1 then persist_state X V (st1\<lparr>current_view := v_view v + 1\<rparr>) else Some st1) = Some st2"
    and "chain_proposal X V st2 qc = Some (st', acts)"
  shows "I st'"
proof -
  have "I st1" using assms(1,2) by (rule preferred)
  then have "I st2" using assms(3) new_view by (auto split: if_splits dest: less_imp_le)
  then show ?thesis using assms(4) keeps_chain_proposal by blast
qed

lemma keeps_respond_orphans:
  assumes "\<And>st b st' r. respond X V n st b = Some (Some (st', r)) \<Longrightarrow> I st \<Longrightarrow> I st'"
  shows "respond_orphans X V n st bs acts = Some (Some (st', acts')) \<Longrightarrow> I st \<Longrightarrow> I st'"
proof (induction bs arbitrary: st acts)
  case (Cons b bs)
  then show ?case using assms by (elim respond_orphans_ConsE) blast
qed simp

lemma keeps_respond: "respond X V n st b = Some (Some (st', r)) \<Longrightarrow> I st \<Longrightarrow> I st'"
proof (induction n arbitrary: st b st' r)
  case (Suc n)
  from Suc.prems(1) show ?case
  proof (cases rule: respondE)
    case (nested st1 st2 waiting acts)
    have "I st2" using nested(1,2) Suc.prems(2) by (blast intro: keeps_validate keeps_fast_forward)
    then have "I (st2\<lparr>orphans := AList.delete (hash_block X b) (orphans st2)\<rparr>)" by (rule unbuffer)
    then show ?thesis by (rule keeps_respond_orphans [OF _ nested(4), rotated]) (rule Suc.IH)
  qed (use Suc.prems in \<open>auto intro: keeps_validate keeps_fast_forward\<close>)
qed simp

lemma keeps_quiet_handle:
  assumes "handle X V st ev = Some (st', r)" and "\<And>v. ev \<noteq> VoteIn v" and "I st"
  shows "I st'"
  using assms
  by (cases ev)
     (auto simp: on_timeout_def on_block_request_def split: if_splits sum.splits option.splits
       dest!: on_block_responseD intro: keeps_try_propose keeps_proposal keeps_respond new_evidence new_tx)

end

text \<open>With the steps that count a vote, certify a block and finalize one.\<close>

locale node_invariant = quiet_steps X V I
  for X :: "'x exec_lib_scheme" and V :: "'s storage_trait" and I :: "'s simplex_state \<Rightarrow> bool" +
  assumes vote: "I st \<Longrightarrow> verified_vote X v \<Longrightarrow> v_vote_type v = Notarize \<Longrightarrow> I (record_vote st v)"
    and certificate: "I st \<Longrightarrow> verified_vote X vote \<Longrightarrow> threshold st \<le> length (matching_votes X st vote) \<Longrightarrow>
          form_qc X vote (matching_votes X st vote) = Some qc \<Longrightarrow>
          get_qc V (ss_storage st) (v_view vote) = Inr None \<Longrightarrow>
          save_qc V (ss_storage st) qc = Inr s' \<Longrightarrow> I (st\<lparr>ss_storage := s'\<rparr>)"
    and finalize_vote: "I st \<Longrightarrow> verified_vote X v \<Longrightarrow> v_vote_type v = Finalize \<Longrightarrow> I (record_finalize st v)"
    and finalized_view: "I st \<Longrightarrow> threshold st \<le> length (votes_of (finalize_votes_received st) vw) \<Longrightarrow>
          finalized_height st < vw \<Longrightarrow>
          persist_state X V (st\<lparr>finalized_height := vw\<rparr>) = Some st' \<Longrightarrow> I st'"
    and commit: "I st \<Longrightarrow> commit_finalized X V st h = Some st' \<Longrightarrow> I st'"
begin

lemma keeps_quorum:
  assumes "on_quorum X V st v (matching_votes X st v) = Some (st', r)" and "I st"
    and "verified_vote X v" and "threshold st \<le> length (matching_votes X st v)"
  shows "I st'"
  using assms(1)
proof (cases rule: on_quorumE)
  case (formed qc s1 st1 st2 acts)
  have "I (st\<lparr>ss_storage := s1\<rparr>)" using certificate [OF assms(2-4)] formed by blast
  then show ?thesis using formed(4-6) by (rule keeps_certified)
qed (use assms in simp)

lemma keeps_finalize_vote:
  assumes "on_finalize_vote X V st v = Some (st', r)" and "I st" and "verified_vote X v" "v_vote_type v = Finalize"
  shows "I st'"
proof -
  have rec: "I (record_finalize st v)" using assms(2-4) by (rule finalize_vote)
  from assms(1) show ?thesis
  proof (cases rule: on_finalize_voteE)
    case counted
    with rec show ?thesis by (simp add: record_finalize_def)
  next
    case (finalized st2)
    have "I st2"
    proof (rule finalized_view)
      show "I (record_finalize st v)" by (rule rec)
      show "threshold (record_finalize st v) \<le> length (votes_of (finalize_votes_received (record_finalize st v)) (v_view v))"
        using finalized(1) by (simp add: record_finalize_def threshold_def)
    qed (use finalized in \<open>simp_all add: record_finalize_def\<close>)
    with finalized(4) show ?thesis by (auto split: if_splits intro: commit)
  qed
qed

lemma keeps_vote: "on_vote X V st v = Some (st', r) \<Longrightarrow> I st \<Longrightarrow> I st'"
proof (erule on_voteE)
  assume "I st" "threshold st \<le> length (matching_votes X (record_vote st v) v)"
    and v: "verify X (v_author v) (hash_bytes (v_block_hash v)) (v_signature v)" "v_vote_type v = Notarize"
    and q: "on_quorum X V (record_vote st v) v (matching_votes X (record_vote st v) v) = Some (st', r)"
  moreover have "threshold (record_vote st v) = threshold st" by (simp add: threshold_def record_vote_def)
  ultimately show "I st'"
    by (intro keeps_quorum [OF q]) (auto simp: verified_vote_def intro: vote)
qed (auto simp: verified_vote_def intro: keeps_finalize_vote new_evidence vote)

theorem keeps_handle: "handle X V st ev = Some (st', r) \<Longrightarrow> I st \<Longrightarrow> I st'"
proof (cases "\<exists>v. ev = VoteIn v")
  case False
  then show "handle X V st ev = Some (st', r) \<Longrightarrow> I st \<Longrightarrow> I st'"
    using keeps_quiet_handle by blast
qed (auto intro: keeps_vote)

theorem keeps_run: "run X V st acts st' \<Longrightarrow> I st \<Longrightarrow> I st'"
  by (induction rule: run.induct) (auto intro: keeps_handle)

end

section \<open>Lists of events\<close>

text \<open>Events handled in order, with the actions of all of them.\<close>

fun run_events ::
  "('x) exec_lib_scheme \<Rightarrow> 's storage_trait \<Rightarrow> 's simplex_state \<Rightarrow> event list \<Rightarrow>
   ('s simplex_state \<times> consensus_action list) option" where
  "run_events X V st [] = Some (st, [])"
| "run_events X V st (ev # evs) =
     (case handle X V st ev of
        None \<Rightarrow> None
      | Some (st1, r) \<Rightarrow>
          (case run_events X V st1 evs of
             None \<Rightarrow> None
           | Some (st2, acts) \<Rightarrow> Some (st2, actions_of r @ acts)))"

lemma run_events_extends:
  "run X V st0 acts0 st \<Longrightarrow> run_events X V st evs = Some (st', acts) \<Longrightarrow> run X V st0 (acts0 @ acts) st'"
proof (induction evs arbitrary: st acts0 acts)
  case (Cons ev evs)
  from Cons.prems(2) obtain st1 r acts1 where e: "handle X V st ev = Some (st1, r)"
    "run_events X V st1 evs = Some (st', acts1)" "acts = actions_of r @ acts1"
    by (auto split: option.splits prod.splits)
  from Cons.IH [OF run.event [OF Cons.prems(1) e(1)] e(2)] e(3) show ?case by simp
qed simp

lemma run_events_run: "run_events X V st evs = Some (st', acts) \<Longrightarrow> run X V st acts st'"
  using run_events_extends [OF run.start] by fastforce

end
