(* ===== verification/Consensus_Invariants.thy ===== *)
theory Consensus_Invariants
  imports Node_Invariant Validators
begin

text \<open>
  Invariants of the node, each proved by discharging the elementary steps of
  \<open>node_invariant\<close>: views never go back, vote tables hold verified votes under their authors,
  the pools stay well-formed, buffered orphans wait under their parent, the stored state
  agrees with the memory of the node, stored certificates verify, and stored blocks have stored
  parents.
\<close>

lemmas step_elims = persist_stateE update_preferred_chainE commit_finalizedE

lemmas step_defs = cleanup_proposed_txs_def buffer_orphan_def record_vote_def record_finalize_def

section \<open>Progress\<close>

definition advances :: "'s simplex_state \<Rightarrow> 's simplex_state \<Rightarrow> bool" where
  "advances st0 st = (my_id st = my_id st0 \<and> my_key st = my_key st0 \<and>
     current_view st0 \<le> current_view st \<and> finalized_height st0 \<le> finalized_height st \<and>
     preferred_view st0 \<le> preferred_view st)"

interpretation adv: node_invariant X V "advances st0" for X V st0
  by unfold_locales (auto simp: advances_def step_defs elim!: step_elims)

section \<open>Vote tables\<close>

definition table_wf :: "('x) blst_lib_scheme \<Rightarrow> vote_type \<Rightarrow> view \<Rightarrow> vote_map \<Rightarrow> bool" where
  "table_wf X t vw l = (hm_wf l \<and> (\<forall>a v. map_of l a = Some v \<longrightarrow>
     v_author v = a \<and> v_view v = vw \<and> v_vote_type v = t \<and> verified_vote X v))"

definition votes_wf :: "('x) blst_lib_scheme \<Rightarrow> 's simplex_state \<Rightarrow> bool" where
  "votes_wf X st = (\<forall>vw. table_wf X Notarize vw (votes_of (votes_received st) vw) \<and>
     table_wf X Finalize vw (votes_of (finalize_votes_received st) vw))"

lemma table_wfD:
  assumes "table_wf X t vw l" and "map_of l a = Some v"
  shows "v_author v = a" "v_view v = vw" "v_vote_type v = t" "verified_vote X v"
  using assms unfolding table_wf_def by blast+

lemma table_wf_hm: "table_wf X t vw l \<Longrightarrow> hm_wf l"
  unfolding table_wf_def by blast

lemma table_wf_update:
  "table_wf X t vw l \<Longrightarrow> verified_vote X v \<Longrightarrow> v_vote_type v = t \<Longrightarrow> v_view v = vw \<Longrightarrow>
   table_wf X t vw (AList.update (v_author v) v l)"
  by (auto simp: table_wf_def)

interpretation vtab: node_invariant X V "votes_wf X" for X V
  by unfold_locales (auto simp: votes_wf_def step_defs table_wf_update elim!: step_elims)

lemma votes_wf_start: "votes_received st = Map.empty \<Longrightarrow> finalize_votes_received st = Map.empty \<Longrightarrow> votes_wf X st"
  by (simp add: votes_wf_def table_wf_def votes_of_def)

section \<open>Pools and orphans\<close>

definition pools_wf :: "('x) exec_lib_scheme \<Rightarrow> 's simplex_state \<Rightarrow> bool" where
  "pools_wf X st = (evidence_wf (evidence_pool st) \<and> pool_wf X (ss_tx_pool st))"

interpretation pool: node_invariant X V "pools_wf X" for X and V :: "'s storage_trait"
proof
  fix st :: "'s simplex_state" and tx assume "pools_wf X st"
  then show "pools_wf X (st\<lparr>ss_tx_pool := fst (add_transaction X V (ss_storage st) (ss_tx_pool st) tx)\<rparr>)"
    by (auto simp: pools_wf_def intro: add_transaction_wf [OF _ surjective_pairing])
qed (auto simp: pools_wf_def step_defs evp.remove_wf txp.remove_wf add_evidence_wf elim!: step_elims)

definition orphans_wf :: "'s simplex_state \<Rightarrow> bool" where
  "orphans_wf st = (hm_wf (orphans st) \<and>
     (\<forall>h l. map_of (orphans st) h = Some l \<longrightarrow> (\<forall>b \<in> set l. b_parent_hash b = h)))"

lemma orphans_wf_buffer: "orphans_wf st \<Longrightarrow> orphans_wf (buffer_orphan st b)"
  by (cases "map_of (orphans st) (b_parent_hash b)") (auto simp: orphans_wf_def buffer_orphan_def)

interpretation orph: node_invariant X V orphans_wf for X and V :: "'s storage_trait"
proof
  fix st :: "'s simplex_state" and h assume "orphans_wf st"
  then show "orphans_wf (st\<lparr>orphans := AList.delete h (orphans st)\<rparr>)"
    by (auto simp: orphans_wf_def)
next
  fix st :: "'s simplex_state" and b assume "orphans_wf st"
  then show "orphans_wf (buffer_orphan st b)" by (rule orphans_wf_buffer)
qed (auto elim!: step_elims simp: orphans_wf_def step_defs)

section \<open>Persistence\<close>

text \<open>The fields the node keeps in memory and writes through \<open>persist_state\<close>.\<close>

definition managed :: "consensus_state \<Rightarrow> view \<times> view \<times> hash \<times> view \<times> view" where
  "managed cs = (cs_view cs, cs_finalized_height cs, cs_preferred_block cs, cs_preferred_view cs,
     cs_last_voted_view cs)"

definition in_memory :: "'s simplex_state \<Rightarrow> view \<times> view \<times> hash \<times> view \<times> view" where
  "in_memory st = (current_view st, finalized_height st, preferred_block st, preferred_view st,
     last_voted_view st)"

definition synced :: "('s \<Rightarrow> mem_storage) \<Rightarrow> 's simplex_state \<Rightarrow> bool" where
  "synced absm st = (map_option managed (ms_state (absm (ss_storage st))) = Some (in_memory st))"

lemma managed_updates:
  assumes "chain_store V absm hb"
  shows "consensus_updates V absm hb X vw (\<lambda>cs. managed cs = m)"
proof -
  have q: "managed (fst (advance_queues vw st)) = managed st" for st
    by (rule advance_queues_cases [of vw st]) (simp add: managed_def)
  have r: "managed (fst (reward_author a st)) = managed st" for a st
    by (auto simp: reward_author_def managed_def split: option.split)
  have p: "managed (penalize_leader X pk st) = managed st" for pk st
    by (auto simp: penalize_leader_def managed_def Let_def split: option.split)
  have l: "managed (fst (liveness_update X b st)) = managed st" for b st
    by (auto simp: liveness_update_def Let_def case_prod_unfold r p)
  show ?thesis
    by (intro consensus_updates.intro assms consensus_updates_axioms.intro)
       (simp_all add: q l, simp_all add: managed_def slash_update_def drop_validator_def
          stake_update_def exit_update_def withdraw_update_def Let_def)
qed

interpretation mgd: consensus_updates "mem_impl X" "\<lambda>m. m" "hash_block X" X vw "\<lambda>cs. managed cs = m" for X vw m
  by (rule managed_updates) (rule mem.chain_store_axioms)

context reliable_store
begin

lemma persist_synced:
  assumes "persist_state X V st = Some st'"
  shows "synced absm st'"
proof -
  obtain l cs where l: "get_consensus_state V (ss_storage st) = Inr l"
    and cs: "cs = managed_fields st (case l of Some c \<Rightarrow> c | None \<Rightarrow> fresh_state X st)"
    using assms by (auto simp: persist_state_def bind_eq_Some_conv)
  obtain s' where s': "save_consensus_state V (ss_storage st) cs = Inr s'"
    using save_consensus_state_ok by blast
  with assms l cs have "st' = st\<lparr>ss_storage := s'\<rparr>" by (simp add: persist_state_def Let_def)
  with save_consensus_state [OF s'] cs show ?thesis
    by (simp add: synced_def managed_def in_memory_def managed_fields_def)
qed

lemma commit_synced:
  assumes "commit_finalized X V st h = Some st'" and "synced absm st"
  shows "synced absm st'"
  using assms(1)
proof (cases rule: commit_finalizedE)
  case (executed b db r cmt)
  from assms(2) obtain cs where cs: "ms_state (absm (sm_storage (executor_manager st))) = Some cs"
    "managed cs = in_memory st" by (auto simp: synced_def executor_manager_def)
  from block_keeps [OF managed_updates [OF chain_store_axioms] executed(2) this]
  show ?thesis by (auto simp: executed(3) synced_def in_memory_def)
qed (use assms in simp)

end

lemma synced_invariant:
  assumes "reliable_store V absm hb"
  shows "node_invariant X V (synced absm)"
proof -
  note R = assms
  note C = reliable_store.axioms(1) [OF R]
  note persist = reliable_store.persist_synced [OF R]
  show ?thesis
  proof
    fix st st1 st' :: "'a simplex_state" and qc vw b s' vote h
    show "synced absm st \<Longrightarrow> update_preferred_chain X V st qc = Some st' \<Longrightarrow> synced absm st'"
      using persist by (auto simp: update_preferred_chain_def split: if_splits)
    show "synced absm st1 \<Longrightarrow> save_block V (ss_storage st1) b = Inr s' \<Longrightarrow> synced absm (st1\<lparr>ss_storage := s'\<rparr>)"
      by (auto simp: synced_def in_memory_def dest!: chain_store.save_block [OF C])
    show "synced absm st \<Longrightarrow> save_qc V (ss_storage st) qc = Inr s' \<Longrightarrow> synced absm (st\<lparr>ss_storage := s'\<rparr>)"
      by (auto simp: synced_def in_memory_def dest!: chain_store.save_qc [OF C])
    show "synced absm st \<Longrightarrow> commit_finalized X V st h = Some st' \<Longrightarrow> synced absm st'"
      by (rule reliable_store.commit_synced [OF R])
  qed (erule persist | simp add: synced_def in_memory_def step_defs)+
qed

interpretation sync: node_invariant X "mem_impl X" "synced (\<lambda>m. m)" for X
  by (rule synced_invariant) (rule mem.reliable_store_axioms)

section \<open>Stored certificates\<close>

text \<open>
  A certificate formed by a node: distinct signers, each with a verified signature on the block
  hash, and an aggregate that the check of the peers accepts.
\<close>

definition certified :: "('x) blst_lib_scheme \<Rightarrow> quorum_certificate \<Rightarrow> bool" where
  "certified X qc = (distinct (qc_signers qc) \<and> qc_signers qc \<noteq> [] \<and>
     (\<forall>pk \<in> set (qc_signers qc). \<exists>s. verify X pk (hash_bytes (qc_block_hash qc)) s) \<and>
     verify_aggregate X (qc_signers qc) (hash_bytes (qc_block_hash qc)) (qc_signature qc))"

lemma certified_verifies: "certified X qc \<Longrightarrow> verify_qc X qc = Inr ()"
  by (simp add: certified_def verify_qc_def)

lemma matching_votes_props:
  assumes "iteration_ok X" and "votes_wf X st" and "v \<in> set (matching_votes X st vote)"
  shows "v_block_hash v = v_block_hash vote" "verified_vote X v"
    "map_of (votes_of (votes_received st) (v_view vote)) (v_author v) = Some v"
proof -
  let ?l = "votes_of (votes_received st) (v_view vote)"
  have wf: "table_wf X Notarize (v_view vote) ?l" using assms(2) by (simp add: votes_wf_def)
  have "set (iter_votes X ?l) = set ?l" using assms(1) unfolding iteration_ok_def by (metis set_mset_mset)
  with assms(3) obtain a where "(a, v) \<in> set ?l" and h: "v_block_hash v = v_block_hash vote"
    by (auto simp: matching_votes_def)
  then have "map_of ?l a = Some v" using hm_in_set_iff [OF table_wf_hm [OF wf]] by blast
  moreover from this have "v_author v = a" "verified_vote X v" by (rule table_wfD [OF wf])+
  ultimately show "v_block_hash v = v_block_hash vote" "verified_vote X v"
    "map_of ?l (v_author v) = Some v" using h by blast+
qed

lemma matching_authors_distinct:
  assumes "iteration_ok X" and "votes_wf X st"
  shows "distinct (map v_author (matching_votes X st vote))"
proof -
  let ?l = "votes_of (votes_received st) (v_view vote)"
  let ?it = "iter_votes X ?l"
  have wf: "table_wf X Notarize (v_view vote) ?l" using assms(2) by (simp add: votes_wf_def)
  have m: "mset ?it = mset ?l" using assms(1) unfolding iteration_ok_def by blast
  have a: "v_author (snd p) = fst p" if "p \<in> set ?it" for p
  proof -
    have "(fst p, snd p) \<in> set ?l" using that m by (metis prod.collapse mset_eq_setD)
    then have "map_of ?l (fst p) = Some (snd p)" using hm_in_set_iff [OF table_wf_hm [OF wf]] by blast
    then show ?thesis by (rule table_wfD(1) [OF wf])
  qed
  have "mset (map fst ?it) = mset (map fst ?l)" using m by simp
  then have "distinct (map fst ?it)" using table_wf_hm [OF wf]
    by (metis hm_wf_def mset_eq_imp_distinct_iff)
  moreover have "map v_author (map snd ?it) = map fst ?it" using a by simp
  ultimately have "distinct (map v_author (map snd ?it))" by metis
  then show ?thesis unfolding matching_votes_def by (rule distinct_map_filter)
qed

lemma form_qc_certified:
  assumes "iteration_ok X" and "blst_aggregate_ok X" and "votes_wf X st"
    and "threshold st \<le> length (matching_votes X st vote)"
  obtains qc where "form_qc X vote (matching_votes X st vote) = Some qc" "certified X qc"
    "qc_view qc = v_view vote" "qc_block_hash qc = v_block_hash vote"
    "qc_signers qc = map v_author (matching_votes X st vote)"
proof -
  let ?vs = "matching_votes X st vote" let ?m = "hash_bytes (v_block_hash vote)"
  let ?ps = "map (\<lambda>v. (v_author v, v_signature v)) ?vs"
  have ne: "?vs \<noteq> []" using assms(4) by (auto simp: threshold_def)
  have ver: "verify X (v_author v) ?m (v_signature v)" if "v \<in> set ?vs" for v
    using matching_votes_props [OF assms(1,3) that] by (simp add: verified_vote_def)
  obtain agg where "aggregate X (map v_signature ?vs) = Some agg" "verify_aggregate X (map v_author ?vs) ?m agg"
    using aggregate_verifies [OF assms(2), of ?ps ?m] ne ver by (auto simp: comp_def)
  with ne ver matching_authors_distinct [OF assms(1,3), of vote] show ?thesis
    by (intro that [of "\<lparr>qc_view = v_view vote, qc_block_hash = v_block_hash vote, qc_signature = agg,
        qc_signers = map v_author ?vs\<rparr>"]) (auto simp: form_qc_def certified_def)
qed

definition certificates_ok ::
  "('x) exec_lib_scheme \<Rightarrow> ('s \<Rightarrow> mem_storage) \<Rightarrow> 's simplex_state \<Rightarrow> bool" where
  "certificates_ok X absm st = (votes_wf X st \<and>
     (\<forall>v qc. ms_qcs (absm (ss_storage st)) v = Some qc \<longrightarrow> qc_view qc = v \<and> (v = 0 \<or> certified X qc)))"

context chain_store
begin

lemma persist_ledger: "persist_state X V st = Some st' \<Longrightarrow> ledger (absm (ss_storage st')) = ledger (absm (ss_storage st))"
  by (erule persist_saveE) (auto simp: ledger_def dest!: save_consensus_state)

lemma preferred_ledger:
  "update_preferred_chain X V st qc = Some st' \<Longrightarrow> ledger (absm (ss_storage st')) = ledger (absm (ss_storage st))"
  by (auto simp: update_preferred_chain_def split: if_splits dest: persist_ledger)

lemma commit_ledger:
  "commit_finalized X V st h = Some st' \<Longrightarrow> ledger (absm (ss_storage st')) = ledger (absm (ss_storage st))"
  by (erule commit_finalizedE) (auto simp: executor_manager_def dest: execute_block_ledger)

end

text \<open>
  A property of the vote tables and of the stored blocks and certificates needs to be checked
  only where a vote, a block or a certificate is added.
\<close>

lemma ledger_invariant:
  fixes V :: "'s storage_trait"
  assumes "chain_store V absm hb"
    and I: "\<And>st. I st = (votes_wf X st \<and> J (ledger (absm (ss_storage st))))"
    and block: "\<And>bs qs b. J (bs, qs) \<Longrightarrow> b_parent_hash b = default_hash \<or> bs (b_parent_hash b) \<noteq> None \<Longrightarrow> J (bs(hb b \<mapsto> b), qs)"
    and qc: "\<And>(st :: 's simplex_state) bs qs vote qc. votes_wf X st \<Longrightarrow> J (bs, qs) \<Longrightarrow>
      threshold st \<le> length (matching_votes X st vote) \<Longrightarrow>
      form_qc X vote (matching_votes X st vote) = Some qc \<Longrightarrow> J (bs, qs(qc_view qc \<mapsto> qc))"
  shows "node_invariant X V I"
proof
  note C = assms(1)
  fix st st1 st' :: "'s simplex_state" and q vw b s' vote h
  show "I st \<Longrightarrow> update_preferred_chain X V st q = Some st' \<Longrightarrow> I st'"
    using vtab.preferred chain_store.preferred_ledger [OF C] unfolding I by metis
  show "I st \<Longrightarrow> current_view st \<le> vw \<Longrightarrow> persist_state X V (st\<lparr>current_view := vw\<rparr>) = Some st' \<Longrightarrow> I st'"
    using vtab.new_view [of X st vw V st'] chain_store.persist_ledger [OF C, of X "st\<lparr>current_view := vw\<rparr>" st']
    unfolding I by simp
  show "I st \<Longrightarrow> persist_state X V (st\<lparr>last_voted_view := vw\<rparr>) = Some st' \<Longrightarrow> I st'"
    using vtab.voted [of X st V vw st'] chain_store.persist_ledger [OF C, of X "st\<lparr>last_voted_view := vw\<rparr>" st']
    unfolding I by simp
  show "I st \<Longrightarrow> threshold st \<le> length (votes_of (finalize_votes_received st) vw) \<Longrightarrow> finalized_height st < vw \<Longrightarrow>
      persist_state X V (st\<lparr>finalized_height := vw\<rparr>) = Some st' \<Longrightarrow> I st'"
    using vtab.finalized_view [of X st vw V st'] chain_store.persist_ledger [OF C, of X "st\<lparr>finalized_height := vw\<rparr>" st']
    unfolding I by simp
  show "I st \<Longrightarrow> commit_finalized X V st h = Some st' \<Longrightarrow> I st'"
    using vtab.commit chain_store.commit_ledger [OF C] unfolding I by metis
  show "I (st1\<lparr>ss_storage := s'\<rparr>)" if "I st" "known_parent V st b"
    "st1 = st \<or> update_preferred_chain X V st (b_justify b) = Some st1" "I st1"
    "save_block V (ss_storage st1) b = Inr s'"
  proof -
    have led: "ledger (absm (ss_storage st1)) = ledger (absm (ss_storage st))"
      using that(3) chain_store.preferred_ledger [OF C] by blast
    have "b_parent_hash b = default_hash \<or> ms_blocks (absm (ss_storage st)) (b_parent_hash b) \<noteq> None"
      using that(2) evm_store.get_block [OF chain_store.axioms(1) [OF C]] by (fastforce simp: known_parent_def)
    with that(4) led have "J (ledger ((absm (ss_storage st1))\<lparr>ms_blocks := (ms_blocks (absm (ss_storage st1)))(hb b \<mapsto> b)\<rparr>))"
      using block [of "ms_blocks (absm (ss_storage st1))" "ms_qcs (absm (ss_storage st1))" b]
      by (simp add: I ledger_def)
    with that(4,5) chain_store.save_block [OF C] show ?thesis by (simp add: I votes_wf_def)
  qed
  show "I (st\<lparr>ss_storage := s'\<rparr>)" if "I st" "verified_vote X vote" "threshold st \<le> length (matching_votes X st vote)"
    "form_qc X vote (matching_votes X st vote) = Some q" "save_qc V (ss_storage st) q = Inr s'"
    using that chain_store.save_qc [OF C that(5)] qc [of st "ms_blocks (absm (ss_storage st))" "ms_qcs (absm (ss_storage st))" vote q]
    by (simp add: I votes_wf_def ledger_def)
qed (auto simp: I intro: vtab.drop_txs vtab.drop_evidence, auto simp: votes_wf_def step_defs table_wf_update)

lemma certificates_invariant:
  assumes "chain_store V absm hb" and "iteration_ok X" and "blst_aggregate_ok X"
  shows "node_invariant X V (certificates_ok X absm)"
proof (rule ledger_invariant [OF assms(1)])
  let ?J = "\<lambda>(bs, qs). \<forall>v qc. qs v = Some qc \<longrightarrow> qc_view qc = v \<and> (v = 0 \<or> certified X qc)"
  show "certificates_ok X absm st = (votes_wf X st \<and> ?J (ledger (absm (ss_storage st))))" for st
    by (simp add: certificates_ok_def ledger_def)
  show "?J (bs(hb b \<mapsto> b), qs)" if "?J (bs, qs)" for bs qs b using that by simp
  fix st bs qs vote qc
  assume J: "?J (bs, qs)" and wf: "votes_wf X st" and th: "threshold st \<le> length (matching_votes X st vote)"
    and q: "form_qc X vote (matching_votes X st vote) = Some qc"
  obtain qc' where "form_qc X vote (matching_votes X st vote) = Some qc'" "certified X qc'"
    by (rule form_qc_certified [OF assms(2,3) wf th])
  with q J show "?J (bs, qs(qc_view qc \<mapsto> qc))" by auto
qed

section \<open>Stored blocks have stored parents\<close>

definition chain_closed :: "('x) exec_lib_scheme \<Rightarrow> ('s \<Rightarrow> mem_storage) \<Rightarrow> 's simplex_state \<Rightarrow> bool" where
  "chain_closed X absm st = (votes_wf X st \<and>
     (\<forall>h b. ms_blocks (absm (ss_storage st)) h = Some b \<longrightarrow>
        b_parent_hash b = default_hash \<or> ms_blocks (absm (ss_storage st)) (b_parent_hash b) \<noteq> None))"

lemma chain_closed_invariant:
  assumes "chain_store V absm hb"
  shows "node_invariant X V (chain_closed X absm)"
proof (rule ledger_invariant [OF assms(1)])
  let ?J = "\<lambda>(bs, qs). \<forall>h b. bs h = Some b \<longrightarrow> b_parent_hash b = default_hash \<or> bs (b_parent_hash b) \<noteq> None"
  show "chain_closed X absm st = (votes_wf X st \<and> ?J (ledger (absm (ss_storage st))))" for st
    by (simp add: chain_closed_def ledger_def)
  show "?J (bs(hb b \<mapsto> b), qs)"
    if "?J (bs, qs)" "b_parent_hash b = default_hash \<or> bs (b_parent_hash b) \<noteq> None" for bs qs b
    using that by auto
qed simp

interpretation par: node_invariant X "mem_impl X" "chain_closed X (\<lambda>m. m)" for X
  by (rule chain_closed_invariant) (rule mem.chain_store_axioms)

end
