(* ===== verification/Quorum.thy ===== *)
theory Quorum
  imports Consensus_Invariants
begin

text \<open>
  Intersection of quorums.  The locale asks for a finite set of members and a threshold above
  two thirds of it; the model's committee and threshold are an instance, whatever the
  committee.
\<close>

section \<open>Quorums above two thirds\<close>

locale two_thirds_quorum =
  fixes members :: "'v set" and quorum_size :: nat
  assumes finite_members: "finite members"
    and above: "2 * card members < 3 * quorum_size"
begin

lemma intersection:
  assumes "A \<subseteq> members" "B \<subseteq> members" and "quorum_size \<le> card A" "quorum_size \<le> card B"
  shows "card members < 3 * card (A \<inter> B)"
proof -
  have fin: "finite A" "finite B" using assms(1,2) finite_members finite_subset by auto
  have "card A + card B = card (A \<union> B) + card (A \<inter> B)" by (rule card_Un_Int [OF fin])
  moreover have "card (A \<union> B) \<le> card members"
    using assms(1,2) finite_members by (intro card_mono) auto
  ultimately show ?thesis using assms(3,4) above by linarith
qed

text \<open>With at most a third of the members faulty, two quorums share a correct one.\<close>

lemma correct_in_both:
  assumes "A \<subseteq> members" "B \<subseteq> members" and "quorum_size \<le> card A" "quorum_size \<le> card B"
    and "3 * card F \<le> card members" "finite F"
  shows "\<exists>p. p \<in> A \<and> p \<in> B \<and> p \<notin> F"
proof (rule ccontr)
  assume "\<not> ?thesis"
  then have "A \<inter> B \<subseteq> F" by blast
  then have "card (A \<inter> B) \<le> card F" using assms(6) by (rule card_mono [rotated])
  with intersection [OF assms(1-4)] assms(5) show False by linarith
qed

end

interpretation bft: two_thirds_quorum "set (committee st)" "threshold st" for st :: "'s simplex_state"
proof
  have "card (set (committee st)) \<le> length (committee st)" by (rule card_length)
  then show "2 * card (set (committee st)) < 3 * threshold st" by (simp add: threshold_def)
qed simp

section \<open>Voters of a block\<close>

definition voters :: "('x) exec_lib_scheme \<Rightarrow> 's simplex_state \<Rightarrow> vote \<Rightarrow> public_key set" where
  "voters X st vote = v_author ` set (matching_votes X st vote)"

lemma card_voters:
  assumes "iteration_ok X" and "votes_wf X st"
  shows "card (voters X st vote) = length (matching_votes X st vote)"
  using distinct_card [OF matching_authors_distinct [OF assms, of vote]] by (simp add: voters_def)

lemma voter_recorded:
  assumes "iteration_ok X" and "votes_wf X st" and "a \<in> voters X st vote"
  shows "\<exists>v. map_of (votes_of (votes_received st) (v_view vote)) a = Some v \<and>
    v_block_hash v = v_block_hash vote \<and> verified_vote X v"
  using assms(3) matching_votes_props [OF assms(1,2)] unfolding voters_def by blast

end
