(* ===== verification/Certificates.thy ===== *)
theory Certificates
  imports Quorum
begin

text \<open>
  Where certificates come from: a handler stores a new certificate only for a vote that
  completes a quorum, and then the certificate carries the authors of the matching votes.
\<close>

definition qcs_of :: "('s \<Rightarrow> mem_storage) \<Rightarrow> 's simplex_state \<Rightarrow> view \<rightharpoonup> quorum_certificate" where
  "qcs_of absm st = ms_qcs (absm (ss_storage st))"

lemma qcs_of_ledger: "ledger (absm (ss_storage st)) = ledger (absm (ss_storage st')) \<Longrightarrow> qcs_of absm st = qcs_of absm st'"
  by (simp add: ledger_def qcs_of_def)

context chain_store
begin

lemma persist_qcs: "persist_state X V st = Some st' \<Longrightarrow> qcs_of absm st' = qcs_of absm st"
  by (intro qcs_of_ledger persist_ledger)

lemma preferred_qcs: "update_preferred_chain X V st qc = Some st' \<Longrightarrow> qcs_of absm st' = qcs_of absm st"
  by (intro qcs_of_ledger preferred_ledger)

lemma commit_qcs: "commit_finalized X V st h = Some st' \<Longrightarrow> qcs_of absm st' = qcs_of absm st"
  by (intro qcs_of_ledger commit_ledger)

end

lemma qcs_quiet:
  fixes V :: "'s storage_trait"
  assumes "chain_store V absm hb"
  shows "quiet_steps X V (\<lambda>st. qcs_of absm st = c)"
proof
  note C = assms
  fix st st' st1 :: "'s simplex_state" and qc vw b s'
  show "qcs_of absm st = c \<Longrightarrow> update_preferred_chain X V st qc = Some st' \<Longrightarrow> qcs_of absm st' = c"
    by (auto dest!: chain_store.preferred_qcs [OF C])
  show "qcs_of absm st = c \<Longrightarrow> persist_state X V (st\<lparr>current_view := vw\<rparr>) = Some st' \<Longrightarrow> qcs_of absm st' = c"
    "qcs_of absm st = c \<Longrightarrow> persist_state X V (st\<lparr>last_voted_view := vw\<rparr>) = Some st' \<Longrightarrow> qcs_of absm st' = c"
    by (auto dest!: chain_store.persist_qcs [OF C] simp: qcs_of_def)
  show "qcs_of absm st1 = c \<Longrightarrow> save_block V (ss_storage st1) b = Inr s' \<Longrightarrow> qcs_of absm (st1\<lparr>ss_storage := s'\<rparr>) = c"
    by (auto dest!: chain_store.save_block [OF C] simp: qcs_of_def)
qed (simp_all add: qcs_of_def step_defs)

interpretation certs: quiet_steps X "mem_impl X" "\<lambda>st. qcs_of (\<lambda>m. m) st = c" for X c
  by (rule qcs_quiet) (rule mem.chain_store_axioms)

context chain_store
begin

lemma finalize_qcs:
  assumes "on_finalize_vote X V st v = Some (st', r)"
  shows "qcs_of absm st' = qcs_of absm st"
  using assms
proof (cases rule: on_finalize_voteE)
  case (finalized st2)
  have "qcs_of absm st2 = qcs_of absm st" using persist_qcs [OF finalized(3)] by (simp add: qcs_of_def)
  moreover have "qcs_of absm st' = qcs_of absm st2" using finalized(4) commit_qcs by (auto split: if_splits)
  ultimately show ?thesis by simp
qed (simp add: qcs_of_def)

lemma new_certificate:
  assumes "iteration_ok X" and "blst_aggregate_ok X" and "votes_wf X st"
    and "handle X V st ev = Some (st', r)" and "qcs_of absm st' \<noteq> qcs_of absm st"
  obtains vote qc where "ev = VoteIn vote" "v_vote_type vote = Notarize" "verified_vote X vote"
    "qcs_of absm st (v_view vote) = None" "qcs_of absm st' = (qcs_of absm st)(v_view vote \<mapsto> qc)"
    "certified X qc" "qc_view qc = v_view vote" "qc_block_hash qc = v_block_hash vote"
    "qc_signers qc = map v_author (matching_votes X (record_vote st vote) vote)"
    "threshold st \<le> length (qc_signers qc)"
proof -
  note quiet = qcs_quiet [OF chain_store_axioms, of X "qcs_of absm st"]
  obtain v where ev: "ev = VoteIn v"
    using quiet_steps.keeps_quiet_handle [OF quiet assms(4)] assms(5) by blast
  with assms(4) have "on_vote X V st v = Some (st', r)" by simp
  then show ?thesis
  proof (cases rule: on_voteE)
    case finalize
    with finalize_qcs assms(5) show ?thesis by blast
  next
    case quorum
    let ?st = "record_vote st v"
    have wf: "votes_wf X ?st" using vtab.vote [OF assms(3)] quorum by (simp add: verified_vote_def)
    have th: "threshold ?st = threshold st" by (simp add: record_vote_def threshold_def)
    have same: "qcs_of absm ?st = qcs_of absm st" by (simp add: record_vote_def qcs_of_def)
    from quorum(4) show ?thesis
    proof (cases rule: on_quorumE)
      case (formed qc s1 st1 st2 acts)
      obtain qc' where qc': "form_qc X v (matching_votes X ?st v) = Some qc'" "certified X qc'"
        "qc_view qc' = v_view v" "qc_block_hash qc' = v_block_hash v"
        "qc_signers qc' = map v_author (matching_votes X ?st v)"
        using form_qc_certified [OF assms(1,2) wf] quorum(3) th by metis
      with formed(1) have eq: "qc' = qc" by simp
      have "qcs_of absm (?st\<lparr>ss_storage := s1\<rparr>) = (qcs_of absm st)(v_view v \<mapsto> qc)"
        using save_qc [OF formed(3)] qc'(3) same by (simp add: eq qcs_of_def)
      from quiet_steps.keeps_certified [OF qcs_quiet [OF chain_store_axioms] this formed(4-6)]
      have st': "qcs_of absm st' = (qcs_of absm st)(v_view v \<mapsto> qc)" .
      have "qcs_of absm st (v_view v) = None" using get_qc [OF formed(2)] same by (simp add: qcs_of_def)
      with ev quorum qc' st' show ?thesis
        by (intro that [of v qc]) (simp_all add: eq verified_vote_def)
    qed (use assms(5) same in simp)
  qed (use assms(5) in \<open>simp_all add: qcs_of_def record_vote_def\<close>)
qed

lemma stored_is_certified:
  assumes "iteration_ok X" and "blst_aggregate_ok X" and "votes_wf X st"
    and "handle X V st ev = Some (st', r)"
    and "ms_qcs (absm (ss_storage st)) v = None" "ms_qcs (absm (ss_storage st')) v = Some qc"
  shows "certified X qc" "threshold st \<le> length (qc_signers qc)"
    "\<exists>vote. ev = VoteIn vote \<and> v_view vote = v \<and> qc_block_hash qc = v_block_hash vote"
proof -
  have "qcs_of absm st' \<noteq> qcs_of absm st" using assms(5,6) by (auto simp: qcs_of_def)
  then obtain vote q where q: "ev = VoteIn vote" "qcs_of absm st' = (qcs_of absm st)(v_view vote \<mapsto> q)" "certified X q"
    "qc_block_hash q = v_block_hash vote" "threshold st \<le> length (qc_signers q)"
    using new_certificate [OF assms(1-4)] by metis
  moreover have "qcs_of absm st v = None" "qcs_of absm st' v = Some qc" using assms(5,6) by (simp_all add: qcs_of_def)
  ultimately have "q = qc \<and> v_view vote = v" by (metis fun_upd_apply option.inject option.distinct(1))
  with q show "certified X qc" "threshold st \<le> length (qc_signers qc)"
    "\<exists>vote. ev = VoteIn vote \<and> v_view vote = v \<and> qc_block_hash qc = v_block_hash vote" by blast+
qed

lemma stored_block_hash:
  assumes "iteration_ok X" and "blst_aggregate_ok X" and "votes_wf X st"
    and "handle X V st (VoteIn vote) = Some (st', r)"
    and "ms_qcs (absm (ss_storage st)) v = None" "ms_qcs (absm (ss_storage st')) v = Some qc"
  shows "qc_block_hash qc = v_block_hash vote"
  using stored_is_certified(3) [OF assms] by simp

end

end
