(* ===== verification/Startup.thy ===== *)
theory Startup
  imports Certificates
begin

text \<open>
  Start and restart of a node: a fresh store receives the genesis block, its certificate and
  the initial state; a store that holds a state is taken over.  Either way the invariants of
  the node hold at the start.
\<close>

lemma new_simplex_stateE:
  assumes "new_simplex_state X V pk sk cmt s pool r el lim = Some st"
  obtains (reloaded) saved where "get_consensus_state V s = Inr (Some saved)"
      "st = node_state pk sk saved s pool r el DEFAULT_BLOCK_GAS_LIMIT"
    | (genesis) g s1 s2 s3 s4 a i where "genesis_block X = Some g" "save_block V s g = Inr s1"
      "save_qc V s1 (b_justify g) = Inr s2"
      "save_consensus_state V s2 (genesis_state X cmt (hash_block X g)) = Inr s3"
      "save_account V s3 a i = Inr s4"
      "st = node_state pk sk (genesis_state X cmt (hash_block X g)) s4 pool r el lim"
proof (cases "\<exists>saved. get_consensus_state V s = Inr (Some saved)")
  case True
  with assms show ?thesis using reloaded by (auto simp: new_simplex_state_def)
next
  case False
  then have "new_simplex_state X V pk sk cmt s pool r el lim = do {
      genesis \<leftarrow> genesis_block X;
      s1 \<leftarrow> unwrap (save_block V s genesis);
      s2 \<leftarrow> unwrap (save_qc V s1 (b_justify genesis));
      let initial = genesis_state X cmt (hash_block X genesis);
      s3 \<leftarrow> unwrap (save_consensus_state V s2 initial);
      (pk0, _) \<leftarrow> generate_keypair_from_id X 0;
      s4 \<leftarrow> unwrap (save_account V s3 (pk_address X pk0)
              \<lparr> ai_nonce = 0, ai_balance = - 1, ai_code_hash = Hash (keccak256 X []), ai_code = None \<rparr>);
      Some (node_state pk sk initial s4 pool r el lim)
    }"
    by (cases "get_consensus_state V s") (auto simp: new_simplex_state_def split: option.split)
  with assms show ?thesis
    by (auto simp: bind_eq_Some_conv Let_def split: prod.splits intro!: genesis)
qed

lemma node_state_sel [simp]:
  "my_id (node_state pk sk cs s pool r el lim) = pk"
  "committee (node_state pk sk cs s pool r el lim) = cs_committee cs"
  "ss_storage (node_state pk sk cs s pool r el lim) = s"
  "votes_received (node_state pk sk cs s pool r el lim) = Map.empty"
  "finalize_votes_received (node_state pk sk cs s pool r el lim) = Map.empty"
  "orphans (node_state pk sk cs s pool r el lim) = []"
  "evidence_pool (node_state pk sk cs s pool r el lim) = new_evidence_pool"
  "ss_tx_pool (node_state pk sk cs s pool r el lim) = pool"
  "in_memory (node_state pk sk cs s pool r el lim) = managed cs"
  by (simp_all add: node_state_def in_memory_def managed_def)

lemma genesis_header:
  "genesis_block X = Some g \<Longrightarrow> b_parent_hash g = default_hash \<and> b_view g = 0 \<and> qc_view (b_justify g) = 0"
  by (auto simp: genesis_block_def default_qc_def new_block_def bind_eq_Some_conv split: prod.splits)

lemma start_as_other:
  assumes "new_simplex_state X V pk sk cmt s pool r el lim = Some st"
  shows "new_simplex_state X V pk' sk' cmt s pool r el lim = Some (st\<lparr>my_id := pk', my_key := sk'\<rparr>)"
proof (cases "\<exists>saved. get_consensus_state V s = Inr (Some saved)")
  case True
  with assms show ?thesis by (auto simp: new_simplex_state_def node_state_def)
next
  case False
  with assms show ?thesis
    by (cases "get_consensus_state V s")
       (auto simp: new_simplex_state_def node_state_def Let_def bind_eq_Some_conv split: option.splits)
qed

lemma start_votes_wf: "new_simplex_state X V pk sk cmt s pool r el lim = Some st \<Longrightarrow> votes_wf X st"
  by (erule new_simplex_stateE) (simp_all add: votes_wf_start)

lemma start_orphans: "new_simplex_state X V pk sk cmt s pool r el lim = Some st \<Longrightarrow> orphans st = []"
  by (erule new_simplex_stateE) simp_all

lemma start_pools: "new_simplex_state X V pk sk cmt s pool r el lim = Some st \<Longrightarrow> pool_wf X pool \<Longrightarrow> pools_wf X st"
  by (erule new_simplex_stateE) (simp_all add: pools_wf_def evidence_wf_new)

text \<open>The states a node can be in, started on any store.\<close>

definition reachable :: "('x) exec_lib_scheme \<Rightarrow> 's storage_trait \<Rightarrow> 's simplex_state \<Rightarrow> bool" where
  "reachable X V st = (\<exists>pk sk cmt s pool r el lim st0 acts.
     new_simplex_state X V pk sk cmt s pool r el lim = Some st0 \<and> run X V st0 acts st)"

lemma reachableI:
  "new_simplex_state X V pk sk cmt s pool r el lim = Some st0 \<Longrightarrow> run X V st0 acts st \<Longrightarrow> reachable X V st"
  unfolding reachable_def by blast

lemma reachable_votes_wf: "reachable X V st \<Longrightarrow> votes_wf X st"
  unfolding reachable_def by (elim exE conjE) (erule vtab.keeps_run, erule start_votes_wf)

lemma start_orphans_wf: "new_simplex_state X V pk sk cmt s pool r el lim = Some st \<Longrightarrow> orphans_wf st"
  by (simp add: orphans_wf_def start_orphans)

lemma reachable_orphans_wf: "reachable X V st \<Longrightarrow> orphans_wf st"
  unfolding reachable_def by (elim exE conjE) (erule orph.keeps_run, erule start_orphans_wf)

context chain_store
begin

lemma start_synced:
  assumes "new_simplex_state X V pk sk cmt s pool r el lim = Some st"
  shows "synced absm st"
  using assms
proof (cases rule: new_simplex_stateE)
  case (reloaded saved)
  from get_consensus_state [OF reloaded(1), symmetric] show ?thesis by (simp add: reloaded(2) synced_def)
next
  case (genesis g s1 s2 s3 s4 a i)
  with save_consensus_state [OF genesis(4)] save_account [OF genesis(5)] show ?thesis
    by (simp add: synced_def)
qed

lemma start_ledger:
  assumes "new_simplex_state X V pk sk cmt s pool r el lim = Some st"
  shows "ledger (absm (ss_storage st)) = ledger (absm s) \<or>
    (\<exists>g. genesis_block X = Some g \<and> ledger (absm (ss_storage st)) =
       ((ms_blocks (absm s))(hb g \<mapsto> g), (ms_qcs (absm s))(0 \<mapsto> b_justify g)))"
  using assms
proof (cases rule: new_simplex_stateE)
  case (genesis g s1 s2 s3 s4 a i)
  with genesis_header [OF genesis(1)] save_block [OF genesis(2)] save_qc [OF genesis(3)]
    save_consensus_state [OF genesis(4)] save_account [OF genesis(5)]
  show ?thesis by (auto simp: ledger_def)
qed simp

lemma start_certificates:
  assumes "new_simplex_state X V pk sk cmt s pool r el lim = Some st" and "ms_qcs (absm s) = Map.empty"
  shows "certificates_ok X absm st"
  using start_ledger [OF assms(1)] start_votes_wf [OF assms(1)] assms(2) genesis_header
  by (fastforce simp: certificates_ok_def ledger_def)

lemma start_closed:
  assumes "new_simplex_state X V pk sk cmt s pool r el lim = Some st" and "ms_blocks (absm s) = Map.empty"
  shows "chain_closed X absm st"
  using start_ledger [OF assms(1)] start_votes_wf [OF assms(1)] assms(2) genesis_header
  by (fastforce simp: chain_closed_def ledger_def split: if_splits)

end

text \<open>On a store that does not fail, what the node holds in memory is what it has stored.\<close>

lemma started_synced:
  assumes "reliable_store V absm hb"
    and "new_simplex_state X V pk sk cmt s pool r el lim = Some st" and "run X V st acts st'"
  shows "synced absm st'"
  using chain_store.start_synced [OF reliable_store.axioms(1) [OF assms(1)] assms(2)]
  by (rule node_invariant.keeps_run [OF synced_invariant [OF assms(1)] assms(3)])

lemma restarts:
  assumes "reliable_store V absm hb"
    and "new_simplex_state X V pk sk cmt s pool r el lim = Some st" and "run X V st acts st'"
  shows "\<exists>st2. new_simplex_state X V pk' sk' cmt' (ss_storage st') pool' r' el' lim' = Some st2 \<and>
    in_memory st2 = in_memory st' \<and> ss_storage st2 = ss_storage st'"
proof -
  from started_synced [OF assms] obtain cs where "ms_state (absm (ss_storage st')) = Some cs" "managed cs = in_memory st'"
    by (auto simp: synced_def)
  then show ?thesis using reliable_store.get_consensus_state_eq [OF assms(1)]
    by (simp add: new_simplex_state_def)
qed

end
