(* ===== verification/Finality.thy ===== *)
theory Finality
  imports Consensus_Invariants
begin

text \<open>
  Finalization.  The finalized height, the committee and the root of the executor's tree change
  only when a finalize vote completes a quorum for a view above the finalized one.
\<close>

definition finality :: "'s simplex_state \<Rightarrow> view \<times> public_key list \<times> h256" where
  "finality st = (finalized_height st, committee st, executor_root st)"

interpretation fin: quiet_steps X V "\<lambda>st. finality st = c" for X V c
  by unfold_locales (auto simp: finality_def step_defs elim!: step_elims)

lemma notarize_finality:
  "on_vote X V st v = Some (st', r) \<Longrightarrow> v_vote_type v = Notarize \<Longrightarrow> finality st' = finality st"
proof (erule on_voteE)
  assume "on_quorum X V (record_vote st v) v (matching_votes X (record_vote st v) v) = Some (st', r)"
  then show "finality st' = finality st"
  proof (cases rule: on_quorumE)
    case (formed qc s1 st1 st2 acts)
    show ?thesis by (rule fin.keeps_certified [OF _ formed(4-6)]) (simp add: finality_def record_vote_def)
  qed (simp add: finality_def record_vote_def)
qed (auto simp: finality_def record_vote_def)

lemma handle_finality:
  assumes "handle X V st ev = Some (st', r)" and "\<And>v. ev = VoteIn v \<Longrightarrow> v_vote_type v = Notarize"
  shows "finality st' = finality st"
proof (cases "\<exists>v. ev = VoteIn v")
  case True
  with assms notarize_finality show ?thesis by auto
next
  case False
  with fin.keeps_quiet_handle [OF assms(1)] show ?thesis by blast
qed

text \<open>The finalize votes recorded for a view, with the new one.\<close>

definition finalize_table :: "'s simplex_state \<Rightarrow> vote \<Rightarrow> vote_map" where
  "finalize_table st v = AList.update (v_author v) v (votes_of (finalize_votes_received st) (v_view v))"

lemma set_update_subset: "set (AList.update k v al) \<subseteq> insert (k, v) (set al)"
  by (induction al) auto

lemma finalize_table_wf:
  assumes "votes_wf X st" and "verified_vote X v" and "v_vote_type v = Finalize"
  shows "table_wf X Finalize (v_view v) (finalize_table st v)"
  using assms by (simp add: finalize_table_def votes_wf_def table_wf_update)

lemma finalize_vote_changes:
  assumes "on_finalize_vote X V st v = Some (st', r)" and "finality st' \<noteq> finality st"
  shows "threshold st \<le> length (finalize_table st v)" "finalized_height st < v_view v"
    "finalized_height st' = v_view v"
proof -
  from assms(1) have "threshold st \<le> length (finalize_table st v) \<and> finalized_height st < v_view v \<and>
    finalized_height st' = v_view v"
  proof (cases rule: on_finalize_voteE)
    case counted
    with assms(2) show ?thesis by (simp add: finality_def)
  next
    case (finalized st2)
    have "finalized_height st2 = v_view v" using finalized(3) by (auto elim!: persist_stateE)
    moreover have "finalized_height st' = finalized_height st2"
      using finalized(4) by (auto elim!: commit_finalizedE split: if_splits)
    ultimately show ?thesis using finalized(1,2) by (simp add: finalize_table_def)
  qed
  then show "threshold st \<le> length (finalize_table st v)" "finalized_height st < v_view v"
    "finalized_height st' = v_view v" by simp_all
qed

end
