(* ===== verification/Voting.thy ===== *)
theory Voting
  imports Consensus_Invariants
begin

text \<open>
  The votes a node emits.  A node that does not propose blocks of its own votes for at most one
  block per view, in increasing views; a node that proposes may not, since its proposals leave
  or even lower the mark of its last vote.
\<close>

section \<open>Notarize votes for blocks\<close>

definition block_vote :: "consensus_action \<Rightarrow> (view \<times> hash) option" where
  "block_vote a = (case a of
     BroadcastVote v \<Rightarrow>
       (if v_vote_type v = Notarize \<and> v_block_hash v \<noteq> default_hash then Some (v_view v, v_block_hash v)
        else None)
   | _ \<Rightarrow> None)"

definition block_votes :: "consensus_action list \<Rightarrow> (view \<times> hash) list" where
  "block_votes acts = concat (map (\<lambda>a. case block_vote a of Some p \<Rightarrow> [p] | None \<Rightarrow> []) acts)"

definition proposes :: "consensus_action list \<Rightarrow> bool" where
  "proposes acts = (\<exists>b. BroadcastBlock b \<in> set acts)"

lemma block_votes_simps [simp]:
  "block_votes [] = []"
  "block_votes (a # acts) = (case block_vote a of Some p \<Rightarrow> p # block_votes acts | None \<Rightarrow> block_votes acts)"
  "block_votes (acts @ acts') = block_votes acts @ block_votes acts'"
  by (simp_all add: block_votes_def split: option.split)

lemma proposes_simps [simp]:
  "proposes [] = False"
  "proposes (acts @ acts') = (proposes acts \<or> proposes acts')"
  "proposes (BroadcastBlock b # acts)"
  "proposes (BroadcastVote v # acts) = proposes acts"
  by (auto simp: proposes_def)

lemma block_vote_simps [simp]:
  "block_vote (BroadcastRequest h) = None" "block_vote (BroadcastEvidence e) = None"
  "block_vote (SendBlock b p) = None" "block_vote (BroadcastBlock b) = None"
  "block_vote (BroadcastVote (create_vote X st vw h t)) =
     (if t = Notarize \<and> h \<noteq> default_hash then Some (vw, h) else None)"
  by (simp_all add: block_vote_def create_vote_def)

lemma block_votes_proposal [simp]:
  "block_votes (proposal_votes X st b) =
     (if hash_block X b \<noteq> default_hash then [(b_view b, hash_block X b)] else [])"
  by (simp add: proposal_votes_def)

section \<open>One handler\<close>

text \<open>The handler leaves the mark and votes for nothing, or raises it to the view it votes in.\<close>

definition votes_above :: "view \<Rightarrow> view \<Rightarrow> (view \<times> hash) list \<Rightarrow> bool" where
  "votes_above lo hi vs = (sorted_wrt (<) (map fst vs) \<and> (\<forall>(v, h) \<in> set vs. lo < v \<and> v \<le> hi) \<and> lo \<le> hi)"

lemma votes_above_Nil [simp]: "votes_above lo hi [] = (lo \<le> hi)"
  by (simp add: votes_above_def)

lemma votes_above_append:
  assumes "votes_above lo mid vs" and "votes_above mid hi ws"
  shows "votes_above lo hi (vs @ ws)"
  using assms unfolding votes_above_def sorted_wrt_append map_append
  by (fastforce intro: le_less_trans less_le_trans)

lemma validate_last_voted:
  "validate_and_store_block X V st b = Some (st', r) \<Longrightarrow> last_voted_view st' = last_voted_view st"
  by (erule validate_and_store_blockE)
     (auto simp: buffer_orphan_def elim!: accept_blockE update_preferred_chainE)

lemma fast_forward_last_voted: "fast_forward X V st vw = Some st' \<Longrightarrow> last_voted_view st' = last_voted_view st"
  by (erule fast_forwardE) simp

lemma on_proposal_votes:
  assumes "on_proposal X V st b = Some (st', r)"
  shows "votes_above (last_voted_view st) (last_voted_view st') (block_votes (actions_of r))"
  using assms
proof (cases rule: on_proposalE)
  case (vote st1 st2)
  then have "last_voted_view st < b_view b"
    by (simp add: validate_last_voted fast_forward_last_voted)
  moreover have "last_voted_view st' = b_view b" using vote(5) by (auto elim!: persist_stateE)
  ultimately show ?thesis using vote(6) by (auto simp: votes_above_def)
qed (auto simp: buffer_orphan_def validate_last_voted fast_forward_last_voted)

lemma on_vote_votes:
  assumes "on_vote X V st v = Some (st', r)" and "\<not> proposes (actions_of r)"
  shows "votes_above (last_voted_view st) (last_voted_view st') (block_votes (actions_of r))"
  using assms(1)
proof (cases rule: on_voteE)
  case finalize
  from finalize(3) show ?thesis
    by (cases rule: on_finalize_voteE)
       (auto elim!: persist_stateE commit_finalizedE split: if_splits)
next
  case quorum
  from quorum(4) show ?thesis
  proof (cases rule: on_quorumE)
    case (formed qc s1 st1 st2 acts)
    have "last_voted_view st2 = last_voted_view st"
      using formed(4,5) by (auto simp: record_vote_def elim!: update_preferred_chainE persist_stateE split: if_splits)
    with formed(6) show ?thesis
      by (cases rule: chain_proposalE) (use assms(2) formed(7) in auto)
  qed (simp add: record_vote_def)
qed (auto simp: record_vote_def)

text \<open>A proposal on a new certificate sets the mark to its view, wherever the mark was.\<close>

lemma chained_mark:
  assumes "on_vote X V st v = Some (st', Inr acts)" and "BroadcastBlock b \<in> set acts"
  shows "b_view b = v_view v + 1" "last_voted_view st' = v_view v + 1"
proof -
  have "b_view b = v_view v + 1 \<and> last_voted_view st' = v_view v + 1"
    using assms(1)
  proof (cases rule: on_voteE)
    case finalize
    from finalize(3) show ?thesis by (cases rule: on_finalize_voteE) (use assms(2) in auto)
  next
    case quorum
    from quorum(4) show ?thesis
    proof (cases rule: on_quorumE)
      case (formed qc s1 st1 st2 acts1)
      have w: "qc_view qc = v_view v" using formed(1) by (auto simp: form_qc_def bind_eq_Some_conv)
      from formed(6) show ?thesis
      proof (cases rule: chain_proposalE)
        case (proposed parent block0 block s')
        have "b = block" using assms(2) formed(7) proposed(7) by (auto simp: proposal_votes_def split: if_splits)
        moreover have "b_view block = v_view v + 1" using proposal_header(2) [OF proposed(3,4)] w by simp
        moreover have "last_voted_view st' = b_view block" using proposed(6) by (auto elim!: persist_stateE)
        ultimately show ?thesis by simp
      qed (use assms(2) formed(7) in auto)
    qed (use assms(2) in auto)
  qed (use assms(2) in \<open>auto split: if_splits\<close>)
  then show "b_view b = v_view v + 1" "last_voted_view st' = v_view v + 1" by auto
qed

lemma respond_orphans_last_voted:
  assumes "\<And>st b st' r. respond X V n st b = Some (Some (st', r)) \<Longrightarrow>
      last_voted_view st' = last_voted_view st \<and> block_votes (actions_of r) = []"
  shows "respond_orphans X V n st bs acts = Some (Some (st', acts')) \<Longrightarrow>
    last_voted_view st' = last_voted_view st \<and> block_votes acts' = block_votes acts"
proof (induction bs arbitrary: st acts)
  case (Cons b bs)
  from Cons.prems obtain st1 r1 where 1: "respond X V n st b = Some (Some (st1, r1))"
    "respond_orphans X V n st1 bs (case r1 of Inr a \<Rightarrow> acts @ a | Inl _ \<Rightarrow> acts) = Some (Some (st', acts'))"
    by (rule respond_orphans_ConsE)
  from Cons.IH [OF 1(2)] assms [OF 1(1)] show ?case by (cases r1) auto
qed simp

lemma respond_last_voted:
  "respond X V n st b = Some (Some (st', r)) \<Longrightarrow>
   last_voted_view st' = last_voted_view st \<and> block_votes (actions_of r) = []"
proof (induction n arbitrary: st b st' r)
  case (Suc n)
  from Suc.prems show ?case
  proof (cases rule: respondE)
    case (nested st1 st2 waiting acts)
    have "last_voted_view st2 = last_voted_view st"
      using nested(1,2) by (simp add: validate_last_voted fast_forward_last_voted)
    with respond_orphans_last_voted [OF Suc.IH nested(4)] nested(5) show ?thesis by simp
  qed (auto simp: buffer_orphan_def validate_last_voted fast_forward_last_voted)
qed simp

lemma handle_votes:
  assumes "handle X V st ev = Some (st', r)" and "\<not> proposes (actions_of r)"
  shows "votes_above (last_voted_view st) (last_voted_view st') (block_votes (actions_of r))"
proof (cases ev)
  case Propose
  with assms show ?thesis by (auto elim!: try_proposeE)
next
  case (ResponseIn b)
  with assms have "on_block_response X V st b = Some (st', r)" by simp
  from respond_last_voted [OF on_block_responseD [OF this]] show ?thesis using ResponseIn by simp
qed (use assms in \<open>auto simp: on_timeout_def on_block_request_def intro: on_proposal_votes on_vote_votes
       split: if_splits sum.splits option.splits\<close>)

section \<open>Runs\<close>

lemma run_votes:
  "run X V st acts st' \<Longrightarrow> \<not> proposes acts \<Longrightarrow>
   votes_above (last_voted_view st) (last_voted_view st') (block_votes acts)"
proof (induction rule: run.induct)
  case (event acts st1 ev st2 r)
  then show ?case using votes_above_append handle_votes by fastforce
qed simp

end
