(* ===== verification/Acceptance.thy ===== *)
theory Acceptance
  imports Consensus_Invariants
begin

text \<open>
  A block proposed by one node is accepted by another: execution does not read the fields that
  the proposer fills in, so validation recomputes the proposed roots.
\<close>

lemma execute_block_roots:
  "execute_block X V lim db (b\<lparr>b_state_root := sr, b_receipts_root := rr\<rparr>) = execute_block X V lim db b"
proof -
  have "liveness_update X (b\<lparr>b_state_root := sr, b_receipts_root := rr\<rparr>) = liveness_update X b"
    by (simp add: liveness_update_def fun_eq_iff)
  then have "process_liveness_slashing X V (b\<lparr>b_state_root := sr, b_receipts_root := rr\<rparr>) = process_liveness_slashing X V b"
    unfolding process_liveness_slashing_def [abs_def] by (simp only:)
  then show ?thesis by (simp add: execute_block_def cong: option.case_cong sum.case_cong)
qed

definition same_chain :: "'s simplex_state \<Rightarrow> 's simplex_state \<Rightarrow> bool" where
  "same_chain st peer = (ss_storage peer = ss_storage st \<and> committee peer = committee st \<and>
     ss_block_gas_limit peer = ss_block_gas_limit st)"

lemma execute_on_overlay_same:
  "same_chain st peer \<Longrightarrow> execute_on_overlay X V peer = execute_on_overlay X V st"
  by (simp add: execute_on_overlay_def fun_eq_iff same_chain_def parent_root_def fork_def)

text \<open>What validation recomputes for a proposal of a peer.\<close>

lemma proposal_replay:
  assumes "create_proposal X V st vw qc parent = Some (Inr b0)"
    and "execute_on_overlay X V st parent b0 = Some (Inr b)"
  shows "execute_on_overlay X V st parent (b\<lparr>b_gas_used := 0\<rparr>) = Some (Inr b)"
    "b_committee_hash b = hash_committee X (committee st)"
proof -
  have b0: "b_gas_used b0 = 0" "b_committee_hash b0 = hash_committee X (committee st)"
    using assms(1) by (auto simp: create_proposal_def bind_eq_Some_conv Let_def new_block_def
        split: sum.splits option.splits)
  obtain sr rr g where b: "b = b0\<lparr>b_state_root := sr, b_receipts_root := rr, b_gas_used := g\<rparr>"
    using execute_on_overlay_header [OF assms(2)] by blast
  have "b\<lparr>b_gas_used := 0\<rparr> = b0\<lparr>b_state_root := sr, b_receipts_root := rr\<rparr>"
    unfolding b using b0(1) by (cases b0) simp
  then show "execute_on_overlay X V st parent (b\<lparr>b_gas_used := 0\<rparr>) = Some (Inr b)"
    using assms(2) by (simp add: execute_on_overlay_def execute_block_roots)
  show "b_committee_hash b = hash_committee X (committee st)" using b0(2) by (simp add: b)
qed

lemma on_proposal_view:
  "on_proposal X V st b = Some (st', Inr (proposal_votes X st2 b)) \<Longrightarrow> b_view b \<le> current_view st'"
  by (erule on_proposalE) (auto simp: proposal_votes_def elim!: fast_forwardE persist_stateE split: if_splits)

lemma on_proposal_stays:
  assumes "on_proposal X V st b = Some (st', Inr (proposal_votes X st2 b))"
  shows "current_view st' = b_view b"
  using assms
proof (cases rule: on_proposalE)
  case (vote st1 st3)
  have "current_view st1 = current_view st" using vote(2)
    by (auto elim!: validate_and_store_blockE accept_blockE update_preferred_chainE simp: buffer_orphan_def)
  with vote(1,3,5) show ?thesis by (auto elim!: fast_forwardE persist_stateE)
qed (auto simp: proposal_votes_def split: if_splits)

context reliable_store
begin

lemma persist_returns: "\<exists>st'. persist_state X V st = Some st'"
  using get_consensus_state_ok [of "ss_storage st"]
  by (auto simp: persist_state_def Let_def split: sum.split)

lemma fast_forward_returns: "\<exists>st'. fast_forward X V st vw = Some st'"
  using persist_returns by (cases "current_view st \<le> vw") (auto simp: fast_forward_def)

lemma preferred_returns: "\<exists>st'. update_preferred_chain X V st qc = Some st'"
  using persist_returns by (auto simp: update_preferred_chain_def)

lemma accept_returns:
  assumes "verify_qc X (b_justify b) = Inr ()"
  shows "\<exists>st'. accept_block X V st b = Some (st', Inr (True, []))"
proof -
  obtain st1 where "update_preferred_chain X V st (b_justify b) = Some st1" using preferred_returns by blast
  moreover obtain s' where "save_block V (ss_storage st1) b = Inr s'" using save_block_ok by blast
  ultimately show ?thesis using assms by (simp add: accept_block_def)
qed

lemma peer_accepts:
  assumes "create_proposal X V st vw qc parent = Some (Inr b0)"
    and "execute_on_overlay X V st parent b0 = Some (Inr b)"
    and "same_chain st peer" and "verify_qc X (b_justify b) = Inr ()"
  shows "\<exists>st'. validate_and_store_block X V peer b = Some (st', Inr (True, []))"
proof (cases "\<exists>b'. get_block V (ss_storage peer) (hash_block X b) = Inr (Some b')")
  case True
  then show ?thesis by (auto simp: validate_and_store_block_def)
next
  case False
  note h = proposal_header [OF assms(1,2)] and r = proposal_replay [OF assms(1,2)]
  have "(if b_parent_hash b = default_hash then Some False
         else do { p \<leftarrow> unwrap (get_block V (ss_storage peer) (b_parent_hash b)); Some (p = None) }) = Some False"
    using h(5) assms(3) by (auto simp: known_parent_def same_chain_def)
  moreover have "execute_on_overlay X V peer (b_parent_hash b) (b\<lparr>b_gas_used := 0\<rparr>) = Some (Inr b)"
    using r(1) h(3) execute_on_overlay_same [OF assms(3), of X V] by simp
  moreover have "b_committee_hash b = hash_committee X (committee peer)"
    using r(2) assms(3) by (simp add: same_chain_def)
  ultimately have "validate_and_store_block X V peer b = accept_block X V peer b"
    using False by (auto simp: validate_and_store_block_def split: sum.splits option.splits)
  then show ?thesis using accept_returns [OF assms(4)] by simp
qed

lemma stored_votes:
  assumes "validate_and_store_block X V st b = Some (st1, Inr (True, []))"
    and "current_view st \<le> b_view b" and "last_voted_view st1 < b_view b"
  shows "\<exists>st'. on_proposal X V st b = Some (st', Inr (proposal_votes X st' b)) \<and> my_id st' = my_id st1 \<and>
    my_key st' = my_key st1 \<and> last_voted_view st' = b_view b"
proof -
  obtain st2 where ff: "fast_forward X V st1 (b_view b) = Some st2" using fast_forward_returns by blast
  obtain st3 where p: "persist_state X V (st2\<lparr>last_voted_view := b_view b\<rparr>) = Some st3"
    using persist_returns by blast
  have "last_voted_view st2 = last_voted_view st1" "my_id st3 = my_id st1" "my_key st3 = my_key st1"
    "last_voted_view st3 = b_view b"
    using ff p by (auto elim!: fast_forwardE persist_stateE)
  with assms ff p show ?thesis by (auto simp: on_proposal_def)
qed

lemma peer_votes:
  assumes "try_propose X V st = Some (st1, Inr acts)" and "BroadcastBlock b \<in> set acts"
    and "verify_qc X (b_justify b) = Inr ()" and "same_chain st peer"
    and "current_view peer \<le> b_view b" and "last_voted_view peer < b_view b"
  shows "\<exists>st'. on_proposal X V peer b = Some (st', Inr (proposal_votes X st' b)) \<and>
    my_id st' = my_id peer \<and> my_key st' = my_key peer \<and> last_voted_view st' = b_view b \<and> b_view b \<le> current_view st'"
  using assms(1)
proof (cases rule: try_proposeE)
  case (proposed qc parent b0 b1 s')
  have b1: "b1 = b" using assms(2) proposed by (auto simp: proposal_votes_def split: if_splits)
  obtain st2 where v: "validate_and_store_block X V peer b = Some (st2, Inr (True, []))"
    using peer_accepts [OF proposed(4) proposed(5) [unfolded b1] assms(4,3)] by blast
  have f: "last_voted_view st2 < b_view b" "my_id st2 = my_id peer" "my_key st2 = my_key peer"
    using v assms(6) by (auto elim!: validate_and_store_blockE accept_blockE update_preferred_chainE simp: buffer_orphan_def)
  then obtain st' where "on_proposal X V peer b = Some (st', Inr (proposal_votes X st' b))" "my_id st' = my_id peer"
      "my_key st' = my_key peer" "last_voted_view st' = b_view b"
    using stored_votes [OF v assms(5)] by auto
  with on_proposal_view show ?thesis by blast
qed (use assms(2) in auto)

lemma stored_after:
  assumes "save_qc V (ss_storage st) qc = Inr s1"
    and "update_preferred_chain X V (st\<lparr>ss_storage := s1\<rparr>) qc = Some st1"
    and "(if vw + 1 > current_view st1 then persist_state X V (st1\<lparr>current_view := vw + 1\<rparr>) else Some st1) = Some st2"
  shows "ms_qcs (absm (ss_storage st2)) = (ms_qcs (absm (ss_storage st)))(qc_view qc \<mapsto> qc)"
proof -
  have "ledger (absm (ss_storage st2)) = ledger (absm (ss_storage st1))"
    using assms(3) persist_ledger by (fastforce split: if_splits)
  also have "\<dots> = ledger (absm s1)" using preferred_ledger [OF assms(2)] by simp
  finally show ?thesis using save_qc [OF assms(1)] by (simp add: ledger_def)
qed

end

end
