(* ===== verification/Sample_Run.thy ===== *)
theory Sample_Run
  imports Sample_Node Startup
begin

text \<open>
  Concrete runs of a node: a committee of four on the in-memory store.
\<close>

section \<open>A node of the sample committee\<close>

definition sample_start :: "bytes \<Rightarrow> mem_storage simplex_state option" where
  "sample_start key = new_simplex_state sample_lib (mem_impl sample_lib)
     (PublicKey key) (PrivateKey key) [pk1, pk2, pk3, pk4] new_mem_storage new_tx_pool 0 30000 30000"

definition sample_events :: "bytes \<Rightarrow> event list \<Rightarrow> (mem_storage simplex_state \<times> consensus_action list) option" where
  "sample_events key evs =
     (case sample_start key of None \<Rightarrow> None | Some st \<Rightarrow> run_events sample_lib (mem_impl sample_lib) st evs)"

definition vote_in :: "bytes \<Rightarrow> vote_type \<Rightarrow> view \<Rightarrow> hash \<Rightarrow> event" where
  "vote_in key t v h = VoteIn (sample_vote (PrivateKey key) t v h)"

text \<open>Three validators notarize block 8 in view 1 and finalize it.\<close>

definition quorum_events :: "event list" where
  "quorum_events =
     [vote_in [1] Notarize 1 (Hash 8), vote_in [2] Notarize 1 (Hash 8), vote_in [3] Notarize 1 (Hash 8),
      vote_in [1] Finalize 1 (Hash 8), vote_in [2] Finalize 1 (Hash 8), vote_in [3] Finalize 1 (Hash 8)]"

lemma sample_eventsE:
  assumes "case sample_events key evs of None \<Rightarrow> False | Some (st, acts) \<Rightarrow> Q st acts"
  obtains st0 st acts where "sample_start key = Some st0"
    "run_events sample_lib (mem_impl sample_lib) st0 evs = Some (st, acts)"
    "run sample_lib (mem_impl sample_lib) st0 acts st" "Q st acts"
  using assms run_events_run by (fastforce simp: sample_events_def split: option.splits prod.splits)

lemma sample_reachable:
  "sample_start key = Some st0 \<Longrightarrow> run sample_lib (mem_impl sample_lib) st0 acts st \<Longrightarrow>
   reachable sample_lib (mem_impl sample_lib) st"
  unfolding sample_start_def by (rule reachableI)

text \<open>The block of the first leader of the sample committee, and a copy under another author.\<close>

definition first_proposal :: "(mem_storage simplex_state \<times> mem_storage simplex_state \<times> block \<times> consensus_action list) option" where
  "first_proposal =
     (case sample_start [2] of None \<Rightarrow> None
      | Some st \<Rightarrow>
          (case try_propose sample_lib (mem_impl sample_lib) st of
             Some (st1, Inr (BroadcastBlock b # acts)) \<Rightarrow> Some (st, st1, b, acts)
           | _ \<Rightarrow> None))"

lemma first_proposalE:
  assumes "case first_proposal of None \<Rightarrow> False | Some (st, st1, b, acts) \<Rightarrow> P st st1 b acts"
  obtains st st1 b acts where "sample_start [2] = Some st"
    "try_propose sample_lib (mem_impl sample_lib) st = Some (st1, Inr (BroadcastBlock b # acts))" "P st st1 b acts"
proof -
  from assms obtain st st1 b acts where *: "first_proposal = Some (st, st1, b, acts)" "P st st1 b acts"
    by (auto split: option.splits)
  from *(1) have "sample_start [2] = Some st"
    "try_propose sample_lib (mem_impl sample_lib) st = Some (st1, Inr (BroadcastBlock b # acts))"
    by (auto simp: first_proposal_def split: option.splits prod.splits sum.splits list.splits consensus_action.splits)
  from this *(2) show ?thesis by (rule that)
qed

text \<open>
  A transaction of the account that genesis funds, and the block that the first leader proposes
  once it has it.
\<close>

definition pk0 :: public_key where "pk0 = PublicKey [0]"

definition funded_tx :: transaction where
  "funded_tx = (let tx = (sample_tx pk0 77 3 [])\<lparr>tx_max_fee_per_gas := 10000000000\<rparr>
     in tx\<lparr>tx_signature := sign sample_lib (PrivateKey [0]) (hash_bytes (sighash sample_lib tx))\<rparr>)"

definition funded_proposal :: "(mem_storage simplex_state \<times> mem_storage simplex_state \<times> block \<times> consensus_action list) option" where
  "funded_proposal =
     (case sample_events [2] [TransactionIn funded_tx] of None \<Rightarrow> None
      | Some (st, sent) \<Rightarrow>
          (case try_propose sample_lib (mem_impl sample_lib) st of
             Some (st1, Inr (BroadcastBlock b # acts)) \<Rightarrow> Some (st, st1, b, acts)
           | _ \<Rightarrow> None))"

lemma funded_proposalE:
  assumes "case funded_proposal of None \<Rightarrow> False | Some (st, st1, b, acts) \<Rightarrow> P st st1 b acts"
  obtains st st1 b acts where
    "try_propose sample_lib (mem_impl sample_lib) st = Some (st1, Inr (BroadcastBlock b # acts))" "P st st1 b acts"
proof -
  from assms obtain st st1 b acts where *: "funded_proposal = Some (st, st1, b, acts)" "P st st1 b acts"
    by (auto split: option.splits)
  from *(1) have "try_propose sample_lib (mem_impl sample_lib) st = Some (st1, Inr (BroadcastBlock b # acts))"
    by (auto simp: funded_proposal_def split: option.splits prod.splits sum.splits list.splits consensus_action.splits)
  from this *(2) show ?thesis by (rule that)
qed

lemma storedE:
  assumes "case c of Some (s, Inr p) \<Rightarrow> fst p \<and> snd p = [] | _ \<Rightarrow> False"
  obtains s where "c = Some (s, Inr (True, []))"
proof (cases c)
  case (Some q)
  with assms that show ?thesis by (cases q; cases "snd q") auto
qed (use assms in simp)

end
