(* ===== verification/Safety_Properties.thy ===== *)
theory Safety_Properties
  imports Startup Finality Voting Acceptance Sample_Run
begin

text \<open>
  What a node never does: go back, certify or finalize without a quorum, store a certificate
  that does not verify; and the places where the code promises less than the protocol asks.
\<close>

section \<open>A sample run\<close>

lemma quorum_run:
  obtains st0 st acts where "sample_start [1] = Some st0"
    "run sample_lib (mem_impl sample_lib) st0 acts st" "current_view st = 2" "finalized_height st = 1"
    "map_option qc_signers (ms_qcs (ss_storage st) 1) = Some [pk1, pk2, pk3]"
proof -
  have "case sample_events [1] quorum_events of None \<Rightarrow> False | Some (st, acts) \<Rightarrow>
    current_view st = 2 \<and> finalized_height st = 1 \<and>
    map_option qc_signers (ms_qcs (ss_storage st) 1) = Some [pk1, pk2, pk3]" by code_simp
  then show ?thesis by (rule sample_eventsE) (blast intro: that)
qed

section \<open>Progress\<close>

text \<open>
  C16: along every run, whatever the peers send and whatever the store answers, the identity of
  the node is fixed and its view, its finalized height and the view of its preferred block
  never decrease.
\<close>

theorem run_never_goes_back:
  assumes "run X V st acts st'"
  shows "my_id st' = my_id st \<and> my_key st' = my_key st \<and> current_view st \<le> current_view st' \<and>
    finalized_height st \<le> finalized_height st' \<and> preferred_view st \<le> preferred_view st'"
  using adv.keeps_run [OF assms, of st] by (simp add: advances_def)

theorem run_never_goes_back_witness:
  "\<exists>st0 st acts. sample_start [1] = Some st0 \<and> run sample_lib (mem_impl sample_lib) st0 acts st \<and>
    current_view st0 \<le> current_view st \<and> current_view st = 2 \<and>
    finalized_height st0 \<le> finalized_height st \<and> finalized_height st = 1"
proof (rule quorum_run)
  fix st0 st acts
  assume "sample_start [1] = Some st0" and r: "run sample_lib (mem_impl sample_lib) st0 acts st"
    and "current_view st = 2" "finalized_height st = 1"
  with run_never_goes_back [OF r] show ?thesis by blast
qed

section \<open>Certificates\<close>

text \<open>
  C8: every certificate in the store of a node that started with no certificates passes the
  check of the peers, is stored under its own view, and apart from the genesis one has distinct
  signers, each with a valid signature on the block hash.  The BLS library aggregates what it
  verified, and iterating over a table visits each entry once.
\<close>

theorem stored_certificates_verify:
  assumes "chain_store V absm hb" and "iteration_ok X" and "blst_aggregate_ok X"
    and "new_simplex_state X V pk sk cmt s pool r el lim = Some st" and "ms_qcs (absm s) = Map.empty"
    and "run X V st acts st'" and "get_qc V (ss_storage st') v = Inr (Some qc)"
  shows "qc_view qc = v \<and> verify_qc X qc = Inr () \<and> (v \<noteq> 0 \<longrightarrow> distinct (qc_signers qc) \<and> qc_signers qc \<noteq> [] \<and>
    (\<forall>pk \<in> set (qc_signers qc). \<exists>sig. verify X pk (hash_bytes (qc_block_hash qc)) sig))"
proof -
  have "certificates_ok X absm st'"
    by (rule node_invariant.keeps_run [OF certificates_invariant [OF assms(1-3)] assms(6)])
       (rule chain_store.start_certificates [OF assms(1,4,5)])
  moreover have "ms_qcs (absm (ss_storage st')) v = Some qc"
    using evm_store.get_qc [OF chain_store.axioms(1) [OF assms(1)] assms(7)] by simp
  ultimately have "qc_view qc = v \<and> (v = 0 \<or> certified X qc)" unfolding certificates_ok_def by blast
  then show ?thesis using certified_verifies [of X qc] by (auto simp: certified_def verify_qc_def)
qed

theorem stored_certificates_verify_witness:
  "\<exists>st0 st acts qc. sample_start [1] = Some st0 \<and> run sample_lib (mem_impl sample_lib) st0 acts st \<and>
    ms_qcs (ss_storage st) 1 = Some qc \<and> qc_signers qc = [pk1, pk2, pk3] \<and>
    verify_qc sample_lib qc = Inr () \<and> qc_view qc = 1"
proof (rule quorum_run)
  fix st0 st acts
  assume s: "sample_start [1] = Some st0" and r: "run sample_lib (mem_impl sample_lib) st0 acts st"
    and "map_option qc_signers (ms_qcs (ss_storage st) 1) = Some [pk1, pk2, pk3]"
  moreover have "ms_qcs new_mem_storage = Map.empty" by (simp add: new_mem_storage_def)
  ultimately show ?thesis
    using stored_certificates_verify [OF mem.chain_store_axioms sample_iteration_ok sample_aggregate_ok
        s [unfolded sample_start_def] _ r, of 1] by fastforce
qed

text \<open>
  C3: a handler stores a certificate that was not there only when a vote completes a quorum:
  the view had no certificate, and the new one names the block voted for, carries at least
  \<open>2n/3 + 1\<close> distinct signers with valid signatures, and passes the check of the peers.
\<close>

theorem certificate_needs_quorum:
  assumes "chain_store V absm hb" and "iteration_ok X" and "blst_aggregate_ok X"
    and "new_simplex_state X V pk sk cmt s pool r0 el lim = Some st0" and "run X V st0 acts st"
    and "handle X V st ev = Some (st', r)"
    and "ms_qcs (absm (ss_storage st')) v = Some qc" and "ms_qcs (absm (ss_storage st)) v \<noteq> Some qc"
  shows "\<exists>vote. ev = VoteIn vote \<and> v_view vote = v \<and> ms_qcs (absm (ss_storage st)) v = None \<and>
    qc_view qc = v \<and> qc_block_hash qc = v_block_hash vote \<and> distinct (qc_signers qc) \<and>
    length (committee st) * 2 div 3 + 1 \<le> length (qc_signers qc) \<and> verify_qc X qc = Inr () \<and>
    (\<forall>pk \<in> set (qc_signers qc). \<exists>sig. verify X pk (hash_bytes (qc_block_hash qc)) sig)"
proof -
  have wf: "votes_wf X st" by (rule vtab.keeps_run [OF assms(5)]) (rule start_votes_wf [OF assms(4)])
  have "qcs_of absm st' \<noteq> qcs_of absm st" using assms(7,8) by (auto simp: qcs_of_def)
  then obtain vote q where v: "ev = VoteIn vote" "qcs_of absm st (v_view vote) = None"
    "qcs_of absm st' = (qcs_of absm st)(v_view vote \<mapsto> q)" "certified X q" "qc_view q = v_view vote"
    "qc_block_hash q = v_block_hash vote" "threshold st \<le> length (qc_signers q)"
    using chain_store.new_certificate [OF assms(1-3) wf assms(6)] by metis
  have "qcs_of absm st' v = Some qc" "qcs_of absm st v \<noteq> Some qc" using assms(7,8) by (simp_all add: qcs_of_def)
  with v(3) have "v = v_view vote \<and> q = qc" by (auto split: if_splits)
  with v certified_verifies [OF v(4)] show ?thesis
    by (auto simp: certified_def threshold_def qcs_of_def)
qed

lemma third_vote:
  obtains st0 st acts st' r qc where "sample_start [1] = Some st0"
    "run sample_lib (mem_impl sample_lib) st0 acts st"
    "handle sample_lib (mem_impl sample_lib) st (vote_in [3] Notarize 1 (Hash 8)) = Some (st', r)"
    "ms_qcs (ss_storage st) 1 = None" "ms_qcs (ss_storage st') 1 = Some qc" "length (committee st) = 4"
proof -
  let ?two = "[vote_in [1] Notarize 1 (Hash 8), vote_in [2] Notarize 1 (Hash 8)]"
  have "case sample_events [1] ?two of None \<Rightarrow> False | Some (st, acts) \<Rightarrow>
    length (committee st) = 4 \<and> Option.is_none (ms_qcs (ss_storage st) 1) \<and>
    (case handle sample_lib (mem_impl sample_lib) st (vote_in [3] Notarize 1 (Hash 8)) of
       None \<Rightarrow> False | Some (st', r) \<Rightarrow> \<not> Option.is_none (ms_qcs (ss_storage st') 1))" by code_simp
  then show ?thesis
  proof (rule sample_eventsE, elim conjE)
    fix st0 st acts
    let ?h = "handle sample_lib (mem_impl sample_lib) st (vote_in [3] Notarize 1 (Hash 8))"
    assume s: "sample_start [1] = Some st0" "run sample_lib (mem_impl sample_lib) st0 acts st"
      "Option.is_none (ms_qcs (ss_storage st) 1)" "length (committee st) = 4"
      and "case ?h of None \<Rightarrow> False | Some (st', r) \<Rightarrow> \<not> Option.is_none (ms_qcs (ss_storage st') 1)"
    then obtain st' r qc where h: "?h = Some (st', r)" "ms_qcs (ss_storage st') 1 = Some qc"
      by (auto simp: Option.is_none_def split: option.splits)
    have "ms_qcs (ss_storage st) 1 = None" using s(3) by (cases "ms_qcs (ss_storage st) 1") simp_all
    from that [OF s(1,2) h(1) this h(2) s(4)] show ?thesis .
  qed
qed

theorem certificate_needs_quorum_witness:
  "\<exists>st0 st acts st' r qc. sample_start [1] = Some st0 \<and> run sample_lib (mem_impl sample_lib) st0 acts st \<and>
    handle sample_lib (mem_impl sample_lib) st (vote_in [3] Notarize 1 (Hash 8)) = Some (st', r) \<and>
    ms_qcs (ss_storage st') 1 = Some qc \<and> 3 \<le> length (qc_signers qc) \<and> verify_qc sample_lib qc = Inr ()"
proof (rule third_vote)
  fix st0 st acts st' r qc
  assume s: "sample_start [1] = Some st0" and r: "run sample_lib (mem_impl sample_lib) st0 acts st"
    and h: "handle sample_lib (mem_impl sample_lib) st (vote_in [3] Notarize 1 (Hash 8)) = Some (st', r)"
    and n: "ms_qcs (ss_storage st) 1 = None" and q: "ms_qcs (ss_storage st') 1 = Some qc" and c: "length (committee st) = 4"
  have "3 \<le> length (qc_signers qc) \<and> verify_qc sample_lib qc = Inr ()"
    using certificate_needs_quorum [OF mem.chain_store_axioms sample_iteration_ok sample_aggregate_ok
        s [unfolded sample_start_def] r h q] n c by auto
  with s r h q show ?thesis by blast
qed

section \<open>Finality\<close>

text \<open>
  C2: the finalized height, the committee and the state root of a node change only when a
  finalize vote for a higher view arrives and that view then has at least \<open>2n/3 + 1\<close> finalize
  votes by distinct authors, each with a valid signature: the new one and those that the node
  had recorded for the view; the height becomes that view.  In
  particular a quorum for a view at or below the finalized one never executes its block.
\<close>

theorem finality_needs_quorum:
  assumes "new_simplex_state X V pk sk cmt s pool r0 el lim = Some st0" and "run X V st0 acts st"
    and "handle X V st ev = Some (st', r)"
    and "finalized_height st' \<noteq> finalized_height st \<or> committee st' \<noteq> committee st \<or>
      executor_root st' \<noteq> executor_root st"
  shows "\<exists>vote votes. ev = VoteIn vote \<and> v_vote_type vote = Finalize \<and> vote \<in> set votes \<and>
    finalized_height st < v_view vote \<and> finalized_height st' = v_view vote \<and>
    distinct (map v_author votes) \<and> length (committee st) * 2 div 3 + 1 \<le> length votes \<and>
    (\<forall>v \<in> set votes. v_view v = v_view vote \<and> v_vote_type v = Finalize \<and>
       verify X (v_author v) (hash_bytes (v_block_hash v)) (v_signature v) \<and>
       (v = vote \<or> v \<in> snd ` set (votes_of (finalize_votes_received st) (v_view vote))))"
proof -
  have wf: "votes_wf X st" by (rule vtab.keeps_run [OF assms(2)]) (rule start_votes_wf [OF assms(1)])
  have ch: "finality st' \<noteq> finality st" using assms(4) by (auto simp: finality_def)
  then obtain vote where ev: "ev = VoteIn vote" "v_vote_type vote = Finalize"
    using handle_finality [OF assms(3)] vote_type.exhaust by metis
  with assms(3) ch have v: "verified_vote X vote" and f: "on_finalize_vote X V st vote = Some (st', r)"
    by (auto simp: on_vote_def verified_vote_def split: if_splits)
  let ?t = "finalize_table st vote"
  note t = finalize_table_wf [OF wf v ev(2)] and c = finalize_vote_changes [OF f ch]
  have m: "map_of ?t (v_author vote) = Some vote" by (simp add: finalize_table_def)
  have a: "v_author (snd p) = fst p \<and> v_view (snd p) = v_view vote \<and> v_vote_type (snd p) = Finalize \<and>
      verified_vote X (snd p)" if "p \<in> set ?t" for p
  proof -
    have "map_of ?t (fst p) = Some (snd p)"
      using hm_in_set_iff [OF table_wf_hm [OF t], of "fst p" "snd p"] that by simp
    then show ?thesis by (intro conjI) (rule table_wfD [OF t], assumption)+
  qed
  have "map v_author (map snd ?t) = map fst ?t" using a by auto
  then have "distinct (map v_author (map snd ?t))"
    using table_wf_hm [OF t] unfolding hm_wf_def by metis
  moreover have "vote \<in> set (map snd ?t)" using map_of_SomeD [OF m] by force
  moreover have "v_view v = v_view vote \<and> v_vote_type v = Finalize \<and>
      verify X (v_author v) (hash_bytes (v_block_hash v)) (v_signature v) \<and>
      (v = vote \<or> v \<in> snd ` set (votes_of (finalize_votes_received st) (v_view vote)))" if "v \<in> set (map snd ?t)" for v
  proof -
    from that obtain p where p: "p \<in> set ?t" "v = snd p" by auto
    then have "v = vote \<or> v \<in> snd ` set (votes_of (finalize_votes_received st) (v_view vote))"
      using set_update_subset [of "v_author vote" vote] by (fastforce simp: finalize_table_def)
    with p a [of p] show ?thesis unfolding verified_vote_def by blast
  qed
  moreover have "length (committee st) * 2 div 3 + 1 \<le> length (map snd ?t)"
    using c(1) by (simp add: threshold_def)
  ultimately show ?thesis using ev c(2,3) by blast
qed

lemma last_finalize:
  obtains st0 st acts st' r where "sample_start [1] = Some st0"
    "run sample_lib (mem_impl sample_lib) st0 acts st"
    "handle sample_lib (mem_impl sample_lib) st (vote_in [3] Finalize 1 (Hash 10)) = Some (st', r)"
    "finalized_height st = 0" "finalized_height st' = 1" "committee st = [pk1, pk2, pk3, pk4]"
proof -
  let ?two = "[vote_in [1] Finalize 1 (Hash 8), vote_in [2] Finalize 1 (Hash 9)]"
  have "case sample_events [1] ?two of None \<Rightarrow> False | Some (st, acts) \<Rightarrow>
    finalized_height st = 0 \<and> committee st = [pk1, pk2, pk3, pk4] \<and>
    (case handle sample_lib (mem_impl sample_lib) st (vote_in [3] Finalize 1 (Hash 10)) of
       None \<Rightarrow> False | Some (st', r) \<Rightarrow> finalized_height st' = 1)" by code_simp
  then show ?thesis
  proof (rule sample_eventsE, elim conjE)
    fix st0 st acts
    let ?h = "handle sample_lib (mem_impl sample_lib) st (vote_in [3] Finalize 1 (Hash 10))"
    assume s: "sample_start [1] = Some st0" "run sample_lib (mem_impl sample_lib) st0 acts st"
      "finalized_height st = 0" "committee st = [pk1, pk2, pk3, pk4]"
      and "case ?h of None \<Rightarrow> False | Some (st', r) \<Rightarrow> finalized_height st' = 1"
    then obtain st' r where h: "?h = Some (st', r)" "finalized_height st' = 1" by (auto split: option.splits)
    from that [OF s(1,2) h(1) s(3) h(2) s(4)] show ?thesis .
  qed
qed

theorem finality_needs_quorum_witness:
  "\<exists>st0 st acts st' r (votes :: vote list). sample_start [1] = Some st0 \<and> run sample_lib (mem_impl sample_lib) st0 acts st \<and>
    handle sample_lib (mem_impl sample_lib) st (vote_in [3] Finalize 1 (Hash 10)) = Some (st', r) \<and>
    finalized_height st' = 1 \<and> distinct (map v_author votes) \<and> 3 \<le> length votes"
proof (rule last_finalize)
  fix st0 st acts st' r
  assume s: "sample_start [1] = Some st0" and r: "run sample_lib (mem_impl sample_lib) st0 acts st"
    and h: "handle sample_lib (mem_impl sample_lib) st (vote_in [3] Finalize 1 (Hash 10)) = Some (st', r)"
    and n: "finalized_height st = 0" "finalized_height st' = 1" and c: "committee st = [pk1, pk2, pk3, pk4]"
  have "finalized_height st' \<noteq> finalized_height st \<or> committee st' \<noteq> committee st \<or> executor_root st' \<noteq> executor_root st"
    using n by simp
  from finality_needs_quorum [OF s [unfolded sample_start_def] r h this] obtain votes :: "vote list"
    where v: "distinct (map v_author votes)" "length (committee st) * 2 div 3 + 1 \<le> length votes" by blast
  have "3 \<le> length votes" using v(2) c by simp
  with s r h n v(1) show ?thesis by blast
qed

text \<open>
  C38: what the check of a received certificate does not ask for.  The owner of any key, member
  or not, makes for any block and any view a certificate with its key as the only signer that
  every node accepts.
\<close>

theorem single_signer_certificate:
  assumes "blst_sign_ok X" and "blst_aggregate_ok X"
  shows "\<exists>qc. qc_view qc = v \<and> qc_block_hash qc = h \<and> qc_signers qc = [public_key_of X sk] \<and>
    verify_qc X qc = Inr ()"
proof -
  let ?m = "hash_bytes h"
  have "\<exists>agg. aggregate X (map snd [(public_key_of X sk, sign X sk ?m)]) = Some agg \<and>
      verify_aggregate X (map fst [(public_key_of X sk, sign X sk ?m)]) ?m agg"
    by (rule aggregate_verifies [OF assms(2)]) (auto intro: verify_sign [OF assms(1)])
  then obtain agg where "verify_aggregate X [public_key_of X sk] ?m agg" by auto
  then show ?thesis
    by (intro exI [of _ "\<lparr>qc_view = v, qc_block_hash = h, qc_signature = agg, qc_signers = [public_key_of X sk]\<rparr>"])
       (simp add: verify_qc_def)
qed

theorem single_signer_certificate_witness:
  "\<exists>qc. qc_view qc = 9 \<and> qc_block_hash qc = Hash 8 \<and> qc_signers qc = [PublicKey [7]] \<and>
    verify_qc sample_lib qc = Inr ()"
proof -
  have "public_key_of sample_lib (PrivateKey [7]) = PublicKey [7]" by code_simp
  with single_signer_certificate [OF sample_sign_ok sample_aggregate_ok, of 9 "Hash 8" "PrivateKey [7]"]
  show ?thesis by simp
qed

end
