(* ===== verification/Equivocation.thy ===== *)
theory Equivocation
  imports Consensus_Invariants
begin

text \<open>
  Equivocation, from the vote that reveals it to the stake it costs: the evidence pool of the
  node, and the slashing of \<open>src/src/vm.rs\<close>.
\<close>

lemma on_vote_equivocation:
  assumes "verified_vote X v" and "v_vote_type v = Notarize" and "votes_wf X st"
    and "map_of (votes_of (votes_received st) (v_view v)) (v_author v) = Some old"
    and "v_block_hash old \<noteq> v_block_hash v" "v_block_hash old \<noteq> default_hash" "v_block_hash v \<noteq> default_hash"
  defines "e \<equiv> \<lparr>vote_a = old, vote_b = v\<rparr>"
  shows "on_vote X V st v = Some (st\<lparr>evidence_pool := fst (add_evidence (evidence_pool st) e)\<rparr>,
      Inr (if e \<in> evidence_items (evidence_pool st) then [] else [BroadcastEvidence e]))"
    "e \<in> evidence_items (fst (add_evidence (evidence_pool st) e))"
    "valid_evidence e" "verified_vote X old" "v_author old = v_author v"
proof -
  have wf: "table_wf X Notarize (v_view v) (votes_of (votes_received st) (v_view v))"
    using assms(3) by (simp add: votes_wf_def)
  note old = table_wfD [OF wf assms(4)]
  then show "verified_vote X old" "v_author old = v_author v" by simp_all
  show valid: "valid_evidence e" using old assms(5) by (simp add: valid_evidence_def e_def)
  then show "e \<in> evidence_items (fst (add_evidence (evidence_pool st) e))" by (simp add: add_evidence_items)
  have "snd (add_evidence (evidence_pool st) e) = (e \<notin> evidence_items (evidence_pool st))"
    using valid by (simp add: add_evidence_result)
  with assms(1,2,4-7) show "on_vote X V st v = Some (st\<lparr>evidence_pool := fst (add_evidence (evidence_pool st) e)\<rparr>,
      Inr (if e \<in> evidence_items (evidence_pool st) then [] else [BroadcastEvidence e]))"
    by (simp add: on_vote_def Let_def verified_vote_def case_prod_unfold flip: e_def)
qed

context reliable_store
begin

lemma slash_effect:
  assumes "valid_evidence e" and "verified_vote X (vote_a e)" "verified_vote X (vote_b e)"
    and "ms_state (absm (sm_storage db)) = Some cs"
    and "cs_stakes cs (pk_address X (v_author (vote_a e))) = Some k"
  shows "\<exists>db'. slash_equivocation X V db e = Some db' \<and> absm (sm_storage db') = (absm (sm_storage db))
    \<lparr>ms_state := Some (slash_update (pk_address X (v_author (vote_a e))) (v_author (vote_a e)) k cs)\<rparr>"
proof -
  let ?cs = "slash_update (pk_address X (v_author (vote_a e))) (v_author (vote_a e)) k cs"
  obtain s' where s': "save_consensus_state V (sm_storage db) ?cs = Inr s'" using save_consensus_state_ok by blast
  have "sm_get_consensus_state V db = Inr (Some cs)"
    using get_consensus_state_eq assms(4) by (simp add: sm_get_consensus_state_def)
  moreover have "sm_save_consensus_state V db ?cs = Inr (db\<lparr>sm_storage := s'\<rparr>)"
    using s' by (simp add: sm_save_consensus_state_def)
  ultimately have "slash_equivocation X V db e = Some (db\<lparr>sm_storage := s'\<rparr>)"
    using assms by (simp add: slash_equivocation_def Let_def valid_evidence_def verified_vote_def)
  with save_consensus_state [OF s'] show ?thesis by simp
qed

end

lemma slash_update_stakes: "cs_stakes (slash_update a pk k cs) = (cs_stakes cs)(a \<mapsto> reduce_stake 1000 k)"
  by (simp add: slash_update_def drop_validator_def Let_def)

lemma slash_update_removed:
  "reduce_stake 1000 k < 2000 \<Longrightarrow> distinct (cs_committee cs) \<Longrightarrow> pk \<notin> set (cs_committee (slash_update a pk k cs))"
  by (simp add: slash_update_def drop_validator_def Let_def remove_first_eq_remove1)

end
