(* ===== verification/Voting_Properties.thy ===== *)
theory Voting_Properties
  imports Startup Voting Acceptance Equivocation Sample_Run
begin

text \<open>
  Votes: one per view for a node that does not propose; two for a proposer that then receives
  another block, and for one that proposes late; what double voting costs; and the overlap of
  two quorums.
\<close>

section \<open>One vote per view\<close>

text \<open>
  C4: along every run in which the node broadcasts no block of its own, its notarize votes for
  blocks are in strictly increasing views, all above the last voted view it started with: it
  votes for at most one block per view, also across a restart.
\<close>

theorem votes_once_per_view:
  assumes "run X V st acts st'" and "\<nexists>b. BroadcastBlock b \<in> set acts"
  shows "sorted_wrt (<) (map fst (block_votes acts)) \<and>
    (\<forall>(v, h) \<in> set (block_votes acts). last_voted_view st < v \<and> v \<le> last_voted_view st')"
  using run_votes [OF assms(1)] assms(2) by (simp add: proposes_def votes_above_def)

lemma peer_votes_run:
  obtains st0 st acts b where "sample_start [1] = Some st0"
    "run sample_lib (mem_impl sample_lib) st0 acts st" "\<nexists>b. BroadcastBlock b \<in> set acts"
    "block_votes acts = [(1, hash_block sample_lib b)]"
proof -
  have "case first_proposal of None \<Rightarrow> False | Some (st, st1, b, acts) \<Rightarrow>
    (case sample_events [1] [ProposalIn b, ProposalIn (b\<lparr>b_author := pk3\<rparr>)] of None \<Rightarrow> False
     | Some (st, acts) \<Rightarrow> block_votes acts = [(1, hash_block sample_lib b)] \<and>
         list_all (\<lambda>a. case a of BroadcastBlock _ \<Rightarrow> False | _ \<Rightarrow> True) acts)" by code_simp
  then obtain b where "case sample_events [1] [ProposalIn b, ProposalIn (b\<lparr>b_author := pk3\<rparr>)] of None \<Rightarrow> False
     | Some (st, acts) \<Rightarrow> block_votes acts = [(1, hash_block sample_lib b)] \<and>
         list_all (\<lambda>a. case a of BroadcastBlock _ \<Rightarrow> False | _ \<Rightarrow> True) acts"
    by (rule first_proposalE)
  then show ?thesis
  proof (rule sample_eventsE, elim conjE)
    fix st0 st acts
    assume s: "sample_start [1] = Some st0" "run sample_lib (mem_impl sample_lib) st0 acts st"
      "block_votes acts = [(1, hash_block sample_lib b)]"
      and l: "list_all (\<lambda>a. case a of BroadcastBlock _ \<Rightarrow> False | _ \<Rightarrow> True) acts"
    have "\<nexists>b. BroadcastBlock b \<in> set acts" using l by (force simp: list_all_iff)
    from that [OF s(1,2) this s(3)] show ?thesis .
  qed
qed

theorem votes_once_per_view_witness:
  "\<exists>st0 st acts h. sample_start [1] = Some st0 \<and> run sample_lib (mem_impl sample_lib) st0 acts st \<and>
    block_votes acts = [(1, h)] \<and> last_voted_view st0 < 1 \<and> 1 \<le> last_voted_view st"
proof (rule peer_votes_run)
  fix st0 st acts b
  assume s: "sample_start [1] = Some st0" and r: "run sample_lib (mem_impl sample_lib) st0 acts st"
    and n: "\<nexists>b. BroadcastBlock b \<in> set acts" and v: "block_votes acts = [(1, hash_block sample_lib b)]"
  from votes_once_per_view [OF r n] v have "last_voted_view st0 < 1 \<and> 1 \<le> last_voted_view st" by simp
  with s r v show ?thesis by blast
qed

text \<open>
  C35: the exception.  \<open>try_propose\<close> casts the proposer's notarize vote without recording the
  view as voted, so a proposer that then receives another valid block of the same view votes
  for that one too: two conflicting votes, the offence that is slashed.
\<close>

theorem proposer_votes_again:
  assumes "reliable_store V absm hb"
    and "try_propose X V st = Some (st1, Inr acts)" and "BroadcastBlock b \<in> set acts"
    and "validate_and_store_block X V st1 b' = Some (st2, Inr (True, []))"
    and "b_view b' = b_view b" and "last_voted_view st < b_view b"
    and "hash_block X b \<noteq> default_hash" "hash_block X b' \<noteq> default_hash"
  shows "(b_view b, hash_block X b) \<in> set (block_votes acts) \<and>
    (\<exists>st' acts'. on_proposal X V st1 b' = Some (st', Inr acts') \<and>
       (b_view b, hash_block X b') \<in> set (block_votes acts'))"
  using assms(2)
proof (cases rule: try_proposeE)
  case (proposed qc parent b0 b1 s')
  have "b1 = b" using assms(3) proposed by (auto simp: proposal_votes_def split: if_splits)
  note h = proposal_header [OF proposed(4,5)]
  have cv: "current_view st1 = b_view b" "last_voted_view st1 = last_voted_view st"
    using h(2) proposed \<open>b1 = b\<close> by (simp_all add: cleanup_proposed_txs_def)
  have "last_voted_view st2 = last_voted_view st1" using validate_last_voted [OF assms(4)] .
  with assms(5,6) cv obtain st' where "on_proposal X V st1 b' = Some (st', Inr (proposal_votes X st' b'))"
    using reliable_store.stored_votes [OF assms(1,4)] by auto
  then show ?thesis using assms(5,7,8) proposed \<open>b1 = b\<close> by auto
qed (use assms(3) in auto)

theorem proposer_votes_again_witness:
  "\<exists>st st1 b acts st' acts' h. sample_start [2] = Some st \<and>
    try_propose sample_lib (mem_impl sample_lib) st = Some (st1, Inr (BroadcastBlock b # acts)) \<and>
    on_proposal sample_lib (mem_impl sample_lib) st1 (b\<lparr>b_author := pk3\<rparr>) = Some (st', Inr acts') \<and>
    (1, hash_block sample_lib b) \<in> set (block_votes (BroadcastBlock b # acts)) \<and>
    (1, h) \<in> set (block_votes acts') \<and> h \<noteq> hash_block sample_lib b"
proof -
  have "case first_proposal of None \<Rightarrow> False | Some (st, st1, b, acts) \<Rightarrow>
    last_voted_view st = 0 \<and> b_view b = 1 \<and> hash_block sample_lib b \<noteq> default_hash \<and>
    hash_block sample_lib (b\<lparr>b_author := pk3\<rparr>) \<noteq> default_hash \<and>
    hash_block sample_lib (b\<lparr>b_author := pk3\<rparr>) \<noteq> hash_block sample_lib b \<and>
    (case validate_and_store_block sample_lib (mem_impl sample_lib) st1 (b\<lparr>b_author := pk3\<rparr>) of
       Some (st2, Inr p) \<Rightarrow> fst p \<and> snd p = [] | _ \<Rightarrow> False)" by code_simp
  then show ?thesis
  proof (rule first_proposalE, elim conjE)
    fix st st1 and b :: block and acts
    let ?b = "b\<lparr>b_author := pk3\<rparr>" let ?v = "validate_and_store_block sample_lib (mem_impl sample_lib) st1 ?b"
    assume s: "sample_start [2] = Some st"
      and p: "try_propose sample_lib (mem_impl sample_lib) st = Some (st1, Inr (BroadcastBlock b # acts))"
      and v: "last_voted_view st = 0" "b_view b = 1"
      and h: "hash_block sample_lib b \<noteq> default_hash" "hash_block sample_lib ?b \<noteq> default_hash"
        "hash_block sample_lib ?b \<noteq> hash_block sample_lib b"
      and c: "case ?v of Some (st2, Inr p) \<Rightarrow> fst p \<and> snd p = [] | _ \<Rightarrow> False"
    from c obtain st2 where st2: "?v = Some (st2, Inr (True, []))" by (rule storedE)
    have "b_view ?b = b_view b" "last_voted_view st < b_view b" "BroadcastBlock b \<in> set (BroadcastBlock b # acts)"
      using v by simp_all
    from proposer_votes_again [OF mem.reliable_store_axioms p this(3) st2 this(1,2) h(1,2)] s p h(3) v(2)
    show ?thesis by metis
  qed
qed

text \<open>
  C36: a second exception.  When votes complete a certificate of an old view and the node leads the
  view after it, it proposes there and sets its last voted view to that view, below the one it
  had: a node that has already voted in a later view votes again for the next valid block of
  that later view.
\<close>

theorem late_certificate_revotes:
  assumes "reliable_store V absm hb"
    and "on_vote X V st v = Some (st1, Inr acts)" and "BroadcastBlock b \<in> set acts"
    and "validate_and_store_block X V st1 b' = Some (st2, Inr (True, []))"
    and "v_view v + 1 < b_view b'" and "b_view b' \<le> last_voted_view st" and "current_view st1 \<le> b_view b'"
    and "hash_block X b' \<noteq> default_hash"
  shows "last_voted_view st1 < last_voted_view st \<and>
    (\<exists>st' acts'. on_proposal X V st1 b' = Some (st', Inr acts') \<and>
       (b_view b', hash_block X b') \<in> set (block_votes acts'))"
proof -
  have m: "last_voted_view st1 = v_view v + 1" using chained_mark(2) [OF assms(2,3)] .
  then have "last_voted_view st2 < b_view b'" using validate_last_voted [OF assms(4)] assms(5) by simp
  then obtain st' where "on_proposal X V st1 b' = Some (st', Inr (proposal_votes X st' b'))"
    using reliable_store.stored_votes [OF assms(1,4,7)] by auto
  with m assms(5,6,8) show ?thesis by auto
qed

text \<open>
  A node that leads view 4 votes in view 5 and then sees the timeout of view 3 certified.
\<close>

definition late_vote :: vote where
  "late_vote = sample_vote (PrivateKey [4]) Notarize 3 default_hash"

definition late_events :: "block \<Rightarrow> event list" where
  "late_events b = [ProposalIn (b\<lparr>b_view := 5\<rparr>), vote_in [2] Notarize 3 default_hash, vote_in [3] Notarize 3 default_hash]"

definition late_proposal :: "block \<Rightarrow> mem_storage simplex_state \<Rightarrow> bool" where
  "late_proposal b st =
     (case on_vote sample_lib (mem_impl sample_lib) st late_vote of None \<Rightarrow> False | Some (st1, r) \<Rightarrow>
        (case r of Inl _ \<Rightarrow> False | Inr acts \<Rightarrow>
           list_ex (\<lambda>a. case a of BroadcastBlock _ \<Rightarrow> True | _ \<Rightarrow> False) acts \<and> current_view st1 = 5 \<and>
           (case validate_and_store_block sample_lib (mem_impl sample_lib) st1 b of
              Some (st2, Inr q) \<Rightarrow> fst q \<and> snd q = [] | _ \<Rightarrow> False)))"

lemma late_proposalE:
  assumes "late_proposal b st"
  obtains st1 acts b4 st2 where "on_vote sample_lib (mem_impl sample_lib) st late_vote = Some (st1, Inr acts)"
    "BroadcastBlock b4 \<in> set acts" "current_view st1 = 5"
    "validate_and_store_block sample_lib (mem_impl sample_lib) st1 b = Some (st2, Inr (True, []))"
proof -
  from assms obtain st1 acts where on: "on_vote sample_lib (mem_impl sample_lib) st late_vote = Some (st1, Inr acts)"
    "list_ex (\<lambda>a. case a of BroadcastBlock _ \<Rightarrow> True | _ \<Rightarrow> False) acts" "current_view st1 = 5"
    "case validate_and_store_block sample_lib (mem_impl sample_lib) st1 b of Some (st2, Inr q) \<Rightarrow> fst q \<and> snd q = [] | _ \<Rightarrow> False"
    unfolding late_proposal_def by (elim case_optionE FalseE) (auto split: sum.splits)
  from on(2) obtain a where a: "a \<in> set acts" "case a of BroadcastBlock _ \<Rightarrow> True | _ \<Rightarrow> False" by (auto simp: list_ex_iff)
  from a(2) obtain b4 where "a = BroadcastBlock b4" by (simp split: consensus_action.splits)
  with a(1) have "BroadcastBlock b4 \<in> set acts" by simp
  moreover from on(4) obtain st2 where
    "validate_and_store_block sample_lib (mem_impl sample_lib) st1 b = Some (st2, Inr (True, []))" by (rule storedE)
  ultimately show ?thesis using that on(1,3) by blast
qed

theorem late_certificate_revotes_witness:
  "\<exists>st0 st acts0 h st1 acts b' st' acts'. sample_start [1] = Some st0 \<and>
    run sample_lib (mem_impl sample_lib) st0 acts0 st \<and> block_votes acts0 = [(5, h)] \<and>
    on_vote sample_lib (mem_impl sample_lib) st late_vote = Some (st1, Inr acts) \<and>
    on_proposal sample_lib (mem_impl sample_lib) st1 b' = Some (st', Inr acts') \<and>
    (5, hash_block sample_lib b') \<in> set (block_votes acts') \<and> hash_block sample_lib b' \<noteq> h"
proof -
  let ?X = sample_lib and ?V = "mem_impl sample_lib"
  have "case first_proposal of None \<Rightarrow> False | Some (p, p1, b, pacts) \<Rightarrow>
    (case sample_events [1] (late_events b) of None \<Rightarrow> False | Some (st, acts0) \<Rightarrow>
       block_votes acts0 = [(5, hash_block ?X (b\<lparr>b_view := 5\<rparr>))] \<and> last_voted_view st = 5 \<and>
       hash_block ?X (b\<lparr>b_view := 5, b_author := pk3\<rparr>) \<notin> {default_hash, hash_block ?X (b\<lparr>b_view := 5\<rparr>)} \<and>
       late_proposal (b\<lparr>b_view := 5, b_author := pk3\<rparr>) st)" by code_simp
  then obtain b where b: "case sample_events [1] (late_events b) of None \<Rightarrow> False | Some (st, acts0) \<Rightarrow>
       block_votes acts0 = [(5, hash_block ?X (b\<lparr>b_view := 5\<rparr>))] \<and> last_voted_view st = 5 \<and>
       hash_block ?X (b\<lparr>b_view := 5, b_author := pk3\<rparr>) \<notin> {default_hash, hash_block ?X (b\<lparr>b_view := 5\<rparr>)} \<and>
       late_proposal (b\<lparr>b_view := 5, b_author := pk3\<rparr>) st" by (rule first_proposalE)
  define b' where "b' = b\<lparr>b_view := 5, b_author := pk3\<rparr>"
  from b show ?thesis
  proof (rule sample_eventsE, fold b'_def, elim conjE late_proposalE)
    fix st0 st acts0 st1 acts b4 st2
    assume s: "sample_start [1] = Some st0" "run ?X ?V st0 acts0 st" "block_votes acts0 = [(5, hash_block ?X (b\<lparr>b_view := 5\<rparr>))]"
      and m: "last_voted_view st = 5" and h: "hash_block ?X b' \<notin> {default_hash, hash_block ?X (b\<lparr>b_view := 5\<rparr>)}"
      and on: "on_vote ?X ?V st late_vote = Some (st1, Inr acts)" "BroadcastBlock b4 \<in> set acts" "current_view st1 = 5"
        "validate_and_store_block ?X ?V st1 b' = Some (st2, Inr (True, []))"
    have w: "b_view b' = 5" "v_view late_vote + 1 < b_view b'" by (simp_all add: b'_def late_vote_def sample_vote_def)
    have "\<exists>st' acts'. on_proposal ?X ?V st1 b' = Some (st', Inr acts') \<and> (5, hash_block ?X b') \<in> set (block_votes acts')"
      using late_certificate_revotes [OF mem.reliable_store_axioms on(1,2,4) w(2)] m on(3) h w(1) by simp
    with s on(1) h show ?thesis by blast
  qed
qed

section \<open>Evidence and slashing\<close>

text \<open>
  C14: an equivocation is punished.  When a second vote of one author for another block of the
  same view arrives, the node broadcasts the pair as evidence unless it has it already and keeps
  it in its pool; executing that evidence against any store that does not fail takes 1000 from
  the author's stake, or all of it if it is less, leaves the other stakes alone, and removes
  the author from the committee when less than 2000 remains.
\<close>

theorem equivocation_is_slashed:
  assumes "reliable_store V absm hb" and "reachable X V' st"
    and "verify X (v_author v) (hash_bytes (v_block_hash v)) (v_signature v)" and "v_vote_type v = Notarize"
    and "map_of (votes_of (votes_received st) (v_view v)) (v_author v) = Some old"
    and "v_block_hash old \<noteq> v_block_hash v" "v_block_hash old \<noteq> default_hash" "v_block_hash v \<noteq> default_hash"
    and "ms_state (absm (sm_storage db)) = Some cs" and "distinct (cs_committee cs)"
    and "cs_stakes cs (pk_address X (v_author v)) = Some k"
  shows "\<exists>e st' acts' db'. on_vote X V' st v = Some (st', Inr acts') \<and>
    acts' = (if e \<in> evidence_items (evidence_pool st) then [] else [BroadcastEvidence e]) \<and>
    e \<in> evidence_items (evidence_pool st') \<and> slash_equivocation X V db e = Some db' \<and>
    stake_of (absm (sm_storage db')) = (stake_of (absm (sm_storage db)))
      (pk_address X (v_author v) := (if k < 1000 then 0 else k - 1000)) \<and>
    ((if k < 1000 then 0 else k - 1000) < 2000 \<longrightarrow>
       (\<exists>cs'. ms_state (absm (sm_storage db')) = Some cs' \<and> v_author v \<notin> set (cs_committee cs')))"
proof -
  let ?e = "\<lparr>vote_a = old, vote_b = v\<rparr>"
  have wf: "votes_wf X st" using assms(2) by (rule reachable_votes_wf)
  have ver: "verified_vote X v" using assms(3) by (simp add: verified_vote_def)
  note e = on_vote_equivocation [OF ver assms(4) wf assms(5-8)]
  obtain db' where "slash_equivocation X V db ?e = Some db'" and m: "absm (sm_storage db') = (absm (sm_storage db))
      \<lparr>ms_state := Some (slash_update (pk_address X (v_author v)) (v_author v) k cs)\<rparr>"
    using reliable_store.slash_effect [OF assms(1) e(3), of X db cs k] e(4,5) ver assms(9,11) by auto
  moreover have "stake_of (absm (sm_storage db')) = (stake_of (absm (sm_storage db)))
      (pk_address X (v_author v) := reduce_stake 1000 k)"
    using assms(9) by (auto simp: m stake_of_def slash_update_stakes)
  moreover have "reduce_stake 1000 k < 2000 \<Longrightarrow>
      \<exists>cs'. ms_state (absm (sm_storage db')) = Some cs' \<and> v_author v \<notin> set (cs_committee cs')"
    using slash_update_removed assms(10) by (auto simp: m)
  ultimately show ?thesis using e(1,2)
    by (intro exI [of _ ?e] exI conjI) (auto simp: reduce_stake_def)
qed

lemma first_vote:
  obtains st where "reachable sample_lib (mem_impl sample_lib) st"
    "map_of (votes_of (votes_received st) 3) pk1 = Some (sample_vote (PrivateKey [1]) Notarize 3 (Hash 8))"
proof -
  let ?v = "sample_vote (PrivateKey [1]) Notarize 3 (Hash 8)"
  have "case sample_events [1] [vote_in [1] Notarize 3 (Hash 8)] of None \<Rightarrow> False | Some (st, acts) \<Rightarrow>
    map_of (votes_of (votes_received st) 3) pk1 = Some ?v" by code_simp
  then show ?thesis
  proof (rule sample_eventsE)
    fix st0 st acts
    assume s: "sample_start [1] = Some st0" "run sample_lib (mem_impl sample_lib) st0 acts st"
      and m: "map_of (votes_of (votes_received st) 3) pk1 = Some ?v"
    from that [OF sample_reachable [OF s] m] show ?thesis .
  qed
qed

theorem equivocation_is_slashed_witness:
  "\<exists>st e st' acts' db'. reachable sample_lib (mem_impl sample_lib) st \<and>
    on_vote sample_lib (mem_impl sample_lib) st (sample_vote (PrivateKey [1]) Notarize 3 (Hash 9)) =
      Some (st', Inr acts') \<and> e \<in> evidence_items (evidence_pool st') \<and>
    slash_equivocation sample_lib (mem_impl sample_lib) sample_db e = Some db' \<and>
    stake_of (sm_storage db') (pk_address sample_lib pk1) = 1500 \<and>
    (\<exists>cs. ms_state (sm_storage db') = Some cs \<and> pk1 \<notin> set (cs_committee cs))"
proof (rule first_vote)
  fix st
  let ?v = "sample_vote (PrivateKey [1]) Notarize 3 (Hash 9)"
  assume r: "reachable sample_lib (mem_impl sample_lib) st"
    and m: "map_of (votes_of (votes_received st) 3) pk1 = Some (sample_vote (PrivateKey [1]) Notarize 3 (Hash 8))"
  have a: "v_author ?v = pk1" "v_view ?v = 3" by code_simp+
  have "verify sample_lib (v_author ?v) (hash_bytes (v_block_hash ?v)) (v_signature ?v)" "v_vote_type ?v = Notarize"
    by code_simp+
  note v = this
  have h: "v_block_hash (sample_vote (PrivateKey [1]) Notarize 3 (Hash 8)) \<noteq> v_block_hash ?v"
    "v_block_hash (sample_vote (PrivateKey [1]) Notarize 3 (Hash 8)) \<noteq> default_hash" "v_block_hash ?v \<noteq> default_hash"
    by code_simp+
  have s: "ms_state (sm_storage sample_db) = Some sample_state" by (simp add: sample_db_def sample_mem_def)
  have k: "distinct (cs_committee sample_state)" "cs_stakes sample_state (pk_address sample_lib pk1) = Some 2500"
    by code_simp+
  have m': "map_of (votes_of (votes_received st) (v_view ?v)) (v_author ?v) =
      Some (sample_vote (PrivateKey [1]) Notarize 3 (Hash 8))" unfolding a by (rule m)
  have "cs_stakes sample_state (pk_address sample_lib (v_author ?v)) = Some 2500" unfolding a by (rule k(2))
  from equivocation_is_slashed [OF mem.reliable_store_axioms [of sample_lib] r v m' h s k(1) this]
  obtain e st' acts' db' where 1: "on_vote sample_lib (mem_impl sample_lib) st ?v = Some (st', Inr acts')"
    "e \<in> evidence_items (evidence_pool st')" "slash_equivocation sample_lib (mem_impl sample_lib) sample_db e = Some db'"
    and 2: "stake_of (sm_storage db') = (stake_of (sm_storage sample_db))(pk_address sample_lib pk1 := 1500)"
      "\<exists>cs'. ms_state (sm_storage db') = Some cs' \<and> pk1 \<notin> set (cs_committee cs')"
    unfolding a by (auto simp del: split_paired_Ex)
  with r show ?thesis by (metis fun_upd_same)
qed

text \<open>
  C34: honest validators can be slashed.  The signature of a vote covers the block hash but not
  the view, so anyone who has two votes of a validator for different blocks, cast in whatever
  views (a vote and the empty vote of a later timeout will do), can write the view of one into
  the other.  Every node takes the pair into its evidence pool, and executing it takes 1000
  from the validator's stake, or all of it if it is less.
\<close>

theorem honest_votes_slashable:
  assumes "reliable_store V absm hb" and "v_author v2 = v_author v1" and "v_block_hash v2 \<noteq> v_block_hash v1"
    and "verify X (v_author v1) (hash_bytes (v_block_hash v1)) (v_signature v1)"
      "verify X (v_author v2) (hash_bytes (v_block_hash v2)) (v_signature v2)"
    and "ms_state (absm (sm_storage db)) = Some cs" and "cs_stakes cs (pk_address X (v_author v1)) = Some k"
    and "e = \<lparr>vote_a = v1, vote_b = v2\<lparr>v_view := v_view v1\<rparr>\<rparr>"
  shows "\<exists>st' db'. handle X V' st (EvidenceIn e) = Some (st', Inr []) \<and>
    e \<in> evidence_items (evidence_pool st') \<and> slash_equivocation X V db e = Some db' \<and>
    stake_of (absm (sm_storage db')) = (stake_of (absm (sm_storage db)))
      (pk_address X (v_author v1) := (if k < 1000 then 0 else k - 1000))"
proof -
  have valid: "valid_evidence e" using assms(2,3) by (simp add: valid_evidence_def assms(8))
  obtain db' where d: "slash_equivocation X V db e = Some db'" and m: "absm (sm_storage db') = (absm (sm_storage db))
      \<lparr>ms_state := Some (slash_update (pk_address X (v_author v1)) (v_author v1) k cs)\<rparr>"
    using reliable_store.slash_effect [OF assms(1) valid, of X db cs k] assms(4-7)
    by (auto simp: assms(8) verified_vote_def)
  have "stake_of (absm (sm_storage db')) = (stake_of (absm (sm_storage db)))
      (pk_address X (v_author v1) := reduce_stake 1000 k)"
    using assms(6) by (auto simp: m stake_of_def slash_update_stakes)
  moreover have "e \<in> evidence_items (fst (add_evidence (evidence_pool st) e))"
    using valid by (simp add: add_evidence_items)
  ultimately show ?thesis using d by (simp add: reduce_stake_def)
qed

theorem honest_votes_slashable_witness:
  "\<exists>st st' db' e. sample_start [1] = Some st \<and> vote_a e = sample_vote (PrivateKey [1]) Notarize 3 (Hash 8) \<and>
     vote_b e = (sample_vote (PrivateKey [1]) Notarize 5 (Hash 9))\<lparr>v_view := 3\<rparr> \<and>
     handle sample_lib (mem_impl sample_lib) st (EvidenceIn e) = Some (st', Inr []) \<and>
     slash_equivocation sample_lib (mem_impl sample_lib) sample_db e = Some db' \<and>
     stake_of (sm_storage db') (pk_address sample_lib pk1) = 1500"
proof -
  let ?v = "sample_vote (PrivateKey [1]) Notarize 3 (Hash 8)" and ?w = "sample_vote (PrivateKey [1]) Notarize 5 (Hash 9)"
  have "case sample_start [1] of None \<Rightarrow> False | Some _ \<Rightarrow> True" by code_simp
  then obtain st where s: "sample_start [1] = Some st" by (auto split: option.splits)
  have h: "v_author ?w = v_author ?v" "v_block_hash ?w \<noteq> v_block_hash ?v"
    "verify sample_lib (v_author ?v) (hash_bytes (v_block_hash ?v)) (v_signature ?v)"
    "verify sample_lib (v_author ?w) (hash_bytes (v_block_hash ?w)) (v_signature ?w)"
    by code_simp+
  have k: "cs_stakes sample_state (pk_address sample_lib (v_author ?v)) = Some 2500" by code_simp
  have m: "ms_state (sm_storage sample_db) = Some sample_state" by (simp add: sample_db_def sample_mem_def)
  have a: "v_author ?v = pk1" "v_view ?v = 3" by code_simp+
  from honest_votes_slashable [OF mem.reliable_store_axioms [of sample_lib] h m k refl, of "mem_impl sample_lib" st]
  obtain st' db' where
    1: "handle sample_lib (mem_impl sample_lib) st (EvidenceIn \<lparr>vote_a = ?v, vote_b = ?w\<lparr>v_view := 3\<rparr>\<rparr>) = Some (st', Inr [])"
      "slash_equivocation sample_lib (mem_impl sample_lib) sample_db \<lparr>vote_a = ?v, vote_b = ?w\<lparr>v_view := 3\<rparr>\<rparr> = Some db'"
    and "stake_of (sm_storage db') = (stake_of (sm_storage sample_db))(pk_address sample_lib pk1 := 1500)"
    unfolding a by (auto simp del: split_paired_Ex handle.simps)
  then have "stake_of (sm_storage db') (pk_address sample_lib pk1) = 1500" by simp
  with s 1 show ?thesis by (metis equivocation_evidence.select_convs(1,2))
qed

section \<open>Agreement\<close>

text \<open>
  Agreement, or proof of misbehaviour.  If two nodes with the same committee store
  certificates for the same view, whose signers are members, then more than a third of the
  committee has signed the blocks of both; so with at most a third faulty, the blocks are the
  same unless a correct member signed two blocks.
\<close>

theorem agreement_or_equivocation:
  assumes "iteration_ok X" and "blst_aggregate_ok X"
    and "chain_store V1 abs1 hb1" "reachable X V1 st1" "handle X V1 st1 ev1 = Some (st1', r1)"
      "ms_qcs (abs1 (ss_storage st1)) v = None" "ms_qcs (abs1 (ss_storage st1')) v = Some qc1"
    and "chain_store V2 abs2 hb2" "reachable X V2 st2" "handle X V2 st2 ev2 = Some (st2', r2)"
      "ms_qcs (abs2 (ss_storage st2)) v = None" "ms_qcs (abs2 (ss_storage st2')) v = Some qc2"
    and "committee st2 = committee st1"
    and "set (qc_signers qc1) \<subseteq> set (committee st1)" "set (qc_signers qc2) \<subseteq> set (committee st1)"
  shows "card (set (committee st1)) < 3 * card {pk \<in> set (committee st1).
    (\<exists>s. verify X pk (hash_bytes (qc_block_hash qc1)) s) \<and> (\<exists>s. verify X pk (hash_bytes (qc_block_hash qc2)) s)}"
proof -
  note q1 = chain_store.stored_is_certified(1,2) [OF assms(3,1,2) reachable_votes_wf [OF assms(4)] assms(5-7)]
  note q2 = chain_store.stored_is_certified(1,2) [OF assms(8,1,2) reachable_votes_wf [OF assms(9)] assms(10-12)]
  have card: "threshold st1 \<le> card (set (qc_signers qc1))" "threshold st1 \<le> card (set (qc_signers qc2))"
    using q1 q2 assms(13) by (simp_all add: certified_def distinct_card threshold_def)
  let ?both = "{pk \<in> set (committee st1). (\<exists>s. verify X pk (hash_bytes (qc_block_hash qc1)) s) \<and>
      (\<exists>s. verify X pk (hash_bytes (qc_block_hash qc2)) s)}"
  have "set (qc_signers qc1) \<inter> set (qc_signers qc2) \<subseteq> ?both"
    using q1 q2 assms(14) by (auto simp: certified_def)
  then have "card (set (qc_signers qc1) \<inter> set (qc_signers qc2)) \<le> card ?both"
    by (rule card_mono [rotated]) simp
  with bft.intersection [OF assms(14,15) card] show ?thesis by linarith
qed

lemma quorum_stepE:
  assumes "case sample_events [1] [vote_in a Notarize 1 h, vote_in b Notarize 1 h] of None \<Rightarrow> False
    | Some (st, acts) \<Rightarrow> committee st = cmt \<and> Option.is_none (ms_qcs (ss_storage st) 1) \<and>
      (case handle sample_lib (mem_impl sample_lib) st (vote_in c Notarize 1 h) of None \<Rightarrow> False
       | Some (st', r) \<Rightarrow> map_option qc_signers (ms_qcs (ss_storage st') 1) = Some sgs)"
  obtains st st' r qc where "reachable sample_lib (mem_impl sample_lib) st" "committee st = cmt"
    "handle sample_lib (mem_impl sample_lib) st (vote_in c Notarize 1 h) = Some (st', r)"
    "ms_qcs (ss_storage st) 1 = None" "ms_qcs (ss_storage st') 1 = Some qc" "qc_signers qc = sgs"
  using assms
proof (rule sample_eventsE, elim conjE)
  fix st0 st acts
  let ?h = "handle sample_lib (mem_impl sample_lib) st (vote_in c Notarize 1 h)"
  assume s: "sample_start [1] = Some st0" "run sample_lib (mem_impl sample_lib) st0 acts st"
    and c: "committee st = cmt" and n: "Option.is_none (ms_qcs (ss_storage st) 1)"
    and "case ?h of None \<Rightarrow> False | Some (st', r) \<Rightarrow> map_option qc_signers (ms_qcs (ss_storage st') 1) = Some sgs"
  then obtain st' r qc where h: "?h = Some (st', r)" "ms_qcs (ss_storage st') 1 = Some qc" "qc_signers qc = sgs"
    by (auto split: option.splits)
  have "ms_qcs (ss_storage st) 1 = None" using n by (cases "ms_qcs (ss_storage st) 1") simp_all
  from that [OF sample_reachable [OF s] c h(1) this h(2,3)] show ?thesis .
qed

theorem agreement_or_equivocation_witness:
  "4 < 3 * card {pk \<in> {pk1, pk2, pk3, pk4}. (\<exists>s. verify sample_lib pk (hash_bytes (Hash 8)) s) \<and>
    (\<exists>s. verify sample_lib pk (hash_bytes (Hash 9)) s)}"
proof -
  let ?V = "mem_impl sample_lib" let ?c = "[pk1, pk2, pk3, pk4]"
  have "case sample_events [1] [vote_in [1] Notarize 1 (Hash 8), vote_in [2] Notarize 1 (Hash 8)] of None \<Rightarrow> False
    | Some (st, acts) \<Rightarrow> committee st = ?c \<and> Option.is_none (ms_qcs (ss_storage st) 1) \<and>
      (case handle sample_lib ?V st (vote_in [3] Notarize 1 (Hash 8)) of None \<Rightarrow> False
       | Some (st', r) \<Rightarrow> map_option qc_signers (ms_qcs (ss_storage st') 1) = Some [pk1, pk2, pk3])" by code_simp
  then obtain st1 st1' r1 qc1 where 1: "reachable sample_lib ?V st1" "committee st1 = ?c"
    "handle sample_lib ?V st1 (vote_in [3] Notarize 1 (Hash 8)) = Some (st1', r1)"
    "ms_qcs (ss_storage st1) 1 = None" "ms_qcs (ss_storage st1') 1 = Some qc1" "qc_signers qc1 = [pk1, pk2, pk3]"
    by (rule quorum_stepE)
  have "case sample_events [1] [vote_in [2] Notarize 1 (Hash 9), vote_in [3] Notarize 1 (Hash 9)] of None \<Rightarrow> False
    | Some (st, acts) \<Rightarrow> committee st = ?c \<and> Option.is_none (ms_qcs (ss_storage st) 1) \<and>
      (case handle sample_lib ?V st (vote_in [4] Notarize 1 (Hash 9)) of None \<Rightarrow> False
       | Some (st', r) \<Rightarrow> map_option qc_signers (ms_qcs (ss_storage st') 1) = Some [pk2, pk3, pk4])" by code_simp
  then obtain st2 st2' r2 qc2 where 2: "reachable sample_lib ?V st2" "committee st2 = ?c"
    "handle sample_lib ?V st2 (vote_in [4] Notarize 1 (Hash 9)) = Some (st2', r2)"
    "ms_qcs (ss_storage st2) 1 = None" "ms_qcs (ss_storage st2') 1 = Some qc2" "qc_signers qc2 = [pk2, pk3, pk4]"
    by (rule quorum_stepE)
  have "card (set ?c) < 3 * card {pk \<in> set ?c. (\<exists>s. verify sample_lib pk (hash_bytes (qc_block_hash qc1)) s) \<and>
      (\<exists>s. verify sample_lib pk (hash_bytes (qc_block_hash qc2)) s)}"
    using agreement_or_equivocation [OF sample_iteration_ok sample_aggregate_ok
      mem.chain_store_axioms 1(1,3,4,5) mem.chain_store_axioms 2(1,3,4,5)] 1(2,6) 2(2,6) by simp
  moreover have "card (set ?c) = 4" by code_simp
  moreover have "qc_block_hash qc1 = Hash 8" "qc_block_hash qc2 = Hash 9"
    using mem.stored_block_hash [OF sample_iteration_ok sample_aggregate_ok reachable_votes_wf [OF 1(1)] 1(3) [unfolded vote_in_def] 1(4,5)]
      mem.stored_block_hash [OF sample_iteration_ok sample_aggregate_ok reachable_votes_wf [OF 2(1)] 2(3) [unfolded vote_in_def] 2(4,5)]
    by (simp_all add: sample_vote_def)
  ultimately show ?thesis by simp
qed

end
