(* ===== verification/Block_Sync.thy ===== *)
theory Block_Sync
  imports Consensus_Invariants
begin

text \<open>
  Synchronisation of missing blocks.  When a missing parent arrives, the orphans that waited
  for it are processed, and theirs in turn.  On a store whose operations do not fail the
  recursion consumes one entry of the orphan buffer per level, so the depth that
  \<open>on_block_response\<close> allows is never exhausted.
\<close>

lemma length_delete_less: "map_of m k = Some v \<Longrightarrow> length (AList.delete k m) < length m"
proof (induction m)
  case (Cons p m)
  have "length (AList.delete k m) \<le> length m" by (rule length_delete_le)
  with Cons show ?case by (cases p) (auto simp: le_imp_less_Suc)
qed simp

definition blocks_of :: "('s \<Rightarrow> mem_storage) \<Rightarrow> 's simplex_state \<Rightarrow> hash \<rightharpoonup> block" where
  "blocks_of absm st = ms_blocks (absm (ss_storage st))"

definition parent_stored :: "('s \<Rightarrow> mem_storage) \<Rightarrow> 's simplex_state \<Rightarrow> block \<Rightarrow> bool" where
  "parent_stored absm st b = (b_parent_hash b = default_hash \<or> b_parent_hash b \<in> dom (blocks_of absm st))"

text \<open>A later state: no more entries in the buffer, no fewer blocks.\<close>

definition synced_from :: "('s \<Rightarrow> mem_storage) \<Rightarrow> 's simplex_state \<Rightarrow> 's simplex_state \<Rightarrow> bool" where
  "synced_from absm st st' = (length (orphans st') \<le> length (orphans st) \<and>
     dom (blocks_of absm st) \<subseteq> dom (blocks_of absm st') \<and> orphans_wf st')"

lemma synced_from_trans: "synced_from absm a b \<Longrightarrow> synced_from absm b c \<Longrightarrow> synced_from absm a c"
  by (auto simp: synced_from_def)

lemma parent_stored_mono: "synced_from absm st st' \<Longrightarrow> parent_stored absm st b \<Longrightarrow> parent_stored absm st' b"
  by (auto simp: synced_from_def parent_stored_def)

context reliable_store
begin

lemma fast_forward_ledger:
  "fast_forward X V st vw = Some st' \<Longrightarrow> ledger (absm (ss_storage st')) = ledger (absm (ss_storage st))"
  by (auto simp: fast_forward_def split: if_splits dest: persist_ledger)

lemma accept_block_stores:
  assumes "accept_block X V st b = Some (st', Inr r)"
  shows "orphans st' = orphans st \<and> blocks_of absm st' = (blocks_of absm st)(hb b \<mapsto> b)"
  using assms
proof (cases rule: accept_blockE)
  case (stored st1 s')
  have "orphans st1 = orphans st" using stored(2) by (auto elim!: update_preferred_chainE)
  moreover have "blocks_of absm st1 = blocks_of absm st"
    using preferred_ledger [OF stored(2)] by (simp add: blocks_of_def ledger_def)
  ultimately show ?thesis using save_block [OF stored(3)] stored(4) by (simp add: blocks_of_def)
qed simp

lemma validate_stores:
  assumes "validate_and_store_block X V st b = Some (st', Inr (True, acts))" and "hb = hash_block X"
  shows "orphans st' = orphans st" "dom (blocks_of absm st) \<subseteq> dom (blocks_of absm st')"
    "hash_block X b \<in> dom (blocks_of absm st')"
proof -
  from assms(1) have "orphans st' = orphans st \<and> dom (blocks_of absm st) \<subseteq> dom (blocks_of absm st') \<and>
    hash_block X b \<in> dom (blocks_of absm st')"
  proof (cases rule: validate_and_store_blockE)
    case (known b')
    with get_block show ?thesis by (fastforce simp: blocks_of_def)
  next
    case (accepted eb)
    with accept_block_stores [OF accepted(6)] assms(2) show ?thesis by auto
  qed simp_all
  then show "orphans st' = orphans st" "dom (blocks_of absm st) \<subseteq> dom (blocks_of absm st')"
    "hash_block X b \<in> dom (blocks_of absm st')" by simp_all
qed

lemma not_orphaned:
  assumes "parent_stored absm st b"
  shows "validate_and_store_block X V st b \<noteq> Some (st', Inr (False, acts))"
proof
  assume "validate_and_store_block X V st b = Some (st', Inr (False, acts))"
  then show False
  proof (cases rule: validate_and_store_blockE)
    case orphan
    with assms get_block show False by (fastforce simp: parent_stored_def blocks_of_def)
  next
    case (accepted eb)
    then show False by (auto elim: accept_blockE)
  qed simp_all
qed

text \<open>The state in which the waiting orphans of a stored block are processed.\<close>

lemma nested_start:
  assumes "validate_and_store_block X V st b = Some (st1, Inr (True, []))"
    and "fast_forward X V st1 (b_view b) = Some st2" and "hb = hash_block X"
    and "map_of (orphans st2) (hash_block X b) = Some waiting" and "orphans_wf st"
  defines "st3 \<equiv> st2\<lparr>orphans := AList.delete (hash_block X b) (orphans st2)\<rparr>"
  shows "length (orphans st3) < length (orphans st)" "synced_from absm st st3"
    "\<And>w. w \<in> set waiting \<Longrightarrow> parent_stored absm st3 w"
proof -
  note v = validate_stores [OF assms(1,3)]
  have o: "orphans st2 = orphans st" using v(1) assms(2) by (auto elim!: fast_forwardE)
  have bl: "blocks_of absm st3 = blocks_of absm st1"
    using fast_forward_ledger [OF assms(2)] by (simp add: blocks_of_def ledger_def st3_def)
  show len: "length (orphans st3) < length (orphans st)"
    using length_delete_less [OF assms(4)] o by (simp add: st3_def)
  show "synced_from absm st st3"
    using len v(2) bl orph.unbuffer [OF assms(5), of "hash_block X b"] o
    by (auto simp: synced_from_def st3_def orphans_wf_def)
  have "\<forall>w \<in> set waiting. b_parent_hash w = hash_block X b"
    using assms(4,5) o unfolding orphans_wf_def by auto
  then show "\<And>w. w \<in> set waiting \<Longrightarrow> parent_stored absm st3 w"
    using v(3) bl by (simp add: parent_stored_def)
qed

lemma respond_orphans_synced:
  assumes "\<And>st b st' r. respond X V n st b = Some (Some (st', r)) \<Longrightarrow> orphans_wf st \<Longrightarrow>
      parent_stored absm st b \<Longrightarrow> synced_from absm st st'"
  shows "respond_orphans X V n st bs acts = Some (Some (st', acts')) \<Longrightarrow> orphans_wf st \<Longrightarrow>
    (\<And>b. b \<in> set bs \<Longrightarrow> parent_stored absm st b) \<Longrightarrow> synced_from absm st st'"
proof (induction bs arbitrary: st acts)
  case (Cons b bs)
  from Cons.prems(1) obtain st1 r1 where 1: "respond X V n st b = Some (Some (st1, r1))"
    "respond_orphans X V n st1 bs (case r1 of Inr a \<Rightarrow> acts @ a | Inl _ \<Rightarrow> acts) = Some (Some (st', acts'))"
    by (rule respond_orphans_ConsE)
  have s1: "synced_from absm st st1" using assms [OF 1(1)] Cons.prems(2,3) by simp
  have "synced_from absm st1 st'"
    using Cons.IH [OF 1(2)] s1 Cons.prems(3) parent_stored_mono [OF s1] by (simp add: synced_from_def)
  with s1 show ?case by (rule synced_from_trans)
qed (simp add: synced_from_def)

lemma respond_synced:
  assumes "hb = hash_block X"
  shows "respond X V n st b = Some (Some (st', r)) \<Longrightarrow> orphans_wf st \<Longrightarrow> parent_stored absm st b \<Longrightarrow>
    synced_from absm st st'"
proof (induction n arbitrary: st b st' r)
  case (Suc n)
  from Suc.prems(1) show ?case
  proof (cases rule: respondE)
    case orphan
    with not_orphaned [OF Suc.prems(3)] show ?thesis by blast
  next
    case (stored st1)
    note v = validate_stores [OF stored(1) assms]
    have "orphans st' = orphans st1" using stored(2) by (auto elim!: fast_forwardE)
    moreover have "blocks_of absm st' = blocks_of absm st1"
      using fast_forward_ledger [OF stored(2)] by (simp add: blocks_of_def ledger_def)
    ultimately show ?thesis using v Suc.prems(2) by (simp add: synced_from_def orphans_wf_def)
  next
    case (nested st1 st2 waiting acts)
    note s = nested_start [OF nested(1,2) assms nested(3) Suc.prems(2)]
    have "synced_from absm (st2\<lparr>orphans := AList.delete (hash_block X b) (orphans st2)\<rparr>) st'"
      by (rule respond_orphans_synced [OF Suc.IH nested(4)]) (use s in \<open>auto simp: synced_from_def\<close>)
    with s(2) show ?thesis by (rule synced_from_trans)
  qed (use Suc.prems in \<open>simp add: synced_from_def\<close>)
qed simp

text \<open>
  A depth greater than the number of buffered entries is never exhausted, so the bound of
  \<open>on_block_response\<close> does not cut the recursion off.
\<close>

lemma respond_orphans_enough:
  assumes "hb = hash_block X"
    and "\<And>st b. orphans_wf st \<Longrightarrow> length (orphans st) < n \<Longrightarrow> respond X V n st b \<noteq> None"
  shows "orphans_wf st \<Longrightarrow> length (orphans st) < n \<Longrightarrow> (\<And>b. b \<in> set bs \<Longrightarrow> parent_stored absm st b) \<Longrightarrow>
    respond_orphans X V n st bs acts \<noteq> None"
proof (induction bs arbitrary: st acts)
  case (Cons b bs)
  from assms(2) [OF Cons.prems(1,2), of b] obtain res where res: "respond X V n st b = Some res" by auto
  show ?case
  proof (cases res)
    case (Some p)
    obtain st1 r1 where p: "p = (st1, r1)" by (cases p)
    have s: "synced_from absm st st1"
      using respond_synced [OF assms(1) res [unfolded Some p]] Cons.prems by simp
    have "respond_orphans X V n st1 bs (case r1 of Inr a \<Rightarrow> acts @ a | Inl _ \<Rightarrow> acts) \<noteq> None"
      using s Cons.prems parent_stored_mono [OF s] by (intro Cons.IH) (auto simp: synced_from_def)
    then show ?thesis using res Some p by simp
  qed (simp add: res)
qed simp

lemma respond_enough:
  assumes "hb = hash_block X"
  shows "orphans_wf st \<Longrightarrow> length (orphans st) < n \<Longrightarrow> respond X V n st b \<noteq> None"
proof (induction n arbitrary: st b)
  case (Suc n)
  have nested: "respond_orphans X V n (st2\<lparr>orphans := AList.delete (hash_block X b) (orphans st2)\<rparr>) waiting acts \<noteq> None"
    if "validate_and_store_block X V st b = Some (st1, Inr (True, []))"
      "fast_forward X V st1 (b_view b) = Some st2" "map_of (orphans st2) (hash_block X b) = Some waiting"
    for st1 st2 waiting acts
  proof -
    note s = nested_start [OF that(1,2) assms that(3) Suc.prems(1)]
    show ?thesis
      by (rule respond_orphans_enough [OF assms Suc.IH])
         (use s Suc.prems in \<open>auto simp: synced_from_def\<close>)
  qed
  show ?case
  proof (cases "\<exists>st1 acts. validate_and_store_block X V st b = Some (st1, Inr (True, acts))")
    case True
    then obtain st1 acts where v: "validate_and_store_block X V st b = Some (st1, Inr (True, acts))" by blast
    moreover have "acts = []" using validate_InrD [OF v] by simp
    ultimately show ?thesis using nested
      by (cases "fast_forward X V st1 (b_view b)") (auto split: option.split)
  next
    case False
    then show ?thesis by (auto split: option.split sum.split)
  qed
qed simp

lemma respond_deep:
  assumes "hb = hash_block X" "orphans_wf st" "length (orphans st) < n"
  shows "respond X V n st b = Some (on_block_response X V st b)"
proof -
  from respond_enough [OF assms(1,2)] obtain res
    where res: "respond X V (Suc (length (orphans st))) st b = Some res" by blast
  from respond_mono [OF res, of n] assms(3) res show ?thesis
    by (simp add: on_block_response_def del: respond.simps)
qed

end

end
