(* ===== verification/Fees.thy ===== *)
theory Fees
  imports Consensus
begin

text \<open>
  The base fee of the next block, over the integers.  Within the range where the product does
  not wrap around, the computation on words is \<open>next_fee\<close>; it is the fee of EIP-1559 but for the
  smallest step: where EIP-1559 raises the fee by at least 1, the code may leave it.
\<close>

lemma unat_ucast_u64: "unat (ucast (w :: u64) :: u256) = unat w"
proof -
  have "unat w < 2 ^ 64" using unsigned_less [of w] by simp
  then show ?thesis by (simp add: unsigned_ucast_eq take_bit_nat_eq_self)
qed

lemma unat_fee_product:
  fixes f :: u256 and d :: u64
  assumes "unat f < 2 ^ 191"
  shows "unat (f * ucast d) = unat f * unat d" "unat f * unat d < 2 ^ 255"
proof -
  have "unat d < 2 ^ 64" using unsigned_less [of d] by simp
  with assms have lt: "unat f * unat d < 2 ^ 191 * 2 ^ 64" by (intro mult_strict_mono) auto
  then show "unat f * unat d < 2 ^ 255" by simp
  with lt show "unat (f * ucast d) = unat f * unat d"
    by (simp add: unat_word_ariths unat_ucast_u64)
qed

text \<open>The change of the fee, for a distance \<open>d\<close> of the gas from the target.\<close>

definition fee_delta :: "nat \<Rightarrow> nat \<Rightarrow> nat \<Rightarrow> nat" where
  "fee_delta f d target = f * d div target div 8"

definition next_fee :: "nat \<Rightarrow> nat \<Rightarrow> nat \<Rightarrow> nat" where
  "next_fee f gas target =
     (if target < gas then f + fee_delta f (gas - target) target
      else f - fee_delta f (target - gas) target)"

text \<open>The reference: the base fee of EIP-1559, whose increases are at least 1.\<close>

definition eip1559_fee :: "nat \<Rightarrow> nat \<Rightarrow> nat \<Rightarrow> nat" where
  "eip1559_fee f gas target =
     (if gas = target then f
      else if target < gas then f + max 1 (fee_delta f (gas - target) target)
      else f - fee_delta f (target - gas) target)"

lemma small_increase:
  assumes "0 < target"
  shows "fee_delta f d target = 0 \<longleftrightarrow> f * d < 8 * target"
  using assms by (simp add: fee_delta_def div_mult2_eq [symmetric] div_eq_0_iff mult.commute)

lemma next_fee_eip1559:
  assumes "0 < target"
  shows "next_fee f gas target =
    (if target < gas \<and> f * (gas - target) < 8 * target then f else eip1559_fee f gas target)"
  using small_increase [OF assms, of f "gas - target"]
  by (auto simp: next_fee_def eip1559_fee_def fee_delta_def max_def)

lemma unat_fee_delta:
  fixes f :: u256 and d target :: u64
  assumes "unat f < 2 ^ 191"
  shows "unat (f * ucast d div ucast target div 8) = fee_delta (unat f) (unat d) (unat target)"
  by (simp add: unat_div unat_fee_product [OF assms] unat_ucast_u64 fee_delta_def)

lemma fee_delta_le: "d \<le> target \<Longrightarrow> fee_delta f d target \<le> f div 8"
proof -
  assume "d \<le> target"
  then have "f * d div target \<le> f * target div target" by (intro div_le_mono mult_le_mono) auto
  also have "\<dots> \<le> f" by (cases "target = 0") auto
  finally show ?thesis unfolding fee_delta_def by (rule div_le_mono)
qed

lemma next_base_fee_nat:
  assumes "unat (b_base_fee_per_gas parent) < 2 ^ 191" and "limit div 2 \<noteq> 0"
  obtains r where "calculate_next_base_fee limit parent = Some r"
    "unat r = next_fee (unat (b_base_fee_per_gas parent)) (unat (b_gas_used parent)) (unat (limit div 2))"
proof -
  let ?f = "b_base_fee_per_gas parent" and ?g = "b_gas_used parent" and ?t = "limit div 2"
  consider (eq) "?g = ?t" | (gt) "?t < ?g" | (lt) "?g < ?t" by (rule linorder_cases)
  then show ?thesis
  proof cases
    case eq
    then show ?thesis by (intro that [of ?f]) (simp_all add: calculate_next_base_fee_def next_fee_def fee_delta_def)
  next
    case gt
    let ?d = "?f * ucast (?g - ?t) div ucast ?t div 8"
    have d: "unat ?d = fee_delta (unat ?f) (unat ?g - unat ?t) (unat ?t)"
      using unat_fee_delta [OF assms(1)] gt by (simp add: unat_sub less_imp_le)
    have "unat ?d \<le> unat ?f * unat (?g - ?t)"
      unfolding unat_fee_delta [OF assms(1)] fee_delta_def by (meson div_le_dividend order_trans)
    then have "unat ?f + unat ?d < 2 ^ 256" using assms(1) unat_fee_product(2) [OF assms(1), of "?g - ?t"] by simp
    then have "unat (?f + ?d) = unat ?f + unat ?d" by (simp add: unat_word_ariths)
    moreover have "unat ?t < unat ?g" using gt by (simp add: word_less_nat_alt)
    ultimately show ?thesis using gt assms(2) d
      by (intro that [of "?f + ?d"]) (auto simp: calculate_next_base_fee_def next_fee_def Let_def)
  next
    case lt
    let ?d = "?f * ucast (?t - ?g) div ucast ?t div 8"
    have d: "unat ?d = fee_delta (unat ?f) (unat ?t - unat ?g) (unat ?t)"
      using unat_fee_delta [OF assms(1)] lt by (simp add: unat_sub less_imp_le)
    have le: "unat ?d \<le> unat ?f" unfolding d by (rule order_trans [OF fee_delta_le]) auto
    then have "\<not> ?f < ?d" "unat (?f - ?d) = unat ?f - unat ?d"
      by (simp_all add: word_less_nat_alt unat_sub word_le_nat_alt)
    moreover have "\<not> unat ?t < unat ?g" "\<not> ?t < ?g" "?g \<noteq> ?t" using lt by (auto simp: word_less_nat_alt)
    ultimately show ?thesis using assms(2) d
      by (intro that [of "?f - ?d"]) (auto simp: calculate_next_base_fee_def next_fee_def Let_def)
  qed
qed

lemma next_fee_bounds:
  assumes "gas \<le> 2 * target"
  shows "f - f div 8 \<le> next_fee f gas target" "next_fee f gas target \<le> f + f div 8"
proof -
  have "fee_delta f (gas - target) target \<le> f div 8" "fee_delta f (target - gas) target \<le> f div 8"
    using assms by (auto intro!: fee_delta_le)
  then show "f - f div 8 \<le> next_fee f gas target" "next_fee f gas target \<le> f + f div 8"
    by (auto simp: next_fee_def)
qed

end
