(* ===== verification/Chain_Properties.thy ===== *)
theory Chain_Properties
  imports Startup Acceptance Block_Sync Fees Sample_Run
begin

text \<open>
  Properties of the chain a node builds: validation, errors, the orphan buffer, proposals that
  peers accept, the rotation of leaders and the base fee.
\<close>

section \<open>Validation and errors\<close>

text \<open>
  The checks of \<open>validate_and_store_block\<close>, as a specification.  The parent is stored, or the
  block names none (the default hash); the block names the node's committee; re-executing it on
  top of its parent's state gives the state and receipts roots it claims; its certificate
  verifies.
\<close>

definition valid_block ::
  "('x) exec_lib_scheme \<Rightarrow> 's storage_trait \<Rightarrow> ('s \<Rightarrow> mem_storage) \<Rightarrow> 's simplex_state \<Rightarrow> block \<Rightarrow> bool" where
  "valid_block X V absm st b =
     ((b_parent_hash b = default_hash \<or> ms_blocks (absm (ss_storage st)) (b_parent_hash b) \<noteq> None) \<and>
      b_committee_hash b = hash_committee X (committee st) \<and> verify_qc X (b_justify b) = Inr () \<and>
      (case execute_on_overlay X V st (b_parent_hash b) (b\<lparr>b_gas_used := 0\<rparr>) of
         Some (Inr eb) \<Rightarrow> b_state_root eb = b_state_root b \<and> b_receipts_root eb = b_receipts_root b
       | _ \<Rightarrow> False))"

lemma validate_valid:
  assumes "reliable_store V absm (hash_block X)" and "valid_block X V absm st b"
  shows "\<exists>st'. validate_and_store_block X V st b = Some (st', Inr (True, []))"
proof (cases "\<exists>b'. get_block V (ss_storage st) (hash_block X b) = Inr (Some b')")
  case True
  then show ?thesis by (auto simp: validate_and_store_block_def)
next
  case False
  have store: "evm_store V absm" using assms(1) by (simp add: reliable_store_def chain_store_def)
  obtain eb where e: "execute_on_overlay X V st (b_parent_hash b) (b\<lparr>b_gas_used := 0\<rparr>) = Some (Inr eb)"
    "b_state_root eb = b_state_root b" "b_receipts_root eb = b_receipts_root b"
    using assms(2) by (auto simp: valid_block_def split: option.splits sum.splits)
  obtain r where r: "get_block V (ss_storage st) (b_parent_hash b) = Inr r"
    using reliable_store.get_block_ok [OF assms(1)] by blast
  have "(if b_parent_hash b = default_hash then Some False
         else do { p \<leftarrow> unwrap (get_block V (ss_storage st) (b_parent_hash b)); Some (p = None) }) = Some False"
    using assms(2) r evm_store.get_block [OF store r] by (auto simp: valid_block_def)
  moreover have "b_committee_hash b = hash_committee X (committee st)" using assms(2) by (simp add: valid_block_def)
  ultimately have "validate_and_store_block X V st b = accept_block X V st b"
    using False e by (auto simp: validate_and_store_block_def split: sum.splits option.splits)
  moreover have "verify_qc X (b_justify b) = Inr ()" using assms(2) by (simp add: valid_block_def)
  ultimately show ?thesis using reliable_store.accept_returns [OF assms(1)] by simp
qed

text \<open>
  C7: \<open>validate_and_store_block\<close> newly accepts a block only when it passes the checks of
  \<open>valid_block\<close>: its parent is stored or it names no parent at all, it names the node's committee,
  its certificate verifies, and re-executing it on top of its parent's state gives the state and
  receipts roots it claims.  It is then stored, and its transactions have left the pool.  On a
  store that does not fail the checks are also sufficient.  They do not ask a block without a
  parent to be the first of the chain, so such a block is accepted at any view.
\<close>

theorem accepted_block_is_valid:
  assumes "chain_store V absm (hash_block X)"
    and "get_block V (ss_storage st) (hash_block X b) = Inr None" and "pools_wf X st"
  shows "(\<forall>st' acts. validate_and_store_block X V st b = Some (st', Inr (True, acts)) \<longrightarrow>
      valid_block X V absm st b \<and>
      ms_blocks (absm (ss_storage st')) = (ms_blocks (absm (ss_storage st)))(hash_block X b \<mapsto> b) \<and>
      (\<forall>tx \<in> set (b_payload b). hash_transaction X tx \<notin> pool_items (ss_tx_pool st'))) \<and>
    (reliable_store V absm (hash_block X) \<longrightarrow> valid_block X V absm st b \<longrightarrow>
      (\<exists>st'. validate_and_store_block X V st b = Some (st', Inr (True, []))))"
proof (rule conjI; intro allI impI)
  note C = assms(1)
  fix st' acts
  assume "validate_and_store_block X V st b = Some (st', Inr (True, acts))"
  then show "valid_block X V absm st b \<and>
      ms_blocks (absm (ss_storage st')) = (ms_blocks (absm (ss_storage st)))(hash_block X b \<mapsto> b) \<and>
      (\<forall>tx \<in> set (b_payload b). hash_transaction X tx \<notin> pool_items (ss_tx_pool st'))"
  proof (cases rule: validate_and_store_blockE)
    case (accepted eb)
    have p: "b_parent_hash b = default_hash \<or> ms_blocks (absm (ss_storage st)) (b_parent_hash b) \<noteq> None"
      using accepted(1) evm_store.get_block [OF chain_store.axioms(1) [OF C]] by fastforce
    from accepted(6) show ?thesis
    proof (cases rule: accept_blockE)
      case (stored st1 s')
      have "ms_blocks (absm (ss_storage st1)) = ms_blocks (absm (ss_storage st))"
        using chain_store.preferred_ledger [OF C stored(2)] by (simp add: ledger_def)
      then have m: "ms_blocks (absm (ss_storage st')) = (ms_blocks (absm (ss_storage st)))(hash_block X b \<mapsto> b)"
        using chain_store.save_block [OF C stored(3)] stored(4) by simp
      have "pools_wf X st1" using pool.preferred [OF assms(3) stored(2)] .
      then have "\<forall>tx \<in> set (b_payload b). hash_transaction X tx \<notin> pool_items (ss_tx_pool st')"
        using txp.removed_absent stored(4) by (auto simp: pools_wf_def)
      with accepted p m stored(1) show ?thesis by (simp add: valid_block_def)
    qed simp
  qed (use assms(2) in simp_all)
qed (rule validate_valid)

lemma peer_stores_first:
  obtains st st' b where "sample_start [1] = Some st" "get_block (mem_impl sample_lib) (ss_storage st) (hash_block sample_lib b) = Inr None"
    "validate_and_store_block sample_lib (mem_impl sample_lib) st b = Some (st', Inr (True, []))" "b_view b = 1"
proof -
  have "case first_proposal of None \<Rightarrow> False | Some (st0, st1, b, acts) \<Rightarrow>
    (case sample_start [1] of None \<Rightarrow> False | Some st \<Rightarrow>
       Option.is_none (ms_blocks (ss_storage st) (hash_block sample_lib b)) \<and> b_view b = 1 \<and>
       (case validate_and_store_block sample_lib (mem_impl sample_lib) st b of
          Some (st', Inr p) \<Rightarrow> fst p \<and> snd p = [] | _ \<Rightarrow> False))" by code_simp
  then obtain b where "case sample_start [1] of None \<Rightarrow> False | Some st \<Rightarrow>
       Option.is_none (ms_blocks (ss_storage st) (hash_block sample_lib b)) \<and> b_view b = 1 \<and>
       (case validate_and_store_block sample_lib (mem_impl sample_lib) st b of
          Some (st', Inr p) \<Rightarrow> fst p \<and> snd p = [] | _ \<Rightarrow> False)"
    by (rule first_proposalE)
  then obtain st where st: "sample_start [1] = Some st" "Option.is_none (ms_blocks (ss_storage st) (hash_block sample_lib b))"
    "b_view b = 1" "case validate_and_store_block sample_lib (mem_impl sample_lib) st b of
          Some (st', Inr p) \<Rightarrow> fst p \<and> snd p = [] | _ \<Rightarrow> False"
    by (cases "sample_start [1]") (simp_all only: option.case conj_assoc simp_thms)
  from st(4) obtain st' where "validate_and_store_block sample_lib (mem_impl sample_lib) st b = Some (st', Inr (True, []))"
    by (rule storedE)
  moreover have "ms_blocks (ss_storage st) (hash_block sample_lib b) = None"
    using st(2) by (cases "ms_blocks (ss_storage st) (hash_block sample_lib b)") simp_all
  ultimately show ?thesis using st(1,3) that by simp
qed

text \<open>A copy of a block that names no parent, for a later view.\<close>

definition new_root :: "block \<Rightarrow> block" where
  "new_root b = b\<lparr>b_parent_hash := default_hash, b_view := 5\<rparr>"

theorem accepted_block_is_valid_witness:
  "\<exists>st st' (b :: block) r. reachable sample_lib (mem_impl sample_lib) st \<and>
    ms_blocks (ss_storage st) (hash_block sample_lib b) = Some b \<and> b_view b = 1 \<and> b_parent_hash r = default_hash \<and> b_view r = 5 \<and>
    validate_and_store_block sample_lib (mem_impl sample_lib) st r = Some (st', Inr (True, [])) \<and>
    ms_blocks (ss_storage st') (hash_block sample_lib r) = Some r"
proof -
  let ?X = sample_lib and ?V = "mem_impl sample_lib"
  have "case first_proposal of None \<Rightarrow> False | Some (st0, st1, b, acts) \<Rightarrow>
    (case sample_events [1] [ProposalIn b] of None \<Rightarrow> False
     | Some (st, acts) \<Rightarrow> b_view b = 1 \<and> ms_blocks (ss_storage st) (hash_block ?X b) = Some b \<and>
         Option.is_none (ms_blocks (ss_storage st) (hash_block ?X (new_root b))) \<and>
         valid_block ?X ?V (\<lambda>m. m) st (new_root b))"
    by code_simp
  then obtain b where "case sample_events [1] [ProposalIn b] of None \<Rightarrow> False
     | Some (st, acts) \<Rightarrow> b_view b = 1 \<and> ms_blocks (ss_storage st) (hash_block ?X b) = Some b \<and>
         Option.is_none (ms_blocks (ss_storage st) (hash_block ?X (new_root b))) \<and>
         valid_block ?X ?V (\<lambda>m. m) st (new_root b)"
    by (rule first_proposalE)
  then show ?thesis
  proof (rule sample_eventsE, elim conjE)
    fix st0 st acts
    assume s: "sample_start [1] = Some st0" "run ?X ?V st0 acts st" and v: "b_view b = 1"
      and k: "ms_blocks (ss_storage st) (hash_block ?X b) = Some b"
      and n: "Option.is_none (ms_blocks (ss_storage st) (hash_block ?X (new_root b)))"
      and valid: "valid_block ?X ?V (\<lambda>m. m) st (new_root b)"
    have "pools_wf ?X st" using pool.keeps_run [OF s(2) start_pools [OF s(1) [unfolded sample_start_def] pool_wf_new]] .
    note a = accepted_block_is_valid [OF mem.chain_store_axioms _ this, of "new_root b"]
    have "get_block ?V (ss_storage st) (hash_block ?X (new_root b)) = Inr None"
      using n by (cases "ms_blocks (ss_storage st) (hash_block ?X (new_root b))") simp_all
    from a [OF this] valid mem.reliable_store_axioms obtain st' where r: "validate_and_store_block ?X ?V st (new_root b) = Some (st', Inr (True, []))"
      "ms_blocks (ss_storage st') = (ms_blocks (ss_storage st))(hash_block ?X (new_root b) \<mapsto> new_root b)" by blast
    have "b_parent_hash (new_root b) = default_hash" "b_view (new_root b) = 5" by (simp_all add: new_root_def)
    with sample_reachable [OF s] k v r show ?thesis by (metis fun_upd_same)
  qed
qed

text \<open>
  C31: a handler that returns an error has changed nothing: bad signatures, stale or invalid
  blocks and failed proposals leave the node as it was.
\<close>

theorem errors_change_nothing:
  assumes "handle X V st ev = Some (st', Inl e)"
  shows "st' = st"
proof (cases ev)
  case (VoteIn v)
  with assms have "on_vote X V st v = Some (st', Inl e)" by simp
  then show ?thesis
  proof (cases rule: on_voteE)
    case finalize
    from finalize(3) show ?thesis by (cases rule: on_finalize_voteE) simp_all
  next
    case quorum
    from quorum(4) show ?thesis by (cases rule: on_quorumE) simp_all
  qed simp_all
next
  case (ResponseIn b)
  with assms have "on_block_response X V st b = Some (st', Inl e)" by simp
  then have "respond X V (Suc (length (orphans st))) st b = Some (Some (st', Inl e))"
    by (rule on_block_responseD)
  then show ?thesis by (cases rule: respondE) simp_all
qed (use assms in \<open>auto simp: on_timeout_def on_block_request_def elim: try_proposeE on_proposalE
       split: if_splits sum.splits option.splits\<close>)

lemma bad_signature:
  "\<not> verify X (v_author v) (hash_bytes (v_block_hash v)) (v_signature v) \<Longrightarrow>
   on_vote X V st v = Some (st, Inl ConsensusInvalidSignature)"
  by (simp add: on_vote_def)

theorem errors_change_nothing_witness:
  "\<exists>st st' e. sample_start [1] = Some st \<and> handle sample_lib (mem_impl sample_lib) st
      (VoteIn ((sample_vote (PrivateKey [2]) Notarize 1 (Hash 8))\<lparr>v_signature := Signature []\<rparr>)) = Some (st', Inl e) \<and>
    st' = st"
proof -
  let ?v = "(sample_vote (PrivateKey [2]) Notarize 1 (Hash 8))\<lparr>v_signature := Signature []\<rparr>"
  have "case sample_start [1] of None \<Rightarrow> False | Some _ \<Rightarrow> True" by code_simp
  then obtain st where s: "sample_start [1] = Some st" by (auto split: option.splits)
  have "\<not> verify sample_lib (v_author ?v) (hash_bytes (v_block_hash ?v)) (v_signature ?v)" by code_simp
  then have "handle sample_lib (mem_impl sample_lib) st (VoteIn ?v) = Some (st, Inl ConsensusInvalidSignature)"
    unfolding handle.simps by (rule bad_signature)
  with s errors_change_nothing [OF this] show ?thesis by blast
qed

section \<open>The chain\<close>

text \<open>
  C21: in a store that starts without blocks, every block a node ever stores names no parent or
  a stored one: following parents from any stored block never meets a missing block.  Where the
  chain of parents ends is a block without a parent, and nothing makes that the genesis block
  (\<open>valid_block\<close> does not ask for it): the stored blocks form a forest.
\<close>

theorem stored_blocks_have_parents:
  assumes "chain_store V absm hb" and "new_simplex_state X V pk sk cmt s pool r el lim = Some st"
    and "ms_blocks (absm s) = Map.empty" and "run X V st acts st'"
    and "get_block V (ss_storage st') h = Inr (Some b)"
  shows "b_parent_hash b = default_hash \<or> b_parent_hash b \<in> dom (ms_blocks (absm (ss_storage st')))"
proof -
  have "chain_closed X absm st'"
    by (rule node_invariant.keeps_run [OF chain_closed_invariant [OF assms(1)] assms(4)])
       (rule chain_store.start_closed [OF assms(1-3)])
  moreover have "ms_blocks (absm (ss_storage st')) h = Some b"
    using evm_store.get_block [OF chain_store.axioms(1) [OF assms(1)] assms(5)] by simp
  ultimately show ?thesis unfolding chain_closed_def by blast
qed

theorem stored_blocks_have_parents_witness:
  "\<exists>st0 st acts b. sample_start [1] = Some st0 \<and> run sample_lib (mem_impl sample_lib) st0 acts st \<and>
    get_block (mem_impl sample_lib) (ss_storage st) (hash_block sample_lib b) = Inr (Some b) \<and>
    b_view b = 1 \<and> (b_parent_hash b = default_hash \<or> b_parent_hash b \<in> dom (ms_blocks (ss_storage st)))"
proof (rule peer_stores_first)
  fix st st' b
  assume s: "sample_start [1] = Some st" and v: "b_view b = 1"
    and n: "get_block (mem_impl sample_lib) (ss_storage st) (hash_block sample_lib b) = Inr None"
    and val: "validate_and_store_block sample_lib (mem_impl sample_lib) st b = Some (st', Inr (True, []))"
  have o: "map_of (orphans st') (hash_block sample_lib b) = None"
    using mem.validate_stores(1) [OF val refl] start_orphans [OF s [unfolded sample_start_def]] by simp
  obtain st2 where ff: "fast_forward sample_lib (mem_impl sample_lib) st' (b_view b) = Some st2"
    using mem.fast_forward_returns by blast
  then have o2: "map_of (orphans st2) (hash_block sample_lib b) = None" using o by (auto elim!: fast_forwardE)
  have "handle sample_lib (mem_impl sample_lib) st (ResponseIn b) = Some (st2, Inr [])"
    using val ff o2 by (simp add: on_block_response_def)
  then have r: "run sample_lib (mem_impl sample_lib) st ([] @ actions_of (Inr [])) st2"
    by (rule run.event [OF run.start])
  have "ms_blocks (ss_storage st') (hash_block sample_lib b) = Some b"
    using val n by (cases rule: validate_and_store_blockE)
       (auto dest!: mem.accept_block_stores simp: blocks_of_def)
  then have g: "get_block (mem_impl sample_lib) (ss_storage st2) (hash_block sample_lib b) = Inr (Some b)"
    using mem.fast_forward_ledger [OF ff] by (simp add: ledger_def)
  have "ms_blocks new_mem_storage = Map.empty" by (simp add: new_mem_storage_def)
  from stored_blocks_have_parents [OF mem.chain_store_axioms s [unfolded sample_start_def] this r g] s r g v
  show ?thesis by blast
qed

definition unbuffered :: "'s handled \<Rightarrow> bool" where
  "unbuffered res = (case res of Some (st', Inr acts) \<Rightarrow> orphans st' = [] | _ \<Rightarrow> False)"

lemma unbufferedE:
  assumes "unbuffered res"
  obtains st acts where "res = Some (st, Inr acts)" "orphans st = []"
proof (cases res)
  case (Some p)
  with assms that show ?thesis by (cases p; cases "snd p") (auto simp: unbuffered_def)
qed (use assms in \<open>simp add: unbuffered_def\<close>)

text \<open>
  C30: termination of block synchronisation.  \<open>on_block_response\<close> calls itself on the orphans
  that waited for the block, and on theirs.  In every reachable state a depth greater than the
  number of entries in the orphan buffer is never exhausted: \<open>respond\<close>, which reports running out
  of depth as \<open>None\<close>, returns, and what it returns is the result of \<open>on_block_response\<close>.
\<close>

theorem block_response_terminates:
  assumes "reliable_store V absm (hash_block X)" and "reachable X V st" and "length (orphans st) < n"
  shows "respond X V n st b = Some (on_block_response X V st b)"
  using assms(1) refl reachable_orphans_wf [OF assms(2)] assms(3) by (rule reliable_store.respond_deep)

theorem block_response_terminates_witness:
  "\<exists>st b st' acts. reachable sample_lib (mem_impl sample_lib) st \<and> length (orphans st) = 1 \<and>
    respond sample_lib (mem_impl sample_lib) 1 st b = None \<and>
    respond sample_lib (mem_impl sample_lib) 2 st b = Some (Some (st', Inr acts)) \<and> orphans st' = []"
proof -
  have "case first_proposal of None \<Rightarrow> False | Some (st0, st1, b, acts) \<Rightarrow>
    (case sample_events [1] [ProposalIn (b\<lparr>b_parent_hash := hash_block sample_lib b\<rparr>)] of None \<Rightarrow> False
     | Some (st, acts) \<Rightarrow> length (orphans st) = 1 \<and>
        Option.is_none (respond sample_lib (mem_impl sample_lib) 1 st b) \<and>
        unbuffered (on_block_response sample_lib (mem_impl sample_lib) st b))" by code_simp
  then obtain b where "case sample_events [1] [ProposalIn (b\<lparr>b_parent_hash := hash_block sample_lib b\<rparr>)] of None \<Rightarrow> False
     | Some (st, acts) \<Rightarrow> length (orphans st) = 1 \<and>
        Option.is_none (respond sample_lib (mem_impl sample_lib) 1 st b) \<and>
        unbuffered (on_block_response sample_lib (mem_impl sample_lib) st b)"
    by (rule first_proposalE)
  then show ?thesis
  proof (rule sample_eventsE, elim conjE)
    fix st0 st acts
    assume s: "sample_start [1] = Some st0" "run sample_lib (mem_impl sample_lib) st0 acts st"
      and l: "length (orphans st) = 1" and n: "Option.is_none (respond sample_lib (mem_impl sample_lib) 1 st b)"
      and u: "unbuffered (on_block_response sample_lib (mem_impl sample_lib) st b)"
    note r = sample_reachable [OF s]
    have "respond sample_lib (mem_impl sample_lib) 2 st b = Some (on_block_response sample_lib (mem_impl sample_lib) st b)"
      using block_response_terminates [OF mem.reliable_store_axioms r] l by simp
    moreover have "respond sample_lib (mem_impl sample_lib) 1 st b = None" using n by (simp only: Option.is_none_def)
    moreover from u obtain st' acts' where "on_block_response sample_lib (mem_impl sample_lib) st b = Some (st', Inr acts')"
      "orphans st' = []" by (rule unbufferedE)
    ultimately show ?thesis using r l by metis
  qed
qed

section \<open>Liveness\<close>

text \<open>
  The block a leader proposes is accepted by every peer that has the same store, committee
  and gas limit, has not passed that view and has not voted in it: the peer re-executes it to the
  same roots, stores it, casts exactly the votes for it and records the view as voted.  The
  store does not fail and the certificate the leader builds on verifies.
\<close>

theorem proposal_accepted_by_peers:
  assumes "reliable_store V absm hb" and "try_propose X V st = Some (st1, Inr acts)"
    and "BroadcastBlock b \<in> set acts" and "verify_qc X (b_justify b) = Inr ()"
    and "ss_storage peer = ss_storage st" "committee peer = committee st"
      "ss_block_gas_limit peer = ss_block_gas_limit st"
    and "current_view peer \<le> b_view b" "last_voted_view peer < b_view b"
  shows "\<exists>st'. on_proposal X V peer b = Some (st', Inr (proposal_votes X st' b)) \<and>
    my_id st' = my_id peer \<and> last_voted_view st' = b_view b \<and> b_view b \<le> current_view st'"
  using reliable_store.peer_votes [OF assms(1-4)] assms(5-9) by (simp add: same_chain_def) blast

theorem proposal_accepted_by_peers_witness:
  "\<exists>peer b st'. sample_start [1] = Some peer \<and>
    on_proposal sample_lib (mem_impl sample_lib) peer b = Some (st', Inr (proposal_votes sample_lib st' b)) \<and>
    last_voted_view st' = 1"
proof -
  have "case first_proposal of None \<Rightarrow> False | Some (st, st1, b, acts) \<Rightarrow>
    verify_qc sample_lib (b_justify b) = Inr () \<and> b_view b = 1 \<and> current_view st = 1 \<and> last_voted_view st = 0"
    by code_simp
  then show ?thesis
  proof (rule first_proposalE, elim conjE)
    fix st st1 :: "mem_storage simplex_state" and b :: block and acts
    let ?peer = "st\<lparr>my_id := PublicKey [1], my_key := PrivateKey [1]\<rparr>"
    assume s: "sample_start [2] = Some st"
      and p: "try_propose sample_lib (mem_impl sample_lib) st = Some (st1, Inr (BroadcastBlock b # acts))"
      and q: "verify_qc sample_lib (b_justify b) = Inr ()" and v: "b_view b = 1" "current_view st = 1" "last_voted_view st = 0"
    have "sample_start [1] = Some ?peer" using start_as_other [OF s [unfolded sample_start_def]] unfolding sample_start_def .
    moreover have "\<exists>st'. on_proposal sample_lib (mem_impl sample_lib) ?peer b = Some (st', Inr (proposal_votes sample_lib st' b)) \<and>
      my_id st' = my_id ?peer \<and> last_voted_view st' = b_view b \<and> b_view b \<le> current_view st'"
      by (rule proposal_accepted_by_peers [OF mem.reliable_store_axioms p _ q]) (simp_all add: v)
    ultimately show ?thesis using v(1) by metis
  qed
qed

lemma unique_shift:
  fixes n k u :: nat
  assumes "k < n"
  shows "\<exists>!i. i < n \<and> (u + i) mod n = k"
proof -
  define m where "m = u mod n"
  have m: "m < n" using assms by (simp add: m_def)
  have shift: "(u + i) mod n = (m + i) mod n" for i by (simp add: m_def mod_simps)
  have "(m + i) mod n = (if m + i < n then m + i else m + i - n)" if "i < n" for i
    using that m by (simp add: mod_if)
  then have "i < n \<Longrightarrow> (u + i) mod n = k \<longleftrightarrow> i = (if m \<le> k then k - m else k + n - m)" for i
    using m assms by (auto simp: shift split: if_splits)
  moreover have "(if m \<le> k then k - m else k + n - m) < n" using m assms by auto
  ultimately show ?thesis by metis
qed

text \<open>
  The lead rotates.  In any \<open>n\<close> consecutive views, with \<open>n\<close> the size of a committee
  without duplicates that does not change, every member leads exactly once.  The views do not
  wrap around.
\<close>

theorem every_member_leads:
  assumes "distinct (committee st)" and "my_id st \<in> set (committee st)"
    and "unat v + length (committee st) \<le> 2 ^ 64"
  shows "\<exists>!i. i < length (committee st) \<and> is_leader st (v + of_nat i) = Some True"
proof -
  let ?n = "length (committee st)"
  obtain k where k: "k < ?n" "committee st ! k = my_id st" using assms(2) by (auto simp: in_set_conv_nth)
  have ne: "committee st \<noteq> []" using assms(2) by auto
  have lead: "is_leader st (v + of_nat i) = Some True \<longleftrightarrow> (unat v + i) mod ?n = k" if "i < ?n" for i
  proof -
    have "unat (v + of_nat i :: u64) = unat v + i"
      using that assms(3) by (simp add: unat_word_ariths unat_of_nat)
    moreover have "(unat v + i) mod ?n < ?n" using ne by (intro mod_less_divisor) simp
    ultimately show ?thesis using k ne nth_eq_iff_index_eq [OF assms(1), of "(unat v + i) mod ?n" k]
      by (simp add: is_leader_def)
  qed
  have "\<exists>!i. i < ?n \<and> (unat v + i) mod ?n = k" by (rule unique_shift [OF k(1)])
  then show ?thesis using lead by auto
qed

theorem every_member_leads_witness:
  "\<exists>st. sample_start [1] = Some st \<and> (\<exists>!i. i < 4 \<and> is_leader st (7 + of_nat i) = Some True)"
proof -
  have "case sample_start [1] of None \<Rightarrow> False | Some st \<Rightarrow>
    committee st = [pk1, pk2, pk3, pk4] \<and> my_id st = pk1" by code_simp
  then obtain st where s: "sample_start [1] = Some st" "committee st = [pk1, pk2, pk3, pk4]" "my_id st = pk1"
    by (auto split: option.splits)
  have "distinct [pk1, pk2, pk3, pk4]" by code_simp
  then have "distinct (committee st)" "my_id st \<in> set (committee st)" unfolding s by simp_all
  moreover have len: "length (committee st) = 4" by (simp add: s)
  then have "unat (7 :: u64) + length (committee st) \<le> 2 ^ 64" by simp
  ultimately have "\<exists>!i. i < length (committee st) \<and> is_leader st (7 + of_nat i) = Some True"
    by (rule every_member_leads)
  with s(1) show ?thesis unfolding len by blast
qed

section \<open>The base fee\<close>

text \<open>
  C26: the base fee after a parent block, for a gas limit of at least 2 and fees below \<open>2\<^sup>191\<close>, where
  the product on 256-bit words does not wrap around: with the target at half the limit, the fee
  moves by \<open>fee * distance / target / 8\<close>, rounded down at each division.  Compared with EIP-1559,
  which the code names: the result is the fee of EIP-1559, except when the gas is above the
  target and \<open>fee * distance < 8 * target\<close>.  Then EIP-1559 adds its smallest step of 1 and the
  code leaves the fee as it was.
\<close>

theorem base_fee_formula:
  assumes "unat (b_base_fee_per_gas parent) < 2 ^ 191" and "2 \<le> limit"
  shows "\<exists>r. calculate_next_base_fee limit parent = Some r \<and>
    (let f = unat (b_base_fee_per_gas parent); gas = unat (b_gas_used parent); target = unat limit div 2 in
     unat r = (if target < gas then f + f * (gas - target) div target div 8
               else f - f * (target - gas) div target div 8) \<and>
     (if target < gas \<and> f * (gas - target) < 8 * target
      then unat r = f \<and> eip1559_fee f gas target = f + 1
      else unat r = eip1559_fee f gas target))"
proof -
  let ?f = "unat (b_base_fee_per_gas parent)" and ?g = "unat (b_gas_used parent)" and ?t = "unat limit div 2"
  have l: "2 \<le> unat limit" using assms(2) by (simp add: word_le_nat_alt)
  then have t: "unat (limit div 2) \<noteq> 0" "unat (limit div 2) = ?t" by (simp_all add: unat_div)
  then have "limit div 2 \<noteq> 0" by auto
  from next_base_fee_nat [OF assms(1) this] obtain r where r: "calculate_next_base_fee limit parent = Some r"
    "unat r = next_fee ?f ?g ?t" using t(2) by metis
  have "0 < ?t" using t by simp
  note e = next_fee_eip1559 [OF this, of ?f ?g] small_increase [OF this, of ?f "?g - ?t"]
  have "unat r = (if ?t < ?g then ?f + ?f * (?g - ?t) div ?t div 8 else ?f - ?f * (?t - ?g) div ?t div 8)"
    unfolding r(2) next_fee_def fee_delta_def ..
  moreover have "if ?t < ?g \<and> ?f * (?g - ?t) < 8 * ?t then unat r = ?f \<and> eip1559_fee ?f ?g ?t = ?f + 1
      else unat r = eip1559_fee ?f ?g ?t"
    unfolding r(2) using e by (auto simp: eip1559_fee_def)
  ultimately show ?thesis using r(1) by (auto simp: Let_def)
qed

theorem base_fee_formula_witness:
  "(\<exists>r. calculate_next_base_fee 30000 ((sample_block [] [])\<lparr>b_gas_used := 30000, b_base_fee_per_gas := 80\<rparr>) = Some r \<and>
     unat r = 90 \<and> unat r = eip1559_fee 80 30000 15000) \<and>
   (\<exists>r. calculate_next_base_fee 30000 ((sample_block [] [])\<lparr>b_gas_used := 30000, b_base_fee_per_gas := 7\<rparr>) = Some r \<and>
     unat r = 7 \<and> eip1559_fee 7 30000 15000 = 8)"
proof -
  let ?p = "\<lambda>f. (sample_block [] [])\<lparr>b_gas_used := 30000, b_base_fee_per_gas := f\<rparr>"
  have "unat (b_base_fee_per_gas (?p 80)) < 2 ^ 191" "unat (b_base_fee_per_gas (?p 7)) < 2 ^ 191" by simp_all
  moreover have "(2 :: u64) \<le> 30000" by simp
  ultimately show ?thesis
    using base_fee_formula [of "?p 80" 30000] base_fee_formula [of "?p 7" 30000] by (simp add: Let_def)
qed

text \<open>
  C27: the base fee moves by at most an eighth per block when the parent stayed within the gas
  limit (of even size), and a fee below 8 never moves at all: unlike the EIP-1559 market there
  is no smallest step.
\<close>

theorem base_fee_bounds:
  assumes "unat (b_base_fee_per_gas parent) < 2 ^ 191" and "2 \<le> limit"
    and "unat (b_gas_used parent) \<le> 2 * (unat limit div 2)"
  shows "\<exists>r. calculate_next_base_fee limit parent = Some r \<and>
    (let f = unat (b_base_fee_per_gas parent) in
     f - f div 8 \<le> unat r \<and> unat r \<le> f + f div 8 \<and> (f < 8 \<longrightarrow> r = b_base_fee_per_gas parent))"
proof -
  have "2 \<le> unat limit" using assms(2) by (simp add: word_le_nat_alt)
  then have t: "unat (limit div 2) \<noteq> 0" "unat (limit div 2) = unat limit div 2" by (simp_all add: unat_div)
  then have "limit div 2 \<noteq> 0" by auto
  from next_base_fee_nat [OF assms(1) this] obtain r where r: "calculate_next_base_fee limit parent = Some r"
    "unat r = next_fee (unat (b_base_fee_per_gas parent)) (unat (b_gas_used parent)) (unat limit div 2)"
    using t(2) by metis
  note b = next_fee_bounds [OF assms(3), of "unat (b_base_fee_per_gas parent)", folded r(2)]
  have "r = b_base_fee_per_gas parent" if "unat (b_base_fee_per_gas parent) < 8"
    using that b by (simp add: word_unat_eq_iff)
  with r(1) b show ?thesis by (auto simp: Let_def)
qed

theorem base_fee_bounds_witness:
  "\<exists>r. calculate_next_base_fee 30000 ((sample_block [] [])\<lparr>b_gas_used := 30000, b_base_fee_per_gas := 7\<rparr>) = Some r \<and> r = 7"
proof -
  let ?p = "(sample_block [] [])\<lparr>b_gas_used := 30000, b_base_fee_per_gas := 7\<rparr>"
  have "unat (b_base_fee_per_gas ?p) < 2 ^ 191" "(2 :: u64) \<le> 30000"
    "unat (b_gas_used ?p) \<le> 2 * (unat (30000 :: u64) div 2)" by simp_all
  from base_fee_bounds [OF this] show ?thesis by (simp add: Let_def)
qed

end
