(* ===== verification/Network.thy ===== *)
theory Network
  imports Types
begin

text \<open>
  The model of \<open>src/src/network.rs\<close>: the messages a node gossips, their decoding, and the
  background task that drives the swarm.  The swarm of \<open>libp2p\<close> and \<open>serde_json\<close> are not part of
  the sources: they are the fields of the record \<open>net_lib\<close>.  The application and the task talk
  through two channels of capacity 100, whose senders wait while the channel is full.
\<close>

section \<open>Events and commands\<close>

datatype network_event =
    VoteReceived vote
  | EvidenceReceived equivocation_evidence
  | BlockReceived block
  | TransactionReceived transaction
  | SyncMessageReceived sync_message string
  | PeerConnected string

type_synonym multiaddr = string

datatype network_command =
    CommandBroadcastblock block
  | CommandBroadcastVote vote
  | CommandBroadcastEvidence equivocation_evidence
  | CommandBroadcastTransaction transaction
  | CommandBroadcastSync sync_message
  | CommandDial multiaddr

section \<open>The swarm and the codec\<close>

datatype swarm_event =
    NewListenAddr multiaddr
  | ConnectionEstablished string
  | OutgoingConnectionError string
  | MdnsDiscovered "(string \<times> multiaddr) list"
  | MdnsExpired "(string \<times> multiaddr) list"
  | GossipMessage "string option" bytes
  | OtherSwarmEvent

datatype publish_error = Duplicate | OtherPublishError string

record 'w net_lib =
  build_swarm :: "string + 'w"
  parse_multiaddr :: "string \<Rightarrow> string + multiaddr"
  listen_on :: "'w \<Rightarrow> multiaddr \<Rightarrow> string + 'w"
  subscribe :: "'w \<Rightarrow> string \<Rightarrow> string + 'w"
  publish :: "'w \<Rightarrow> string \<Rightarrow> bytes \<Rightarrow> publish_error + 'w"
  add_explicit_peer :: "'w \<Rightarrow> string \<Rightarrow> 'w"
  remove_explicit_peer :: "'w \<Rightarrow> string \<Rightarrow> 'w"
  swarm_dial :: "'w \<Rightarrow> multiaddr \<Rightarrow> string + 'w"
  to_vec_block :: "block \<Rightarrow> string + bytes"
  from_slice_block :: "bytes \<Rightarrow> string + block"
  to_vec_vote :: "vote \<Rightarrow> string + bytes"
  from_slice_vote :: "bytes \<Rightarrow> string + vote"
  to_vec_evidence :: "equivocation_evidence \<Rightarrow> string + bytes"
  from_slice_evidence :: "bytes \<Rightarrow> string + equivocation_evidence"
  to_vec_transaction :: "transaction \<Rightarrow> string + bytes"
  from_slice_transaction :: "bytes \<Rightarrow> string + transaction"
  to_vec_sync :: "sync_message \<Rightarrow> string + bytes"
  from_slice_sync :: "bytes \<Rightarrow> string + sync_message"

section \<open>Start of the network\<close>

fun decimal :: "nat \<Rightarrow> string" where
  "decimal n = (if n < 10 then [char_of (48 + n)] else decimal (n div 10) @ [char_of (48 + n mod 10)])"

declare decimal.simps [simp del]

definition new_network :: "'w net_lib \<Rightarrow> 16 word \<Rightarrow> string + 'w" where
  "new_network N port =
     and_then (build_swarm N)
      (\<lambda>swarm. and_then (parse_multiaddr N (''/ip4/127.0.0.1/tcp/'' @ decimal (unat port)))
      (\<lambda>addr. and_then (listen_on N swarm addr)
      (\<lambda>swarm. subscribe N swarm ''simplex-consensus'')))"

section \<open>Incoming messages\<close>

text \<open>The types are tried in the order of the source; a message that is none of them is dropped.\<close>

definition decode_message :: "'w net_lib \<Rightarrow> string option \<Rightarrow> bytes \<Rightarrow> network_event list" where
  "decode_message N source data =
     (case from_slice_block N data of
        Inr block \<Rightarrow> [BlockReceived block]
      | Inl _ \<Rightarrow>
     (case from_slice_vote N data of
        Inr vote \<Rightarrow> [VoteReceived vote]
      | Inl _ \<Rightarrow>
     (case from_slice_evidence N data of
        Inr evidence \<Rightarrow> [EvidenceReceived evidence]
      | Inl _ \<Rightarrow>
     (case from_slice_transaction N data of
        Inr tx \<Rightarrow> [TransactionReceived tx]
      | Inl _ \<Rightarrow>
     (case from_slice_sync N data of
        Inr msg \<Rightarrow> [SyncMessageReceived msg (case source of Some p \<Rightarrow> p | None \<Rightarrow> [])]
      | Inl _ \<Rightarrow> [])))))"

text \<open>
  The reaction of the task to the swarm: the next swarm, and the events to send, in order.  For a
  list of discovered peers the source alternates between the swarm and sending; nothing else
  touches the swarm while the task waits, so here the swarm is updated first.
\<close>

fun handle_swarm_event :: "'w net_lib \<Rightarrow> 'w \<Rightarrow> swarm_event \<Rightarrow> 'w \<times> network_event list" where
  "handle_swarm_event N swarm (NewListenAddr addr) = (swarm, [])"
| "handle_swarm_event N swarm (ConnectionEstablished peer) = (add_explicit_peer N swarm peer, [PeerConnected peer])"
| "handle_swarm_event N swarm (OutgoingConnectionError e) = (swarm, [])"
| "handle_swarm_event N swarm (MdnsDiscovered peers) =
     (foldl (\<lambda>w p. add_explicit_peer N w (fst p)) swarm peers, map (\<lambda>p. PeerConnected (fst p)) peers)"
| "handle_swarm_event N swarm (MdnsExpired peers) =
     (foldl (\<lambda>w p. remove_explicit_peer N w (fst p)) swarm peers, [])"
| "handle_swarm_event N swarm (GossipMessage source data) = (swarm, decode_message N source data)"
| "handle_swarm_event N swarm OtherSwarmEvent = (swarm, [])"

section \<open>Outgoing commands\<close>

text \<open>\<open>to_vec(..).unwrap()\<close> panics on an error; a failed publication or dial is only printed.\<close>

definition publish_data :: "'w net_lib \<Rightarrow> 'w \<Rightarrow> string + bytes \<Rightarrow> 'w option" where
  "publish_data N swarm encoded = do {
     data \<leftarrow> unwrap encoded;
     Some (case publish N swarm ''simplex-consensus'' data of Inr swarm' \<Rightarrow> swarm' | Inl _ \<Rightarrow> swarm)
   }"

fun encode_command :: "'w net_lib \<Rightarrow> network_command \<Rightarrow> (string + bytes) option" where
  "encode_command N (CommandBroadcastblock block) = Some (to_vec_block N block)"
| "encode_command N (CommandBroadcastVote vote) = Some (to_vec_vote N vote)"
| "encode_command N (CommandBroadcastEvidence evidence) = Some (to_vec_evidence N evidence)"
| "encode_command N (CommandBroadcastTransaction tx) = Some (to_vec_transaction N tx)"
| "encode_command N (CommandBroadcastSync msg) = Some (to_vec_sync N msg)"
| "encode_command N (CommandDial addr) = None"

definition handle_command :: "'w net_lib \<Rightarrow> 'w \<Rightarrow> network_command \<Rightarrow> 'w option" where
  "handle_command N swarm command =
     (case encode_command N command of
        Some encoded \<Rightarrow> publish_data N swarm encoded
      | None \<Rightarrow>
          (case command of
             CommandDial addr \<Rightarrow> Some (case swarm_dial N swarm addr of Inr swarm' \<Rightarrow> swarm' | Inl _ \<Rightarrow> swarm)
           | _ \<Rightarrow> Some swarm))"

text \<open>\<open>Network::dial\<close> queues a command only for an address that parses.\<close>

definition dial :: "'w net_lib \<Rightarrow> string \<Rightarrow> network_command list" where
  "dial N addr = (case parse_multiaddr N addr of Inr a \<Rightarrow> [CommandDial a] | Inl _ \<Rightarrow> [])"

section \<open>The two tasks and their channels\<close>

definition channel_capacity :: nat where
  "channel_capacity = 100"

text \<open>
  The methods of \<open>Network\<close> on the channel of the commands, which is \<^term>\<open>None\<close> while it is full
  and the caller waits, and on that of the events.
\<close>

definition send_command :: "network_command \<Rightarrow> network_command list \<Rightarrow> network_command list option" where
  "send_command c channel = (if length channel < channel_capacity then Some (channel @ [c]) else None)"

definition broadcast_block :: "block \<Rightarrow> network_command list \<Rightarrow> network_command list option" where
  "broadcast_block block = send_command (CommandBroadcastblock block)"

definition broadcast_vote :: "vote \<Rightarrow> network_command list \<Rightarrow> network_command list option" where
  "broadcast_vote vote = send_command (CommandBroadcastVote vote)"

definition broadcast_evidence :: "equivocation_evidence \<Rightarrow> network_command list \<Rightarrow> network_command list option" where
  "broadcast_evidence evidence = send_command (CommandBroadcastEvidence evidence)"

definition broadcast_sync :: "sync_message \<Rightarrow> network_command list \<Rightarrow> network_command list option" where
  "broadcast_sync msg = send_command (CommandBroadcastSync msg)"

definition broadcast_transaction :: "transaction \<Rightarrow> network_command list \<Rightarrow> network_command list option" where
  "broadcast_transaction tx = send_command (CommandBroadcastTransaction tx)"

definition next_event :: "network_event list \<Rightarrow> (network_event \<times> network_event list) option" where
  "next_event channel = (case channel of [] \<Rightarrow> None | ev # evs \<Rightarrow> Some (ev, evs))"

text \<open>The call that sends a given command.\<close>

fun perform :: "network_command \<Rightarrow> network_command list \<Rightarrow> network_command list option" where
  "perform (CommandBroadcastblock block) = broadcast_block block"
| "perform (CommandBroadcastVote vote) = broadcast_vote vote"
| "perform (CommandBroadcastEvidence evidence) = broadcast_evidence evidence"
| "perform (CommandBroadcastSync msg) = broadcast_sync msg"
| "perform (CommandBroadcastTransaction tx) = broadcast_transaction tx"
| "perform (CommandDial addr) = send_command (CommandDial addr)"

lemma perform_eq: "perform c channel = (if length channel < channel_capacity then Some (channel @ [c]) else None)"
  by (cases c) (simp_all add: send_command_def broadcast_block_def broadcast_vote_def broadcast_evidence_def
    broadcast_sync_def broadcast_transaction_def)

lemma next_event_eq [simp]: "next_event channel = Some (ev, evs) \<longleftrightarrow> channel = ev # evs"
  by (cases channel) (auto simp: next_event_def)

text \<open>
  \<open>task_pending\<close> are the events the background task has yet to send, \<open>main_pending\<close> the commands
  the application has yet to send; a sender waits while its channel is full.
\<close>

record ('w, 'm) net_state =
  net_swarm :: 'w
  net_events :: "network_event list"
  net_commands :: "network_command list"
  task_pending :: "network_event list"
  main_pending :: "network_command list"
  main_state :: 'm

definition net_start :: "'w \<Rightarrow> 'm \<Rightarrow> ('w, 'm) net_state" where
  "net_start w m =
     \<lparr> net_swarm = w, net_events = [], net_commands = [], task_pending = [], main_pending = [],
       main_state = m \<rparr>"

text \<open>
  \<open>react\<close> is the application: its next state and the commands it sends for an event; \<open>idle\<close> what
  it may do on its own, on a timer or for a request of its users.
\<close>

inductive net_step ::
  "'w net_lib \<Rightarrow> ('m \<Rightarrow> network_event \<Rightarrow> ('m \<times> network_command list) option) \<Rightarrow>
   ('m \<Rightarrow> 'm \<times> network_command list \<Rightarrow> bool) \<Rightarrow> ('w, 'm) net_state \<Rightarrow> ('w, 'm) net_state \<Rightarrow> bool"
  for N react idle where
  swarm: "task_pending st = [] \<Longrightarrow> handle_swarm_event N (net_swarm st) ev = (w, evs) \<Longrightarrow>
     net_step N react idle st (st\<lparr>net_swarm := w, task_pending := evs\<rparr>)"
| emit: "task_pending st = ev # evs \<Longrightarrow> length (net_events st) < channel_capacity \<Longrightarrow>
     net_step N react idle st (st\<lparr>net_events := net_events st @ [ev], task_pending := evs\<rparr>)"
| command: "task_pending st = [] \<Longrightarrow> net_commands st = c # cs \<Longrightarrow>
     handle_command N (net_swarm st) c = Some w \<Longrightarrow>
     net_step N react idle st (st\<lparr>net_swarm := w, net_commands := cs\<rparr>)"
| send: "main_pending st = c # cs \<Longrightarrow> perform c (net_commands st) = Some channel \<Longrightarrow>
     net_step N react idle st (st\<lparr>net_commands := channel, main_pending := cs\<rparr>)"
| receive: "main_pending st = [] \<Longrightarrow> next_event (net_events st) = Some (ev, evs) \<Longrightarrow>
     react (main_state st) ev = Some (m, cs) \<Longrightarrow>
     net_step N react idle st (st\<lparr>net_events := evs, main_state := m, main_pending := cs\<rparr>)"
| own: "main_pending st = [] \<Longrightarrow> idle (main_state st) (m, cs) \<Longrightarrow>
     net_step N react idle st (st\<lparr>main_state := m, main_pending := cs\<rparr>)"

inductive_cases net_stepE: "net_step N react idle st st'"

definition channels_bounded :: "('w, 'm) net_state \<Rightarrow> bool" where
  "channels_bounded st = (length (net_events st) \<le> channel_capacity \<and> length (net_commands st) \<le> channel_capacity)"

lemma net_step_bounded: "net_step N react idle st st' \<Longrightarrow> channels_bounded st \<Longrightarrow> channels_bounded st'"
  by (erule net_stepE) (auto simp: channels_bounded_def perform_eq split: if_splits)

lemma net_steps_bounded: "(net_step N react idle)\<^sup>*\<^sup>* st st' \<Longrightarrow> channels_bounded st \<Longrightarrow> channels_bounded st'"
  by (induction rule: rtranclp_induct) (auto intro: net_step_bounded)

text \<open>Both channels full and both tasks waiting to send: nothing can move any more.\<close>

definition deadlocked :: "('w, 'm) net_state \<Rightarrow> bool" where
  "deadlocked st = (task_pending st \<noteq> [] \<and> main_pending st \<noteq> [] \<and>
     length (net_events st) = channel_capacity \<and> length (net_commands st) = channel_capacity)"

lemma deadlocked_stuck: "deadlocked st \<Longrightarrow> \<not> net_step N react idle st st'"
  by (auto simp: deadlocked_def perform_eq elim!: net_stepE)

lemma progress:
  assumes "channels_bounded st" "\<not> deadlocked st" and react: "\<And>ev. react (main_state st) ev \<noteq> None"
  shows "\<exists>st'. net_step N react idle st st'"
proof (cases "task_pending st")
  case Nil
  obtain w evs where "handle_swarm_event N (net_swarm st) OtherSwarmEvent = (w, evs)" by simp
  from net_step.swarm [OF Nil this] show ?thesis by blast
next
  case (Cons ev evs)
  show ?thesis
  proof (cases "length (net_events st) < channel_capacity")
    case True
    from net_step.emit [OF Cons True] show ?thesis by blast
  next
    case False
    then obtain e es where e: "net_events st = e # es"
      by (cases "net_events st") (auto simp: channel_capacity_def)
    show ?thesis
    proof (cases "main_pending st")
      case Nil
      from react [of e] obtain m cs where "react (main_state st) e = Some (m, cs)" by auto
      from net_step.receive [where react = react, OF Nil _ this, of es N idle] e show ?thesis by auto
    next
      case (Cons c cs)
      with assms(1,2) False \<open>task_pending st = ev # evs\<close> have "perform c (net_commands st) = Some (net_commands st @ [c])"
        by (auto simp: channels_bounded_def deadlocked_def perform_eq)
      from net_step.send [OF Cons this] show ?thesis by blast
    qed
  qed
qed

section \<open>A flood of requests\<close>

text \<open>
  A peer repeats one message that makes the application send one command and keep its state.
  First the command channel fills, then the event channel.
\<close>

abbreviation net_steps where
  "net_steps N react idle \<equiv> (net_step N react idle)\<^sup>*\<^sup>*"

lemmas net_steps_trans [trans] = rtranclp_trans [of "net_step N react idle" for N react idle]

lemma net_arrive:
  assumes "handle_swarm_event N w se = (w, [ev])" and "length evs < channel_capacity"
  shows "net_steps N react idle (net_state.make w evs cs [] mp m) (net_state.make w (evs @ [ev]) cs [] mp m)"
proof -
  let ?s = "net_state.make w evs cs [] mp m" and ?t = "net_state.make w evs cs [ev] mp m"
  have "net_steps N react idle ?s ?t"
    using net_step.swarm [of ?s N se w "[ev]"] assms(1)
    by (intro r_into_rtranclp) (simp add: net_state.defs)
  also have "net_steps N react idle ?t (net_state.make w (evs @ [ev]) cs [] mp m)"
    using net_step.emit [of ?t ev "[]"] assms(2)
    by (intro r_into_rtranclp) (simp add: net_state.defs)
  finally show ?thesis .
qed

lemma net_answer:
  assumes "react m ev = Some (m, [c])" and "length cs < channel_capacity"
  shows "net_steps N react idle (net_state.make w (ev # evs) cs [] [] m) (net_state.make w evs (cs @ [c]) [] [] m)"
proof -
  let ?s = "net_state.make w (ev # evs) cs [] [] m" and ?t = "net_state.make w evs cs [] [c] m"
  have "net_steps N react idle ?s ?t"
    using net_step.receive [where react = react and st = ?s and ev = ev] assms(1)
    by (intro r_into_rtranclp) (simp add: net_state.defs)
  also have "net_steps N react idle ?t (net_state.make w evs (cs @ [c]) [] [] m)"
    using net_step.send [where st = ?t and c = c] assms(2)
    by (intro r_into_rtranclp) (simp add: net_state.defs perform_eq)
  finally show ?thesis .
qed

lemma commands_fill:
  assumes "handle_swarm_event N w se = (w, [ev])" and "react m ev = Some (m, [c])" and "k \<le> channel_capacity"
  shows "net_steps N react idle (net_state.make w [] [] [] [] m) (net_state.make w [] (replicate k c) [] [] m)"
  using assms(3)
proof (induction k)
  case (Suc k)
  have "net_steps N react idle (net_state.make w [] (replicate k c) [] [] m) (net_state.make w [ev] (replicate k c) [] [] m)"
    using net_arrive [OF assms(1), of "[]"] by (simp add: channel_capacity_def)
  also have "net_steps N react idle \<dots> (net_state.make w [] (replicate (Suc k) c) [] [] m)"
    using net_answer [where react = react and cs = "replicate k c" and evs = "[]", OF assms(2)] Suc.prems
    by (simp add: replicate_append_same)
  finally show ?case using Suc by (meson Suc_leD rtranclp_trans)
qed simp

lemma events_fill:
  assumes "handle_swarm_event N w se = (w, [ev])" and "k \<le> channel_capacity"
  shows "net_steps N react idle (net_state.make w [] cs [] mp m) (net_state.make w (replicate k ev) cs [] mp m)"
  using assms(2)
proof (induction k)
  case (Suc k)
  then have "net_steps N react idle (net_state.make w [] cs [] mp m) (net_state.make w (replicate k ev) cs [] mp m)"
    by simp
  also have "net_steps N react idle \<dots> (net_state.make w (replicate (Suc k) ev) cs [] mp m)"
    using net_arrive [OF assms(1), of "replicate k ev"] Suc.prems by (simp add: replicate_append_same)
  finally show ?case .
qed simp

lemma flood_deadlock:
  assumes "handle_swarm_event N w se = (w, [ev])" and "react m ev = Some (m, [c])"
  shows "\<exists>st. net_steps N react idle (net_start w m) st \<and> deadlocked st \<and>
    (\<forall>st'. \<not> net_step N react idle st st')"
proof -
  let ?cs = "replicate channel_capacity c" and ?es = "replicate channel_capacity ev"
  let ?t = "net_state.make w [ev] ?cs [] [] m" and ?u = "net_state.make w ?es ?cs [] [c] m"
  let ?d = "net_state.make w ?es ?cs [ev] [c] m"
  have "net_steps N react idle (net_state.make w [] [] [] [] m) (net_state.make w [] ?cs [] [] m)"
    by (rule commands_fill [where react = react, OF assms]) simp
  also have "net_steps N react idle \<dots> ?t"
    using net_arrive [OF assms(1), of "[]"] by (simp add: channel_capacity_def)
  also have "net_steps N react idle ?t (net_state.make w [] ?cs [] [c] m)"
    using net_step.receive [where react = react and st = ?t and ev = ev] assms(2)
    by (intro r_into_rtranclp) (simp add: net_state.defs)
  also have "net_steps N react idle \<dots> ?u" by (rule events_fill [OF assms(1)]) simp
  also have "net_steps N react idle ?u ?d"
    using net_step.swarm [of ?u N se w "[ev]"] assms(1)
    by (intro r_into_rtranclp) (simp add: net_state.defs)
  finally have "net_steps N react idle (net_state.make w [] [] [] [] m) ?d" .
  moreover have "deadlocked ?d" by (simp add: deadlocked_def net_state.defs)
  ultimately show ?thesis using deadlocked_stuck
    unfolding net_start_def net_state.make_def [symmetric] by blast
qed

section \<open>What the codec promises\<close>

text \<open>
  A serialized value parses back, and does not parse as one of the types that are tried before
  its own, whose fields it lacks.
\<close>

definition gossip_codec_ok :: "'w net_lib \<Rightarrow> bool" where
  "gossip_codec_ok N =
     ((\<forall>x bs. to_vec_block N x = Inr bs \<longrightarrow> from_slice_block N bs = Inr x) \<and>
      (\<forall>x bs. to_vec_vote N x = Inr bs \<longrightarrow> from_slice_vote N bs = Inr x \<and>
         isl (from_slice_block N bs)) \<and>
      (\<forall>x bs. to_vec_evidence N x = Inr bs \<longrightarrow> from_slice_evidence N bs = Inr x \<and>
         isl (from_slice_block N bs) \<and> isl (from_slice_vote N bs)) \<and>
      (\<forall>x bs. to_vec_transaction N x = Inr bs \<longrightarrow> from_slice_transaction N bs = Inr x \<and>
         isl (from_slice_block N bs) \<and> isl (from_slice_vote N bs) \<and> isl (from_slice_evidence N bs)) \<and>
      (\<forall>x bs. to_vec_sync N x = Inr bs \<longrightarrow> from_slice_sync N bs = Inr x \<and>
         isl (from_slice_block N bs) \<and> isl (from_slice_vote N bs) \<and> isl (from_slice_evidence N bs) \<and>
         isl (from_slice_transaction N bs)))"

text \<open>The event a command becomes at the peers.\<close>

fun event_of_command :: "string option \<Rightarrow> network_command \<Rightarrow> network_event option" where
  "event_of_command source (CommandBroadcastblock block) = Some (BlockReceived block)"
| "event_of_command source (CommandBroadcastVote vote) = Some (VoteReceived vote)"
| "event_of_command source (CommandBroadcastEvidence evidence) = Some (EvidenceReceived evidence)"
| "event_of_command source (CommandBroadcastTransaction tx) = Some (TransactionReceived tx)"
| "event_of_command source (CommandBroadcastSync msg) =
     Some (SyncMessageReceived msg (case source of Some p \<Rightarrow> p | None \<Rightarrow> []))"
| "event_of_command source (CommandDial addr) = None"

lemma decode_encoded:
  assumes "gossip_codec_ok N" and "encode_command N c = Some (Inr data)"
  shows "map Some (decode_message N source data) = [event_of_command source c]"
  using assms by (cases c) (fastforce simp: gossip_codec_ok_def decode_message_def split: sum.split)+

end
