(* ===== verification/Rpc.thy ===== *)
theory Rpc
  imports Executor
begin

text \<open>
  The model of \<open>src/src/rpc.rs\<close>, the JSON-RPC server of a node.  Its state is what the server
  shares with the node, the store, the transaction pool and the executor, its gas limit, and
  the transactions handed to the broadcast channel: \<open>send_transaction\<close> spawns a task that sends
  one, so they are listed in the order of the calls.  A handler returns a value or an error
  object; the arithmetic of \<open>suggest_base_fee\<close> may panic.
\<close>

section \<open>Requests, errors and state\<close>

record call_request =
  cr_from :: "address option"
  cr_to :: "address option"
  cr_gas :: "u64 option"
  cr_gas_price :: "u256 option"
  cr_value :: "u256 option"
  cr_data :: "bytes option"

text \<open>The message of an error object is a text followed by the debug form of its cause.\<close>

datatype rpc_cause = StorageCause storage_error | PoolCause pool_error | ExecutionCause execution_error

datatype rpc_error = ErrorObject int string rpc_cause

type_synonym 'a rpc_result = "rpc_error + 'a"

record 's ockham_rpc_impl =
  rpc_storage :: 's
  rpc_tx_pool :: tx_pool
  rpc_executor_root :: h256
  rpc_block_gas_limit :: u64
  rpc_broadcast :: "transaction list"

definition new_ockham_rpc_impl :: "'s \<Rightarrow> tx_pool \<Rightarrow> h256 \<Rightarrow> u64 \<Rightarrow> 's ockham_rpc_impl" where
  "new_ockham_rpc_impl s pool r limit =
     \<lparr> rpc_storage = s, rpc_tx_pool = pool, rpc_executor_root = r, rpc_block_gas_limit = limit,
       rpc_broadcast = [] \<rparr>"

definition storage_failure :: "string \<Rightarrow> storage_error + 'a \<Rightarrow> 'a rpc_result" where
  "storage_failure text r = map_err (\<lambda>e. ErrorObject (- 32000) text (StorageCause e)) r"

section \<open>Blocks and status\<close>

definition rpc_get_block_by_hash ::
  "'s storage_trait \<Rightarrow> 's ockham_rpc_impl \<Rightarrow> hash \<Rightarrow> block option rpc_result" where
  "rpc_get_block_by_hash V self h = storage_failure ''Storage error: '' (get_block V (rpc_storage self) h)"

definition rpc_get_latest_block ::
  "'s storage_trait \<Rightarrow> 's ockham_rpc_impl \<Rightarrow> block option rpc_result" where
  "rpc_get_latest_block V self =
     and_then (storage_failure ''Storage error: '' (get_consensus_state V (rpc_storage self)))
      (\<lambda>state. case state of
          Some s \<Rightarrow> storage_failure ''Storage error: '' (get_block V (rpc_storage self) (cs_preferred_block s))
        | None \<Rightarrow> Inr None)"

definition rpc_get_status ::
  "'s storage_trait \<Rightarrow> 's ockham_rpc_impl \<Rightarrow> consensus_state option rpc_result" where
  "rpc_get_status V self = storage_failure ''Storage error: '' (get_consensus_state V (rpc_storage self))"

section \<open>Transactions and accounts\<close>

definition rpc_send_transaction ::
  "('x) exec_lib_scheme \<Rightarrow> 's storage_trait \<Rightarrow> 's ockham_rpc_impl \<Rightarrow> transaction \<Rightarrow>
   's ockham_rpc_impl \<times> hash rpc_result" where
  "rpc_send_transaction X V self tx =
     (let h = hash_transaction X tx in
      case add_transaction X V (rpc_storage self) (rpc_tx_pool self) tx of
        (pool, Inl e) \<Rightarrow> (self\<lparr>rpc_tx_pool := pool\<rparr>, Inl (ErrorObject (- 32000) ''TxPool error: '' (PoolCause e)))
      | (pool, Inr _) \<Rightarrow>
          (self\<lparr>rpc_tx_pool := pool, rpc_broadcast := rpc_broadcast self @ [tx]\<rparr>, Inr h))"

definition rpc_get_balance ::
  "'s storage_trait \<Rightarrow> 's ockham_rpc_impl \<Rightarrow> address \<Rightarrow> u256 rpc_result" where
  "rpc_get_balance V self a =
     and_then (storage_failure ''Storage error: '' (get_account V (rpc_storage self) a))
      (\<lambda>account. Inr (case account of Some i \<Rightarrow> ai_balance i | None \<Rightarrow> 0))"

definition rpc_get_transaction_count ::
  "'s storage_trait \<Rightarrow> 's ockham_rpc_impl \<Rightarrow> address \<Rightarrow> u64 rpc_result" where
  "rpc_get_transaction_count V self a =
     and_then (storage_failure ''Storage error: '' (get_account V (rpc_storage self) a))
      (\<lambda>account. Inr (case account of Some i \<Rightarrow> ai_nonce i | None \<Rightarrow> 0))"

definition rpc_chain_id :: "u64 rpc_result" where
  "rpc_chain_id = Inr 1337"

section \<open>The suggested base fee\<close>

text \<open>\<open>U256\<close> arithmetic wraps around; a zero target divides by zero, a panic.\<close>

definition rpc_suggest_base_fee ::
  "'s storage_trait \<Rightarrow> 's ockham_rpc_impl \<Rightarrow> u256 rpc_result option" where
  "rpc_suggest_base_fee V self =
     (case get_consensus_state V (rpc_storage self) of
        Inl e \<Rightarrow> Some (storage_failure ''Storage error: '' (Inl e))
      | Inr None \<Rightarrow> Some (Inr (ucast INITIAL_BASE_FEE))
      | Inr (Some s) \<Rightarrow>
          (case get_block V (rpc_storage self) (cs_preferred_block s) of
             Inl e \<Rightarrow> Some (storage_failure ''Storage error: '' (Inl e))
           | Inr None \<Rightarrow> Some (Inr (ucast INITIAL_BASE_FEE))
           | Inr (Some block) \<Rightarrow>
               (let target_gas = rpc_block_gas_limit self div 2;
                    parent_gas_used = b_gas_used block;
                    parent_base_fee = b_base_fee_per_gas block
                in if parent_gas_used = target_gas then Some (Inr parent_base_fee)
                   else if target_gas = 0 then None
                   else if parent_gas_used > target_gas
                   then (let gas_used_delta = parent_gas_used - target_gas;
                             increase = parent_base_fee * ucast gas_used_delta div ucast target_gas div 8
                         in Some (Inr (parent_base_fee + increase)))
                   else (let gas_used_delta = target_gas - parent_gas_used;
                             decrease = parent_base_fee * ucast gas_used_delta div ucast target_gas div 8
                         in Some (Inr (if parent_base_fee < decrease then 0 else parent_base_fee - decrease))))))"

section \<open>Ephemeral execution\<close>

definition rpc_ephemeral ::
  "('x) exec_lib_scheme \<Rightarrow> 's storage_trait \<Rightarrow> 's ockham_rpc_impl \<Rightarrow> call_request \<Rightarrow> (u64 \<times> bytes) rpc_result" where
  "rpc_ephemeral X V self request =
     (let caller = (case cr_from request of Some a \<Rightarrow> a | None \<Rightarrow> 0);
          val = (case cr_value request of Some v \<Rightarrow> v | None \<Rightarrow> 0);
          data = (case cr_data request of Some d \<Rightarrow> d | None \<Rightarrow> []);
          gas = (case cr_gas request of Some g \<Rightarrow> g | None \<Rightarrow> rpc_block_gas_limit self)
      in map_err (\<lambda>e. ErrorObject (- 32000) ''Execution Error: '' (ExecutionCause e))
           (execute_ephemeral X V \<lparr> sm_root = rpc_executor_root self, sm_storage = rpc_storage self \<rparr>
              caller (cr_to request) val data gas))"

definition rpc_call ::
  "('x) exec_lib_scheme \<Rightarrow> 's storage_trait \<Rightarrow> 's ockham_rpc_impl \<Rightarrow> call_request \<Rightarrow> bytes rpc_result" where
  "rpc_call X V self request = and_then (rpc_ephemeral X V self request) (\<lambda>(_, output). Inr output)"

definition rpc_estimate_gas ::
  "('x) exec_lib_scheme \<Rightarrow> 's storage_trait \<Rightarrow> 's ockham_rpc_impl \<Rightarrow> call_request \<Rightarrow> u64 rpc_result" where
  "rpc_estimate_gas X V self request = and_then (rpc_ephemeral X V self request) (\<lambda>(gas_used, _). Inr gas_used)"

definition rpc_get_code ::
  "'s storage_trait \<Rightarrow> 's ockham_rpc_impl \<Rightarrow> address \<Rightarrow> bytes rpc_result" where
  "rpc_get_code V self a =
     and_then (storage_failure ''Storage Error: '' (get_account V (rpc_storage self) a))
      (\<lambda>account. case account of
          None \<Rightarrow> Inr []
        | Some info \<Rightarrow>
            (case ai_code info of
               Some code \<Rightarrow> Inr code
             | None \<Rightarrow>
                 (if ai_code_hash info \<noteq> default_hash
                  then and_then (storage_failure ''Storage Error: '' (get_code V (rpc_storage self) (ai_code_hash info)))
                        (\<lambda>code. Inr (case code of Some c \<Rightarrow> c | None \<Rightarrow> []))
                  else Inr [])))"

section \<open>Blocks by number\<close>

text \<open>
  \<open>u64::from_str_radix\<close> and \<open>str::parse\<close>: an optional plus sign, then at least one digit, and
  no overflow.
\<close>

definition char_digit :: "nat \<Rightarrow> char \<Rightarrow> nat option" where
  "char_digit radix c =
     (let n = of_char c :: nat;
          d = (if 48 \<le> n \<and> n \<le> 57 then n - 48
               else if 97 \<le> n \<and> n \<le> 122 then n - 87
               else if 65 \<le> n \<and> n \<le> 90 then n - 55 else radix)
      in if d < radix then Some d else None)"

fun parse_digits :: "nat \<Rightarrow> u64 \<Rightarrow> string \<Rightarrow> u64 option" where
  "parse_digits radix acc [] = Some acc"
| "parse_digits radix acc (c # cs) =
     (case char_digit radix c of
        None \<Rightarrow> None
      | Some d \<Rightarrow> (let n = unat acc * radix + d in
                   if n < 2 ^ 64 then parse_digits radix (of_nat n) cs else None))"

definition from_str_radix :: "nat \<Rightarrow> string \<Rightarrow> u64 option" where
  "from_str_radix radix s =
     (let body = (case s of c # cs \<Rightarrow> (if c = CHR ''+'' then cs else s) | [] \<Rightarrow> [])
      in if body = [] then None else parse_digits radix 0 body)"

definition view_of_number :: "string \<Rightarrow> view" where
  "view_of_number number =
     (case (case number of
              c1 # c2 # stripped \<Rightarrow>
                (if c1 = CHR ''0'' \<and> c2 = CHR ''x'' then from_str_radix 16 stripped
                 else from_str_radix 10 number)
            | _ \<Rightarrow> from_str_radix 10 number) of
        Some v \<Rightarrow> v
      | None \<Rightarrow> 0)"

definition block_of_view ::
  "'s storage_trait \<Rightarrow> 's ockham_rpc_impl \<Rightarrow> view \<Rightarrow> block option rpc_result" where
  "block_of_view V self vw =
     and_then (storage_failure '''' (get_qc V (rpc_storage self) vw))
      (\<lambda>found. case found of
          Some qc \<Rightarrow> storage_failure '''' (get_block V (rpc_storage self) (qc_block_hash qc))
        | None \<Rightarrow> Inr None)"

definition rpc_get_block_by_number ::
  "'s storage_trait \<Rightarrow> 's ockham_rpc_impl \<Rightarrow> string \<Rightarrow> block option rpc_result" where
  "rpc_get_block_by_number V self number =
     (case (if number = ''latest''
            then map_option cs_preferred_view (ok_flatten (get_consensus_state V (rpc_storage self)))
            else Some (view_of_number number)) of
        None \<Rightarrow> Inr None
      | Some vw \<Rightarrow> block_of_view V self vw)"

section \<open>The server\<close>

text \<open>
  The methods of the trait \<open>OckhamRpc\<close> and the values they return.  The block argument of a call
  is ignored, as in the source.
\<close>

datatype rpc_request =
    GetBlockByHash hash
  | GetLatestBlock
  | GetStatus
  | SendTransaction transaction
  | GetBalance address
  | GetTransactionCount address
  | ChainId
  | SuggestBaseFee
  | Call call_request "string option"
  | EstimateGas call_request "string option"
  | GetCode address "string option"
  | GetBlockByNumber string

datatype rpc_reply =
    BlockReply "block option"
  | StatusReply "consensus_state option"
  | HashReply hash
  | AmountReply u256
  | NumberReply u64
  | BytesReply bytes

definition reply :: "('a \<Rightarrow> rpc_reply) \<Rightarrow> 'a rpc_result \<Rightarrow> rpc_reply rpc_result" where
  "reply wrap r = (case r of Inl e \<Rightarrow> Inl e | Inr x \<Rightarrow> Inr (wrap x))"

fun serve ::
  "('x) exec_lib_scheme \<Rightarrow> 's storage_trait \<Rightarrow> 's ockham_rpc_impl \<Rightarrow> rpc_request \<Rightarrow>
   ('s ockham_rpc_impl \<times> rpc_reply rpc_result) option" where
  "serve X V self (GetBlockByHash h) = Some (self, reply BlockReply (rpc_get_block_by_hash V self h))"
| "serve X V self GetLatestBlock = Some (self, reply BlockReply (rpc_get_latest_block V self))"
| "serve X V self GetStatus = Some (self, reply StatusReply (rpc_get_status V self))"
| "serve X V self (SendTransaction tx) =
     (case rpc_send_transaction X V self tx of (self1, r) \<Rightarrow> Some (self1, reply HashReply r))"
| "serve X V self (GetBalance a) = Some (self, reply AmountReply (rpc_get_balance V self a))"
| "serve X V self (GetTransactionCount a) = Some (self, reply NumberReply (rpc_get_transaction_count V self a))"
| "serve X V self ChainId = Some (self, reply NumberReply rpc_chain_id)"
| "serve X V self SuggestBaseFee =
     map_option (\<lambda>r. (self, reply AmountReply r)) (rpc_suggest_base_fee V self)"
| "serve X V self (Call request _) = Some (self, reply BytesReply (rpc_call X V self request))"
| "serve X V self (EstimateGas request _) = Some (self, reply NumberReply (rpc_estimate_gas X V self request))"
| "serve X V self (GetCode a _) = Some (self, reply BytesReply (rpc_get_code V self a))"
| "serve X V self (GetBlockByNumber number) = Some (self, reply BlockReply (rpc_get_block_by_number V self number))"

text \<open>Only an accepted transaction changes the server: the pool and the broadcast channel get it.\<close>

definition accepted_txs :: "rpc_request \<Rightarrow> rpc_reply rpc_result \<Rightarrow> transaction list" where
  "accepted_txs req r = (case req of SendTransaction tx \<Rightarrow> (case r of Inr _ \<Rightarrow> [tx] | Inl _ \<Rightarrow> []) | _ \<Rightarrow> [])"

lemma serve_query:
  "serve X V self req = Some (impl, r) \<Longrightarrow> \<nexists>tx. req = SendTransaction tx \<Longrightarrow> impl = self \<and> accepted_txs req r = []"
  by (cases req) (auto simp: accepted_txs_def)

lemma serve_transaction:
  assumes "serve X V self (SendTransaction tx) = Some (impl, r)"
  shows "rpc_tx_pool impl = fst (add_transaction X V (rpc_storage self) (rpc_tx_pool self) tx)"
    "rpc_broadcast impl = rpc_broadcast self @ accepted_txs (SendTransaction tx) r"
  using assms by (auto simp: accepted_txs_def reply_def rpc_send_transaction_def Let_def split: prod.splits sum.splits)

section \<open>Numbers\<close>

text \<open>The value of a digit string, without bounds.\<close>

definition digits_value :: "nat \<Rightarrow> nat \<Rightarrow> nat list \<Rightarrow> nat" where
  "digits_value radix acc ds = foldl (\<lambda>a d. a * radix + d) acc ds"

lemma digits_value_ge: "1 \<le> radix \<Longrightarrow> acc \<le> digits_value radix acc ds"
proof (induction ds arbitrary: acc)
  case (Cons d ds)
  have "acc \<le> acc * radix + d" using Cons.prems by (cases radix) auto
  also have "\<dots> \<le> digits_value radix (acc * radix + d) ds" using Cons.prems by (rule Cons.IH)
  finally show ?case by (simp add: digits_value_def)
qed (simp add: digits_value_def)

lemma parse_digits_value:
  assumes "1 \<le> radix"
  shows "parse_digits radix acc s = Some v \<longleftrightarrow>
    (\<exists>ds. map (char_digit radix) s = map Some ds \<and> digits_value radix (unat acc) ds = unat v)"
proof (induction s arbitrary: acc)
  case Nil
  then show ?case by (auto simp: digits_value_def word_unat_eq_iff)
next
  case (Cons c s)
  show ?case
  proof (cases "char_digit radix c")
    case (Some d)
    let ?n = "unat acc * radix + d"
    have "(\<exists>ds. map (char_digit radix) (c # s) = map Some ds \<and> digits_value radix (unat acc) ds = unat v) \<longleftrightarrow>
        (\<exists>ds. map (char_digit radix) s = map Some ds \<and> digits_value radix ?n ds = unat v)"
      by (auto simp: Some digits_value_def Cons_eq_map_conv)
    moreover have "?n < 2 ^ 64" if "digits_value radix ?n ds = unat v" for ds
    proof -
      have "unat v < 2 ^ 64" using unsigned_less [of v] by simp
      then show ?thesis using digits_value_ge [OF assms, of ?n ds] that by linarith
    qed
    moreover have "unat (of_nat ?n :: u64) = ?n" if "?n < 2 ^ 64"
      using that by (simp only: unat_of_nat) (simp add: take_bit_nat_eq_self)
    ultimately show ?thesis using Cons.IH [of "of_nat ?n"] by (auto simp: Some Let_def simp del: of_nat_add of_nat_mult)
  qed (auto simp: Cons_eq_map_conv)
qed

end
