(* ===== verification/Redb.thy ===== *)
theory Redb
  imports Storage
begin

text \<open>
  The model of \<open>RedbStorage\<close> (\<open>src/src/storage.rs\<close>), the persistent store of a node.  The
  database engine \<open>redb\<close> and the codec \<open>bincode\<close> are not part of the sources: they are the
  fields of the record \<open>redb_lib\<close>.  A write opens a transaction, the table, serializes the value,
  inserts and commits; a failure anywhere drops the transaction, which leaves the database as
  it was, so a failing operation returns only its error.
\<close>

section \<open>The engine and the codec\<close>

datatype redb_table =
    TABLE_BLOCKS | TABLE_QCS | TABLE_META | TABLE_ACCOUNTS | TABLE_STORAGE | TABLE_CODE
  | TABLE_SMT_LEAVES | TABLE_SMT_BRANCHES

text \<open>The key types of the tables: byte arrays and slices, \<open>u64\<close> and \<open>&str\<close>.\<close>

datatype redb_key = KeyBytes bytes | KeyU64 u64 | KeyStr string

record ('d, 't, 'r) redb_lib =
  create_dir_all :: "string list \<Rightarrow> string + unit"
  database_create :: "string list \<Rightarrow> string + 'd"
  begin_write :: "'d \<Rightarrow> string + 't"
  open_table :: "'t \<Rightarrow> redb_table \<Rightarrow> string + 't"
  table_insert :: "'t \<Rightarrow> redb_table \<Rightarrow> redb_key \<Rightarrow> bytes \<Rightarrow> string + 't"
  txn_commit :: "'d \<Rightarrow> 't \<Rightarrow> string + 'd"
  begin_read :: "'d \<Rightarrow> string + 'r"
  open_table_ro :: "'r \<Rightarrow> redb_table \<Rightarrow> string + unit"
  table_get :: "'r \<Rightarrow> redb_table \<Rightarrow> redb_key \<Rightarrow> string + bytes option"
  ser_block :: "block \<Rightarrow> string + bytes"
  de_block :: "bytes \<Rightarrow> string + block"
  ser_qc :: "quorum_certificate \<Rightarrow> string + bytes"
  de_qc :: "bytes \<Rightarrow> string + quorum_certificate"
  ser_state :: "consensus_state \<Rightarrow> string + bytes"
  de_state :: "bytes \<Rightarrow> string + consensus_state"
  ser_account :: "account_info \<Rightarrow> string + bytes"
  de_account :: "bytes \<Rightarrow> string + account_info"
  ser_bytes :: "bytes \<Rightarrow> string + bytes"
  de_bytes :: "bytes \<Rightarrow> string + bytes"
  ser_u256 :: "u256 \<Rightarrow> string + bytes"
  de_u256 :: "bytes \<Rightarrow> string + u256"

section \<open>Operations\<close>

text \<open>
  \<open>RedbStorage::new\<close>.  A path is the list of its components; the empty path has no parent.
\<close>

fun open_tables :: "('d, 't, 'r) redb_lib \<Rightarrow> redb_table list \<Rightarrow> 't \<Rightarrow> storage_error + 't" where
  "open_tables R [] txn = Inr txn"
| "open_tables R (t # ts) txn = and_then (map_err TableError (open_table R txn t)) (open_tables R ts)"

definition all_tables :: "redb_table list" where
  "all_tables = [TABLE_BLOCKS, TABLE_QCS, TABLE_META, TABLE_ACCOUNTS, TABLE_STORAGE, TABLE_CODE,
     TABLE_SMT_LEAVES, TABLE_SMT_BRANCHES]"

definition new_redb_storage :: "('d, 't, 'r) redb_lib \<Rightarrow> string list \<Rightarrow> storage_error + 'd" where
  "new_redb_storage R path =
     and_then (if path = [] then Inr ()
               else map_err (\<lambda>e. CustomError (''Failed to create DB dir: '' @ e)) (create_dir_all R (butlast path)))
      (\<lambda>_. and_then (map_err DatabaseError (database_create R path))
      (\<lambda>db. and_then (map_err TransactionError (begin_write R db))
      (\<lambda>txn. and_then (open_tables R all_tables txn)
      (\<lambda>txn. map_err CommitError (txn_commit R db txn)))))"

text \<open>The common shape of the \<open>save_*\<close> and \<open>get_*\<close> methods.\<close>

definition redb_write ::
  "('d, 't, 'r) redb_lib \<Rightarrow> 'd \<Rightarrow> redb_table \<Rightarrow> redb_key \<Rightarrow> string + bytes \<Rightarrow> storage_error + 'd" where
  "redb_write R db t k encoded =
     and_then (map_err TransactionError (begin_write R db))
      (\<lambda>txn. and_then (map_err TableError (open_table R txn t))
      (\<lambda>txn. and_then (map_err SerializationError encoded)
      (\<lambda>val. and_then (map_err StorageError (table_insert R txn t k val))
      (\<lambda>txn. map_err CommitError (txn_commit R db txn)))))"

definition redb_read ::
  "('d, 't, 'r) redb_lib \<Rightarrow> 'd \<Rightarrow> redb_table \<Rightarrow> redb_key \<Rightarrow> (bytes \<Rightarrow> string + 'v) \<Rightarrow>
   storage_error + 'v option" where
  "redb_read R db t k decode =
     and_then (map_err TransactionError (begin_read R db))
      (\<lambda>txn. and_then (map_err TableError (open_table_ro R txn t))
      (\<lambda>_. and_then (map_err StorageError (table_get R txn t k))
      (\<lambda>found. case found of
          None \<Rightarrow> Inr None
        | Some val \<Rightarrow> and_then (map_err SerializationError (decode val)) (\<lambda>v. Inr (Some v)))))"

definition slot_key :: "address \<Rightarrow> u256 \<Rightarrow> bytes" where
  "slot_key a index = be_bytes 20 a @ be_bytes 32 index"

definition branch_key :: "u8 \<Rightarrow> hash \<Rightarrow> bytes" where
  "branch_key height node_key = height # hash_bytes node_key"

definition redb_save_block :: "('x) types_lib_scheme \<Rightarrow> ('d, 't, 'r) redb_lib \<Rightarrow> 'd \<Rightarrow> block \<Rightarrow> storage_error + 'd" where
  "redb_save_block X R db b =
     redb_write R db TABLE_BLOCKS (KeyBytes (hash_bytes (hash_block X b))) (ser_block R b)"

definition redb_get_block :: "('d, 't, 'r) redb_lib \<Rightarrow> 'd \<Rightarrow> hash \<Rightarrow> storage_error + block option" where
  "redb_get_block R db h = redb_read R db TABLE_BLOCKS (KeyBytes (hash_bytes h)) (de_block R)"

definition redb_save_qc :: "('d, 't, 'r) redb_lib \<Rightarrow> 'd \<Rightarrow> quorum_certificate \<Rightarrow> storage_error + 'd" where
  "redb_save_qc R db qc = redb_write R db TABLE_QCS (KeyU64 (qc_view qc)) (ser_qc R qc)"

definition redb_get_qc :: "('d, 't, 'r) redb_lib \<Rightarrow> 'd \<Rightarrow> view \<Rightarrow> storage_error + quorum_certificate option" where
  "redb_get_qc R db v = redb_read R db TABLE_QCS (KeyU64 v) (de_qc R)"

definition redb_save_consensus_state :: "('d, 't, 'r) redb_lib \<Rightarrow> 'd \<Rightarrow> consensus_state \<Rightarrow> storage_error + 'd" where
  "redb_save_consensus_state R db state =
     redb_write R db TABLE_META (KeyStr ''consensus_state'') (ser_state R state)"

definition redb_get_consensus_state :: "('d, 't, 'r) redb_lib \<Rightarrow> 'd \<Rightarrow> storage_error + consensus_state option" where
  "redb_get_consensus_state R db = redb_read R db TABLE_META (KeyStr ''consensus_state'') (de_state R)"

definition redb_get_account :: "('d, 't, 'r) redb_lib \<Rightarrow> 'd \<Rightarrow> address \<Rightarrow> storage_error + account_info option" where
  "redb_get_account R db a = redb_read R db TABLE_ACCOUNTS (KeyBytes (be_bytes 20 a)) (de_account R)"

definition redb_save_account :: "('d, 't, 'r) redb_lib \<Rightarrow> 'd \<Rightarrow> address \<Rightarrow> account_info \<Rightarrow> storage_error + 'd" where
  "redb_save_account R db a info =
     redb_write R db TABLE_ACCOUNTS (KeyBytes (be_bytes 20 a)) (ser_account R info)"

definition redb_get_code :: "('d, 't, 'r) redb_lib \<Rightarrow> 'd \<Rightarrow> hash \<Rightarrow> storage_error + bytes option" where
  "redb_get_code R db h = redb_read R db TABLE_CODE (KeyBytes (hash_bytes h)) (de_bytes R)"

definition redb_save_code :: "('d, 't, 'r) redb_lib \<Rightarrow> 'd \<Rightarrow> hash \<Rightarrow> bytes \<Rightarrow> storage_error + 'd" where
  "redb_save_code R db h code = redb_write R db TABLE_CODE (KeyBytes (hash_bytes h)) (ser_bytes R code)"

definition redb_get_storage :: "('d, 't, 'r) redb_lib \<Rightarrow> 'd \<Rightarrow> address \<Rightarrow> u256 \<Rightarrow> storage_error + u256" where
  "redb_get_storage R db a index =
     and_then (redb_read R db TABLE_STORAGE (KeyBytes (slot_key a index)) (de_u256 R))
      (\<lambda>found. Inr (case found of Some val \<Rightarrow> val | None \<Rightarrow> 0))"

definition redb_save_storage :: "('d, 't, 'r) redb_lib \<Rightarrow> 'd \<Rightarrow> address \<Rightarrow> u256 \<Rightarrow> u256 \<Rightarrow> storage_error + 'd" where
  "redb_save_storage R db a index val =
     redb_write R db TABLE_STORAGE (KeyBytes (slot_key a index)) (ser_u256 R val)"

definition redb_get_smt_branch :: "('d, 't, 'r) redb_lib \<Rightarrow> 'd \<Rightarrow> u8 \<Rightarrow> hash \<Rightarrow> storage_error + bytes option" where
  "redb_get_smt_branch R db height key =
     redb_read R db TABLE_SMT_BRANCHES (KeyBytes (branch_key height key)) Inr"

definition redb_save_smt_branch :: "('d, 't, 'r) redb_lib \<Rightarrow> 'd \<Rightarrow> u8 \<Rightarrow> hash \<Rightarrow> bytes \<Rightarrow> storage_error + 'd" where
  "redb_save_smt_branch R db height key node =
     redb_write R db TABLE_SMT_BRANCHES (KeyBytes (branch_key height key)) (Inr node)"

definition redb_get_smt_leaf :: "('d, 't, 'r) redb_lib \<Rightarrow> 'd \<Rightarrow> hash \<Rightarrow> storage_error + bytes option" where
  "redb_get_smt_leaf R db h = redb_read R db TABLE_SMT_LEAVES (KeyBytes (hash_bytes h)) Inr"

definition redb_save_smt_leaf :: "('d, 't, 'r) redb_lib \<Rightarrow> 'd \<Rightarrow> hash \<Rightarrow> bytes \<Rightarrow> storage_error + 'd" where
  "redb_save_smt_leaf R db h node = redb_write R db TABLE_SMT_LEAVES (KeyBytes (hash_bytes h)) (Inr node)"

definition redb_impl :: "('x) types_lib_scheme \<Rightarrow> ('d, 't, 'r) redb_lib \<Rightarrow> 'd storage_trait" where
  "redb_impl X R = \<lparr>
     save_block = redb_save_block X R,
     get_block = redb_get_block R,
     save_qc = redb_save_qc R,
     get_qc = redb_get_qc R,
     save_consensus_state = redb_save_consensus_state R,
     get_consensus_state = redb_get_consensus_state R,
     get_account = redb_get_account R,
     save_account = redb_save_account R,
     get_code = redb_get_code R,
     save_code = redb_save_code R,
     get_storage = redb_get_storage R,
     save_storage = redb_save_storage R,
     get_smt_branch = redb_get_smt_branch R,
     save_smt_branch = redb_save_smt_branch R,
     get_smt_leaf = redb_get_smt_leaf R,
     save_smt_leaf = redb_save_smt_leaf R \<rparr>"

lemmas redb_ops = redb_save_block_def
  redb_get_block_def
  redb_save_qc_def
  redb_get_qc_def
  redb_save_consensus_state_def
  redb_get_consensus_state_def
  redb_get_account_def
  redb_save_account_def
  redb_get_code_def
  redb_save_code_def
  redb_get_storage_def
  redb_save_storage_def
  redb_get_smt_branch_def
  redb_save_smt_branch_def
  redb_get_smt_leaf_def
  redb_save_smt_leaf_def

section \<open>What the engine and the codec promise\<close>

text \<open>
  \<open>contents\<close> reads a database as tables.  A read transaction sees the tables; a committed write
  transaction that inserted one entry changed that entry; a value that serializes parses back.
\<close>

definition redb_ok :: "('d, 't, 'r) redb_lib \<Rightarrow> ('d \<Rightarrow> redb_table \<Rightarrow> redb_key \<rightharpoonup> bytes) \<Rightarrow> bool" where
  "redb_ok R contents =
     ((\<forall>db txn t k v. begin_read R db = Inr txn \<longrightarrow> open_table_ro R txn t = Inr () \<longrightarrow>
         table_get R txn t k = Inr v \<longrightarrow> v = contents db t k) \<and>
      (\<forall>db db' x y z t k v. begin_write R db = Inr x \<longrightarrow> open_table R x t = Inr y \<longrightarrow>
         table_insert R y t k v = Inr z \<longrightarrow> txn_commit R db z = Inr db' \<longrightarrow>
         contents db' = (contents db)(t := (contents db t)(k \<mapsto> v))))"

definition bincode_ok :: "('d, 't, 'r) redb_lib \<Rightarrow> bool" where
  "bincode_ok R =
     ((\<forall>b bs. ser_block R b = Inr bs \<longrightarrow> de_block R bs = Inr b) \<and>
      (\<forall>q bs. ser_qc R q = Inr bs \<longrightarrow> de_qc R bs = Inr q) \<and>
      (\<forall>cs bs. ser_state R cs = Inr bs \<longrightarrow> de_state R bs = Inr cs) \<and>
      (\<forall>i bs. ser_account R i = Inr bs \<longrightarrow> de_account R bs = Inr i) \<and>
      (\<forall>c bs. ser_bytes R c = Inr bs \<longrightarrow> de_bytes R bs = Inr c) \<and>
      (\<forall>w bs. ser_u256 R w = Inr bs \<longrightarrow> de_u256 R bs = Inr w))"

section \<open>The contract\<close>

definition decoded :: "(bytes \<Rightarrow> string + 'v) \<Rightarrow> bytes option \<Rightarrow> 'v option" where
  "decoded decode found = (case found of None \<Rightarrow> None | Some bs \<Rightarrow> (case decode bs of Inr v \<Rightarrow> Some v | Inl _ \<Rightarrow> None))"

definition redb_abs ::
  "('d, 't, 'r) redb_lib \<Rightarrow> ('d \<Rightarrow> redb_table \<Rightarrow> redb_key \<rightharpoonup> bytes) \<Rightarrow> 'd \<Rightarrow> mem_storage" where
  "redb_abs R contents db = (let c = contents db in
     \<lparr> ms_blocks = (\<lambda>h. decoded (de_block R) (c TABLE_BLOCKS (KeyBytes (hash_bytes h)))),
       ms_qcs = (\<lambda>v. decoded (de_qc R) (c TABLE_QCS (KeyU64 v))),
       ms_state = decoded (de_state R) (c TABLE_META (KeyStr ''consensus_state'')),
       ms_accounts = (\<lambda>a. decoded (de_account R) (c TABLE_ACCOUNTS (KeyBytes (be_bytes 20 a)))),
       ms_code = (\<lambda>h. decoded (de_bytes R) (c TABLE_CODE (KeyBytes (hash_bytes h)))),
       ms_storage = (\<lambda>(a, i). decoded (de_u256 R) (c TABLE_STORAGE (KeyBytes (slot_key a i)))),
       ms_smt_leaves = (\<lambda>h. decoded Inr (c TABLE_SMT_LEAVES (KeyBytes (hash_bytes h)))),
       ms_smt_branches = (\<lambda>(ht, h). decoded Inr (c TABLE_SMT_BRANCHES (KeyBytes (branch_key ht h)))) \<rparr>)"

lemma slot_key_inject [simp]: "slot_key a i = slot_key b j \<longleftrightarrow> a = b \<and> i = j"
  by (simp add: slot_key_def be_bytes_inject)

lemma branch_key_inject [simp]: "branch_key ht h = branch_key ht' h' \<longleftrightarrow> ht = ht' \<and> h = h'"
  by (simp add: branch_key_def)

lemma address_bytes_inject [simp]: "be_bytes 20 (a :: address) = be_bytes 20 b \<longleftrightarrow> a = b"
  by (simp add: be_bytes_inject)

lemma decoded_Some [simp]: "decode bs = Inr v \<Longrightarrow> decoded decode (Some bs) = Some v"
  by (simp add: decoded_def)

lemma redb_okD:
  assumes "redb_ok R contents"
  shows "begin_read R db = Inr txn \<Longrightarrow> open_table_ro R txn t = Inr () \<Longrightarrow> table_get R txn t k = Inr v \<Longrightarrow>
      v = contents db t k"
    "begin_write R db = Inr x \<Longrightarrow> open_table R x t = Inr y \<Longrightarrow> table_insert R y t k w = Inr z \<Longrightarrow>
      txn_commit R db z = Inr db' \<Longrightarrow> contents db' = (contents db)(t := (contents db t)(k \<mapsto> w))"
  using assms unfolding redb_ok_def by blast+

lemma bincode_okD:
  assumes "bincode_ok R"
  shows "ser_block R b = Inr bs \<Longrightarrow> de_block R bs = Inr b" "ser_qc R q = Inr bs \<Longrightarrow> de_qc R bs = Inr q"
    "ser_state R cs = Inr bs \<Longrightarrow> de_state R bs = Inr cs" "ser_account R i = Inr bs \<Longrightarrow> de_account R bs = Inr i"
    "ser_bytes R c = Inr bs \<Longrightarrow> de_bytes R bs = Inr c" "ser_u256 R w = Inr bs \<Longrightarrow> de_u256 R bs = Inr w"
  using assms unfolding bincode_ok_def by blast+

lemma redb_read_decoded:
  assumes "redb_ok R contents" and "redb_read R db t k decode = Inr v"
  shows "v = decoded decode (contents db t k)"
proof -
  from assms(2) obtain txn found where r: "begin_read R db = Inr txn" "open_table_ro R txn t = Inr ()"
    "table_get R txn t k = Inr found"
    and v: "(case found of None \<Rightarrow> Inr None
      | Some val \<Rightarrow> and_then (map_err SerializationError (decode val)) (\<lambda>v. Inr (Some v))) = Inr v"
    by (auto simp: redb_read_def and_then_eq_Inr)
  have "found = contents db t k" using r by (rule redb_okD(1) [OF assms(1)])
  with v show ?thesis by (auto simp: decoded_def and_then_eq_Inr split: option.splits)
qed

lemma redb_write_contents:
  assumes "redb_ok R contents" and "redb_write R db t k encoded = Inr db'"
  shows "\<exists>bs. encoded = Inr bs \<and> contents db' = (contents db)(t := (contents db t)(k \<mapsto> bs))"
proof -
  from assms(2) obtain x y z bs where "begin_write R db = Inr x" "open_table R x t = Inr y"
    "table_insert R y t k bs = Inr z" "txn_commit R db z = Inr db'" "encoded = Inr bs"
    by (auto simp: redb_write_def and_then_eq_Inr)
  with redb_okD(2) [OF assms(1)] show ?thesis by blast
qed

lemma redb_chain_store:
  assumes "redb_ok R contents" and "bincode_ok R"
  shows "chain_store (redb_impl X R) (redb_abs R contents) (hash_block X)"
proof -
  note read = redb_read_decoded [OF assms(1)] and upd = redb_write_contents [OF assms(1)]
  note abs = redb_impl_def redb_ops redb_abs_def Let_def
  show ?thesis
  proof
    fix s a k w
    assume "get_storage (redb_impl X R) s a k = Inr w"
    then show "w = slot_value (redb_abs R contents s) a k"
      by (auto simp: abs slot_value_def and_then_eq_Inr dest!: read)
  qed (auto simp: abs fun_eq_iff bincode_okD [OF assms(2)] dest!: read upd)
qed

section \<open>Refinement of the in-memory store\<close>

text \<open>
  Whenever an operation of \<open>V\<close> succeeds, the same operation of \<open>W\<close> on the abstract state gives
  the same answer, or the abstraction of the same next state.
\<close>

definition refines_store :: "'s storage_trait \<Rightarrow> ('s \<Rightarrow> 'm) \<Rightarrow> 'm storage_trait \<Rightarrow> bool" where
  "refines_store V al W =
     ((\<forall>s h r. get_block V s h = Inr r \<longrightarrow> get_block W (al s) h = Inr r) \<and>
      (\<forall>s v r. get_qc V s v = Inr r \<longrightarrow> get_qc W (al s) v = Inr r) \<and>
      (\<forall>s r. get_consensus_state V s = Inr r \<longrightarrow> get_consensus_state W (al s) = Inr r) \<and>
      (\<forall>s a r. get_account V s a = Inr r \<longrightarrow> get_account W (al s) a = Inr r) \<and>
      (\<forall>s h r. get_code V s h = Inr r \<longrightarrow> get_code W (al s) h = Inr r) \<and>
      (\<forall>s a i r. get_storage V s a i = Inr r \<longrightarrow> get_storage W (al s) a i = Inr r) \<and>
      (\<forall>s ht k r. get_smt_branch V s ht k = Inr r \<longrightarrow> get_smt_branch W (al s) ht k = Inr r) \<and>
      (\<forall>s h r. get_smt_leaf V s h = Inr r \<longrightarrow> get_smt_leaf W (al s) h = Inr r) \<and>
      (\<forall>s s' b. save_block V s b = Inr s' \<longrightarrow> save_block W (al s) b = Inr (al s')) \<and>
      (\<forall>s s' q. save_qc V s q = Inr s' \<longrightarrow> save_qc W (al s) q = Inr (al s')) \<and>
      (\<forall>s s' c. save_consensus_state V s c = Inr s' \<longrightarrow> save_consensus_state W (al s) c = Inr (al s')) \<and>
      (\<forall>s s' a i. save_account V s a i = Inr s' \<longrightarrow> save_account W (al s) a i = Inr (al s')) \<and>
      (\<forall>s s' h c. save_code V s h c = Inr s' \<longrightarrow> save_code W (al s) h c = Inr (al s')) \<and>
      (\<forall>s s' a i v. save_storage V s a i v = Inr s' \<longrightarrow> save_storage W (al s) a i v = Inr (al s')) \<and>
      (\<forall>s s' ht k n. save_smt_branch V s ht k n = Inr s' \<longrightarrow> save_smt_branch W (al s) ht k n = Inr (al s')) \<and>
      (\<forall>s s' h n. save_smt_leaf V s h n = Inr s' \<longrightarrow> save_smt_leaf W (al s) h n = Inr (al s')))"

lemma refines_get_code: "refines_store V al W \<Longrightarrow> get_code V s h = Inr r \<Longrightarrow> get_code W (al s) h = Inr r"
  by (simp add: refines_store_def)

lemma chain_store_refines_mem:
  assumes "chain_store V absm (hash_block X)"
  shows "refines_store V absm (mem_impl X)"
proof -
  note C = assms and E = chain_store.axioms(1) [OF assms]
  note reads = evm_store.get_block [OF E] evm_store.get_qc [OF E] evm_store.get_consensus_state [OF E]
    evm_store.get_account [OF E] evm_store.get_code [OF E] evm_store.get_storage [OF E]
    evm_store.get_smt_branch [OF E] evm_store.get_smt_leaf [OF E]
  note writes = chain_store.save_block [OF C] chain_store.save_qc [OF C] chain_store.save_consensus_state [OF C]
    evm_store.save_account [OF E] evm_store.save_code [OF E] evm_store.save_storage [OF E]
    evm_store.save_smt_branch [OF E] evm_store.save_smt_leaf [OF E]
  show ?thesis
    unfolding refines_store_def
    by (intro conjI allI impI) (drule reads writes, simp add: mem_impl_def slot_value_def)+
qed

end
