(* ===== verification/Node.thy ===== *)
theory Node
  imports Consensus Network Rpc Redb
begin

text \<open>
  The model of \<open>src/src/main.rs\<close>: the start of a node from its arguments and its store, and the
  event loop that hands network events and timeouts to the consensus state machine, sends what
  its actions ask for, applies the node's own votes to itself, gossips the transactions that
  the server accepted, and ends on a signal.
\<close>

section \<open>Arguments\<close>

text \<open>
  The node id is the first argument (its absence panics) and \<open>--gas-limit\<close>, anywhere among the
  arguments and followed by one more, sets the gas limit; a number that does not parse is an
  error.
\<close>

definition node_arguments :: "string list \<Rightarrow> (unit + u64 \<times> u64) option" where
  "node_arguments args =
     (if length args \<le> 1 then None
      else case from_str_radix 10 (args ! 1) of
        None \<Rightarrow> Some (Inl ())
      | Some id_arg \<Rightarrow>
          (case (case position (\<lambda>r. r = ''--gas-limit'') args of
                   Some pos \<Rightarrow> (if pos + 1 < length args then Some (args ! (pos + 1)) else None)
                 | None \<Rightarrow> None) of
             None \<Rightarrow> Some (Inr (id_arg, DEFAULT_BLOCK_GAS_LIMIT))
           | Some val \<Rightarrow>
               (case from_str_radix 10 val of
                  None \<Rightarrow> Some (Inl ())
                | Some limit \<Rightarrow> Some (Inr (id_arg, limit)))))"

section \<open>Start\<close>

text \<open>
  \<open>n_bg_tx\<close> are the transactions on their way from the server to the loop: the content of the
  channel and what the spawned tasks have yet to send, in no reliable order.
\<close>

record 's node =
  n_state :: "'s simplex_state"
  n_block_gas_limit :: u64
  n_bg_tx :: "transaction list"
  n_connected_peers :: "32 word"
  n_started :: bool

fun committee_of_ids :: "('x) blst_lib_scheme \<Rightarrow> u64 list \<Rightarrow> public_key list option" where
  "committee_of_ids X [] = Some []"
| "committee_of_ids X (i # is) = do {
     (pk, _) \<leftarrow> generate_keypair_from_id X i;
     pks \<leftarrow> committee_of_ids X is;
     Some (pk # pks)
   }"

text \<open>The root to start from: the state root of the preferred block, if all of it can be read.\<close>

definition initial_root :: "'s storage_trait \<Rightarrow> 's \<Rightarrow> hash option" where
  "initial_root V s = do {
     cs \<leftarrow> ok_flatten (get_consensus_state V s);
     b \<leftarrow> ok_flatten (get_block V s (cs_preferred_block cs));
     Some (b_state_root b)
   }"

definition start_node ::
  "('x) exec_lib_scheme \<Rightarrow> 's storage_trait \<Rightarrow> u64 \<Rightarrow> u64 \<Rightarrow> 's \<Rightarrow> 's node option" where
  "start_node X V id_arg block_gas_limit s = do {
     (pk, sk) \<leftarrow> generate_keypair_from_id X id_arg;
     cmt \<leftarrow> committee_of_ids X [0, 1, 2, 3, 4];
     let sm = new_state_manager s (initial_root V s);
     st \<leftarrow> new_simplex_state X V pk sk cmt s new_tx_pool (sm_root sm) block_gas_limit block_gas_limit;
     Some \<lparr> n_state = st, n_block_gas_limit = block_gas_limit, n_bg_tx = [], n_connected_peers = 0, n_started = False \<rparr>
   }"

definition rpc_port :: "u64 \<Rightarrow> 16 word" where
  "rpc_port id_arg = 8545 + ucast id_arg"

definition listen_port :: "u64 \<Rightarrow> 16 word" where
  "listen_port id_arg = (if id_arg = 0 then 9000 else 0)"

definition boot_commands :: "'w net_lib \<Rightarrow> u64 \<Rightarrow> network_command list" where
  "boot_commands N id_arg = (if id_arg \<noteq> 0 then dial N ''/ip4/127.0.0.1/tcp/9000'' else [])"

section \<open>Actions\<close>

datatype node_output = SendCommand network_command | ResetTimer | Answer rpc_request "rpc_reply rpc_result"

fun command_of :: "consensus_action \<Rightarrow> network_command" where
  "command_of (BroadcastVote vote) = CommandBroadcastVote vote"
| "command_of (BroadcastEvidence evidence) = CommandBroadcastEvidence evidence"
| "command_of (BroadcastBlock block) = CommandBroadcastblock block"
| "command_of (BroadcastRequest h) = CommandBroadcastSync (RequestBlock h)"
| "command_of (SendBlock block _) = CommandBroadcastSync (ResponseBlock block)"

definition timer_output :: "'s simplex_state \<Rightarrow> 's simplex_state \<Rightarrow> node_output list" where
  "timer_output old new = (if current_view new > current_view old then [ResetTimer] else [])"

text \<open>
  The action queue, popped from its end.  The node's own vote is sent and then applied to its
  own state, and what that asks for is pushed.  The outer option is \<^term>\<open>None\<close> if the loop does not
  end, the inner one if a handler panics.
\<close>

partial_function (option) drain ::
  "('x) exec_lib_scheme \<Rightarrow> 's storage_trait \<Rightarrow> 's simplex_state \<Rightarrow> consensus_action list \<Rightarrow>
   ('s simplex_state \<times> node_output list) option option" where
  "drain X V st queue =
     (if queue = [] then Some (Some (st, []))
      else case last queue of
        BroadcastVote vote \<Rightarrow>
          (case on_vote X V st vote of
             None \<Rightarrow> Some None
           | Some (st1, r) \<Rightarrow>
               Option.bind (drain X V st1 (case r of Inr new_actions \<Rightarrow> butlast queue @ new_actions | Inl _ \<Rightarrow> butlast queue))
                 (\<lambda>rest. Some (map_option (\<lambda>(st2, outs).
                    (st2, SendCommand (CommandBroadcastVote vote) #
                          (case r of Inr _ \<Rightarrow> timer_output st st1 | Inl _ \<Rightarrow> []) @ outs)) rest)))
      | action \<Rightarrow>
          Option.bind (drain X V st (butlast queue))
            (\<lambda>rest. Some (map_option (\<lambda>(st2, outs). (st2, SendCommand (command_of action) # outs)) rest)))"

declare drain.simps [code]

section \<open>One turn of the loop\<close>

definition first_connection ::
  "('x) exec_lib_scheme \<Rightarrow> 's storage_trait \<Rightarrow> 's node \<Rightarrow> ('s node \<times> node_output list) option" where
  "first_connection X V self =
     (let peers = n_connected_peers self + 1; self1 = self\<lparr>n_connected_peers := peers\<rparr> in
      if 1 \<le> sint peers \<and> \<not> n_started self
      then (case try_propose X V (n_state self1) of
              None \<Rightarrow> None
            | Some (st, r) \<Rightarrow>
                Some (self1\<lparr>n_state := st, n_started := True\<rparr>,
                      ResetTimer # (case r of Inr actions \<Rightarrow> map (\<lambda>a. SendCommand (command_of a)) (rev actions)
                                    | Inl _ \<Rightarrow> [])))
      else Some (self1, []))"

text \<open>The dispatch: the state, the outputs so far and the actions to process.\<close>

fun dispatch ::
  "('x) exec_lib_scheme \<Rightarrow> 's storage_trait \<Rightarrow> 's node \<Rightarrow> network_event \<Rightarrow>
   ('s node \<times> node_output list \<times> (consensus_error + consensus_action list)) option" where
  "dispatch X V self (VoteReceived vote) =
     (case on_vote X V (n_state self) vote of
        None \<Rightarrow> None
      | Some (st, r) \<Rightarrow> Some (self\<lparr>n_state := st\<rparr>, timer_output (n_state self) st, r))"
| "dispatch X V self (BlockReceived block) =
     (case on_proposal X V (n_state self) block of
        None \<Rightarrow> None
      | Some (st, r) \<Rightarrow> Some (self\<lparr>n_state := st\<rparr>, [], r))"
| "dispatch X V self (PeerConnected pid) =
     (case first_connection X V self of
        None \<Rightarrow> None
      | Some (self1, outs) \<Rightarrow> Some (self1, outs, Inr []))"
| "dispatch X V self (SyncMessageReceived (RequestBlock h) peer_id) =
     (case on_block_request V (n_state self) h peer_id of
        None \<Rightarrow> None
      | Some (st, r) \<Rightarrow> Some (self\<lparr>n_state := st\<rparr>, [], r))"
| "dispatch X V self (SyncMessageReceived (ResponseBlock block) peer_id) =
     (case on_block_response X V (n_state self) block of
        None \<Rightarrow> None
      | Some (st, r) \<Rightarrow> Some (self\<lparr>n_state := st\<rparr>, [], r))"
| "dispatch X V self (EvidenceReceived evidence) =
     Some (self\<lparr>n_state := (n_state self)
             \<lparr>evidence_pool := fst (add_evidence (evidence_pool (n_state self)) evidence)\<rparr>\<rparr>, [], Inr [])"
| "dispatch X V self (TransactionReceived tx) =
     Some (self\<lparr>n_state := (n_state self)
             \<lparr>ss_tx_pool := fst (add_transaction X V (ss_storage (n_state self)) (ss_tx_pool (n_state self)) tx)\<rparr>\<rparr>,
           [], Inr [])"

definition process_actions ::
  "('x) exec_lib_scheme \<Rightarrow> 's storage_trait \<Rightarrow> 's node \<Rightarrow> consensus_error + consensus_action list \<Rightarrow>
   ('s node \<times> node_output list) option option" where
  "process_actions X V self r =
     (case r of
        Inl _ \<Rightarrow> Some (Some (self, []))
      | Inr queue \<Rightarrow>
          Option.bind (drain X V (n_state self) queue)
            (\<lambda>rest. Some (map_option (\<lambda>(st, outs). (self\<lparr>n_state := st\<rparr>, outs)) rest)))"

definition network_turn ::
  "('x) exec_lib_scheme \<Rightarrow> 's storage_trait \<Rightarrow> 's node \<Rightarrow> network_event \<Rightarrow>
   ('s node \<times> node_output list) option option" where
  "network_turn X V self event =
     (case dispatch X V self event of
        None \<Rightarrow> Some None
      | Some (self1, outs, r) \<Rightarrow>
          (if n_started self1
           then Option.bind (process_actions X V self1 r)
                  (\<lambda>rest. Some (map_option (\<lambda>(self2, outs2). (self2, outs @ outs2)) rest))
           else Some (Some (self1, outs))))"

definition timer_turn ::
  "('x) exec_lib_scheme \<Rightarrow> 's storage_trait \<Rightarrow> 's node \<Rightarrow> ('s node \<times> node_output list) option option" where
  "timer_turn X V self =
     (if \<not> n_started self then Some (Some (self, []))
      else case on_timeout X (n_state self) (current_view (n_state self)) of
        None \<Rightarrow> Some None
      | Some (st, r) \<Rightarrow> process_actions X V (self\<lparr>n_state := st\<rparr>) r)"

text \<open>A transaction that the RPC server took is only gossiped: it is in the shared pool already.\<close>

definition rpc_turn :: "'s node \<Rightarrow> transaction \<Rightarrow> ('s node \<times> node_output list) option" where
  "rpc_turn self tx =
     (if tx \<in> set (n_bg_tx self)
      then Some (self\<lparr>n_bg_tx := remove1 tx (n_bg_tx self)\<rparr>, [SendCommand (CommandBroadcastTransaction tx)])
      else None)"

text \<open>What the server of \<open>Rpc\<close> shares with the node, and a request to it.\<close>

definition rpc_of :: "'s node \<Rightarrow> 's ockham_rpc_impl" where
  "rpc_of self =
     (new_ockham_rpc_impl (ss_storage (n_state self)) (ss_tx_pool (n_state self))
        (executor_root (n_state self)) (n_block_gas_limit self))\<lparr>rpc_broadcast := n_bg_tx self\<rparr>"

definition request_turn ::
  "('x) exec_lib_scheme \<Rightarrow> 's storage_trait \<Rightarrow> 's node \<Rightarrow> rpc_request \<Rightarrow> ('s node \<times> node_output list) option" where
  "request_turn X V self request =
     (case serve X V (rpc_of self) request of
        None \<Rightarrow> None
      | Some (impl, r) \<Rightarrow>
          Some (self\<lparr>n_state := (n_state self)\<lparr>ss_tx_pool := rpc_tx_pool impl\<rparr>, n_bg_tx := rpc_broadcast impl\<rparr>,
                [Answer request r]))"

section \<open>The running node\<close>

text \<open>
  The branches of the \<open>select\<close>, in any order, with the outputs so far; between two of them the
  server may answer requests on the shared store and pool.
\<close>

inductive node_run ::
  "('x) exec_lib_scheme \<Rightarrow> 's storage_trait \<Rightarrow> 's node \<Rightarrow> node_output list \<Rightarrow> 's node \<Rightarrow> bool" for X V n0 where
  init: "node_run X V n0 [] n0"
| network: "node_run X V n0 outs n \<Longrightarrow> network_turn X V n ev = Some (Some (n', outs')) \<Longrightarrow>
     node_run X V n0 (outs @ outs') n'"
| timer: "node_run X V n0 outs n \<Longrightarrow> timer_turn X V n = Some (Some (n', outs')) \<Longrightarrow>
     node_run X V n0 (outs @ outs') n'"
| request: "node_run X V n0 outs n \<Longrightarrow> request_turn X V n req = Some (n', outs') \<Longrightarrow>
     node_run X V n0 (outs @ outs') n'"
| gossip: "node_run X V n0 outs n \<Longrightarrow> rpc_turn n tx = Some (n', outs') \<Longrightarrow>
     node_run X V n0 (outs @ outs') n'"

section \<open>The program\<close>

datatype main_error = InvalidArgument | ServerFailed string | NetworkFailed string

definition db_path :: "u64 \<Rightarrow> string list" where
  "db_path id_arg = [''.'', ''db'', ''node_'' @ decimal (unat id_arg)]"

text \<open>
  From the arguments to the loop: the node on the database of its id, the server, the network
  and the commands sent before the loop.  \<open>build_server\<close> binds the port of the server.
\<close>

definition main_start ::
  "('x) exec_lib_scheme \<Rightarrow> ('d, 't, 'r) redb_lib \<Rightarrow> 'w net_lib \<Rightarrow> (16 word \<Rightarrow> string + unit) \<Rightarrow> string list \<Rightarrow>
   (main_error + 'd node \<times> 'w \<times> network_command list) option" where
  "main_start X R N build_server args =
     (case node_arguments args of
        None \<Rightarrow> None
      | Some (Inl _) \<Rightarrow> Some (Inl InvalidArgument)
      | Some (Inr (id_arg, block_gas_limit)) \<Rightarrow>
          (case new_redb_storage R (db_path id_arg) of
             Inl _ \<Rightarrow> None
           | Inr storage \<Rightarrow>
               (case start_node X (redb_impl X R) id_arg block_gas_limit storage of
                  None \<Rightarrow> None
                | Some self \<Rightarrow>
                    (case build_server (rpc_port id_arg) of
                       Inl e \<Rightarrow> Some (Inl (ServerFailed e))
                     | Inr _ \<Rightarrow>
                         (case new_network N (listen_port id_arg) of
                            Inl e \<Rightarrow> Some (Inl (NetworkFailed e))
                          | Inr swarm \<Rightarrow> Some (Inr (self, swarm, boot_commands N id_arg)))))))"

text \<open>
  The loop ends between two turns when the signal comes.  The server is stopped, the state is
  dropped, and the store is all that is left.
\<close>

datatype 's process = Running "'s node" | Stopped 's

inductive main_run ::
  "('x) exec_lib_scheme \<Rightarrow> 's storage_trait \<Rightarrow> 's node \<Rightarrow> node_output list \<Rightarrow> 's process \<Rightarrow> bool" for X V n0 where
  running: "node_run X V n0 outs n \<Longrightarrow> main_run X V n0 outs (Running n)"
| ctrl_c: "main_run X V n0 outs (Running n) \<Longrightarrow> main_run X V n0 outs (Stopped (ss_storage (n_state n)))"

inductive_simps main_run_simps: "main_run X V n0 outs (Running n)" "main_run X V n0 outs (Stopped s)"

end
