(* ===== verification/Node_Loop.thy ===== *)
theory Node_Loop
  imports Node Certificates
begin

text \<open>
  The event loop of a node: processing the action queue ends, and every turn of the loop is a
  run of the handlers, so that what holds along runs holds of the running node.
\<close>

section \<open>The action queue ends\<close>

definition action_weight :: "consensus_action \<Rightarrow> nat" where
  "action_weight a = (case a of BroadcastVote _ \<Rightarrow> 2 | _ \<Rightarrow> 1)"

definition queue_weight :: "consensus_action list \<Rightarrow> nat" where
  "queue_weight q = sum_list (map action_weight q)"

lemma queue_weight_simps [simp]:
  "queue_weight [] = 0"
  "queue_weight (a # q) = action_weight a + queue_weight q"
  "queue_weight (q @ q') = queue_weight q + queue_weight q'"
  by (simp_all add: queue_weight_def)

lemma action_weight_simps [simp]:
  "action_weight (BroadcastVote v) = 2" "action_weight (BroadcastBlock b) = 1"
  "action_weight (BroadcastEvidence e) = 1"
  by (simp_all add: action_weight_def)

lemma action_weight_pos: "1 \<le> action_weight a"
  by (cases a) (simp_all add: action_weight_def)

lemma proposal_votes_weight: "queue_weight (proposal_votes X st b) \<le> 4"
  by (simp add: proposal_votes_def)

lemma chain_proposal_weight: "chain_proposal X V st qc = Some (st', acts) \<Longrightarrow> queue_weight acts \<le> 5"
  by (erule chain_proposalE) (auto intro: order_trans [OF proposal_votes_weight])

lemma form_qc_view: "form_qc X v vs = Some qc \<Longrightarrow> qc_view qc = v_view v"
  by (auto simp: form_qc_def bind_eq_Some_conv)

context chain_store
begin

lemma on_vote_weight:
  assumes "on_vote X V st v = Some (st', r)"
  shows "(qcs_of absm st' = qcs_of absm st \<and> queue_weight (actions_of r) \<le> 1) \<or>
    (\<exists>qc. qcs_of absm st (v_view v) = None \<and> qcs_of absm st' = (qcs_of absm st)(v_view v \<mapsto> qc) \<and>
       queue_weight (actions_of r) \<le> 7)"
  using assms
proof (cases rule: on_voteE)
  case finalize
  have "actions_of r = []" using finalize(3) by (cases rule: on_finalize_voteE) simp_all
  with finalize_qcs [OF finalize(3)] show ?thesis by simp
next
  case quorum
  let ?st = "record_vote st v"
  have same: "qcs_of absm ?st = qcs_of absm st" by (simp add: record_vote_def qcs_of_def)
  from quorum(4) show ?thesis
  proof (cases rule: on_quorumE)
    case (formed qc s1 st1 st2 acts)
    have "qcs_of absm (?st\<lparr>ss_storage := s1\<rparr>) = (qcs_of absm st)(v_view v \<mapsto> qc)"
      using save_qc [OF formed(3)] form_qc_view [OF formed(1)] same by (simp add: qcs_of_def)
    from quiet_steps.keeps_certified [OF qcs_quiet [OF chain_store_axioms] this formed(4-6)]
    have "qcs_of absm st' = (qcs_of absm st)(v_view v \<mapsto> qc)" .
    moreover have "qcs_of absm st (v_view v) = None" using get_qc [OF formed(2)] same by (simp add: qcs_of_def)
    moreover have "queue_weight (actions_of r) \<le> 7"
      using chain_proposal_weight [OF formed(6)] formed(7) by simp
    ultimately show ?thesis by blast
  qed (use same in simp)
qed (auto simp: qcs_of_def record_vote_def)

definition loop_measure :: "'s simplex_state \<Rightarrow> consensus_action list \<Rightarrow> nat" where
  "loop_measure st q = 8 * card {v. qcs_of absm st v = None} + queue_weight q"

lemma loop_measure_vote:
  assumes "on_vote X V st v = Some (st', r)"
  shows "loop_measure st' (q @ actions_of r) < loop_measure st (q @ [BroadcastVote v])"
  using on_vote_weight [OF assms]
proof (elim disjE exE conjE)
  fix qc
  assume n: "qcs_of absm st (v_view v) = None" and st': "qcs_of absm st' = (qcs_of absm st)(v_view v \<mapsto> qc)"
    and w: "queue_weight (actions_of r) \<le> 7"
  have "{u. qcs_of absm st' u = None} = {u. qcs_of absm st u = None} - {v_view v}" using st' by auto
  moreover have "0 < card {u. qcs_of absm st u = None}" using n by (auto simp: card_gt_0_iff)
  ultimately have "card {u. qcs_of absm st' u = None} + 1 = card {u. qcs_of absm st u = None}"
    using n by simp
  with w show ?thesis by (simp add: loop_measure_def)
qed (simp add: loop_measure_def)

lemma drain_returns: "\<exists>r. drain X V st q = Some r"
proof (induction "loop_measure st q" arbitrary: st q rule: less_induct)
  case less
  show ?case
  proof (cases q rule: rev_cases)
    case Nil
    then show ?thesis by (subst drain.simps) simp
  next
    case (snoc q' a)
    have pop: "\<exists>r. drain X V st q' = Some r"
      using action_weight_pos [of a] by (intro less) (simp add: snoc loop_measure_def)
    have vote: "\<exists>r'. drain X V st1 (q' @ actions_of r) = Some r'"
      if "a = BroadcastVote v" "on_vote X V st v = Some (st1, r)" for v st1 r
      using loop_measure_vote [OF that(2), of q'] that(1) by (intro less) (simp add: snoc)
    show ?thesis
    proof (cases "\<exists>v. a = BroadcastVote v")
      case True
      then obtain v where a: "a = BroadcastVote v" ..
      show ?thesis
      proof (cases "on_vote X V st v")
        case None
        then show ?thesis by (subst drain.simps) (simp add: snoc a)
      next
        case (Some p)
        then obtain st1 r where on: "on_vote X V st v = Some (st1, r)" by (cases p) simp
        from vote [OF a on] obtain r' where "drain X V st1 (q' @ actions_of r) = Some r'" ..
        with on show ?thesis by (subst drain.simps) (cases r; simp add: snoc a)
      qed
    next
      case False
      from pop obtain r where "drain X V st q' = Some r" ..
      with False show ?thesis by (subst drain.simps) (cases a; simp add: snoc)
    qed
  qed
qed

end

section \<open>A turn of the loop is a run\<close>

lemma run_trans: "run X V st1 acts' st2 \<Longrightarrow> run X V st acts st1 \<Longrightarrow> run X V st (acts @ acts') st2"
proof (induction rule: run.induct)
  case (event acts' st2 ev st3 r)
  from run.event [OF event.IH [OF event.prems] event.hyps(2)] show ?case by simp
qed simp

lemma run_handle: "handle X V st ev = Some (st', r) \<Longrightarrow> run X V st (actions_of r) st'"
  using run.event [OF run.start] by fastforce

text \<open>What a turn puts out, besides resetting the timer, are the commands of its actions.\<close>

abbreviation send_of :: "consensus_action \<Rightarrow> node_output" where
  "send_of a \<equiv> SendCommand (command_of a)"

definition sent_commands :: "node_output list \<Rightarrow> node_output set" where
  "sent_commands outs = set outs - {ResetTimer}"

lemma sent_commands_simps [simp]:
  "sent_commands [] = {}"
  "sent_commands (SendCommand c # outs) = insert (SendCommand c) (sent_commands outs)"
  "sent_commands (ResetTimer # outs) = sent_commands outs"
  "sent_commands (Answer req r # outs) = insert (Answer req r) (sent_commands outs)"
  "sent_commands (outs @ outs') = sent_commands outs \<union> sent_commands outs'"
  "sent_commands (timer_output st st') = {}"
  "sent_commands (map send_of acts) = send_of ` set acts"
  by (auto simp: sent_commands_def timer_output_def)

definition drains ::
  "('x) exec_lib_scheme \<Rightarrow> 's storage_trait \<Rightarrow> 's simplex_state \<Rightarrow> consensus_action list \<Rightarrow>
   ('s simplex_state \<times> node_output list) option \<Rightarrow> bool" where
  "drains X V st q res = (\<forall>st' outs. res = Some (st', outs) \<longrightarrow>
     (\<exists>acts. run X V st acts st' \<and> sent_commands outs \<subseteq> send_of ` (set q \<union> set acts)))"

lemma drainsI:
  "(\<And>st' outs. res = Some (st', outs) \<Longrightarrow>
     \<exists>acts. run X V st acts st' \<and> sent_commands outs \<subseteq> send_of ` (set q \<union> set acts)) \<Longrightarrow> drains X V st q res"
  by (simp add: drains_def)

lemma drains_pop:
  assumes "drains X V st (butlast q) rest" "q \<noteq> []" "last q = a"
  shows "drains X V st q (map_option (\<lambda>(st2, outs). (st2, SendCommand (command_of a) # outs)) rest)"
proof (rule drainsI)
  fix st' outs
  assume "map_option (\<lambda>(st2, outs). (st2, SendCommand (command_of a) # outs)) rest = Some (st', outs)"
  then obtain outs1 where o: "rest = Some (st', outs1)" "outs = SendCommand (command_of a) # outs1" by auto
  then obtain acts where "run X V st acts st'" "sent_commands outs1 \<subseteq> send_of ` (set (butlast q) \<union> set acts)"
    using assms(1) by (auto simp: drains_def)
  moreover have "a \<in> set q" using assms(2,3) by auto
  ultimately show "\<exists>acts. run X V st acts st' \<and> sent_commands outs \<subseteq> send_of ` (set q \<union> set acts)"
    using o(2) in_set_butlastD [of _ q] by (intro exI [of _ acts]) (auto 4 4)
qed

lemma drains_vote:
  assumes on: "on_vote X V st v = Some (st1, r)" and "drains X V st1 (butlast q @ actions_of r) rest"
    and "q \<noteq> []" "last q = BroadcastVote v" and t: "sent_commands t = {}"
  shows "drains X V st q (map_option (\<lambda>(st2, outs). (st2, SendCommand (CommandBroadcastVote v) # t @ outs)) rest)"
proof (rule drainsI)
  fix st' outs
  assume "map_option (\<lambda>(st2, outs). (st2, SendCommand (CommandBroadcastVote v) # t @ outs)) rest = Some (st', outs)"
  then obtain outs1 where o: "rest = Some (st', outs1)" "outs = SendCommand (CommandBroadcastVote v) # t @ outs1" by auto
  then obtain acts where a: "run X V st1 acts st'"
    "sent_commands outs1 \<subseteq> send_of ` (set (butlast q @ actions_of r) \<union> set acts)"
    using assms(2) by (auto simp: drains_def)
  have "SendCommand (CommandBroadcastVote v) \<in> send_of ` set q" using assms(3,4) last_in_set [of q] by force
  moreover have "set (butlast q) \<subseteq> set q" by (auto dest: in_set_butlastD)
  moreover have "run X V st (actions_of r @ acts) st'"
    using run_trans [OF a(1) run_handle [of X V st "VoteIn v"]] on by simp
  ultimately show "\<exists>acts. run X V st acts st' \<and> sent_commands outs \<subseteq> send_of ` (set q \<union> set acts)"
    using o(2) a(2) t by (intro exI [of _ "actions_of r @ acts"]) (auto 4 3)
qed

lemma drain_drains:
  assumes "drain X V st q = Some res"
  shows "drains X V st q res"
proof (rule drain.raw_induct [where P = drains, OF _ assms], goal_cases)
  case (1 f X V st q res)
  show ?case
  proof (cases "q = []")
    case True
    with 1(2) show ?thesis using run.start by (fastforce simp: drains_def)
  next
    case False
    show ?thesis
    proof (cases "\<exists>v. last q = BroadcastVote v")
      case True
      then obtain v where v: "last q = BroadcastVote v" ..
      show ?thesis
      proof (cases "on_vote X V st v")
        case None
        with 1(2) False v show ?thesis by (simp add: drains_def)
      next
        case (Some p)
        obtain st1 r where p: "p = (st1, r)" by (cases p)
        from 1(2) False v Some p obtain rest where rest: "f X V st1 (butlast q @ actions_of r) = Some rest"
          "res = map_option (\<lambda>(st2, outs). (st2, SendCommand (CommandBroadcastVote v) #
             (case r of Inr _ \<Rightarrow> timer_output st st1 | Inl _ \<Rightarrow> []) @ outs)) rest"
          by (cases r) (auto simp: bind_eq_Some_conv)
        show ?thesis unfolding rest(2)
          by (rule drains_vote [OF Some [unfolded p] 1(1) [OF rest(1)] False v]) (simp split: sum.split)
      qed
    next
      case nv: False
      from 1(2) False nv obtain rest where rest: "f X V st (butlast q) = Some rest"
        "res = map_option (\<lambda>(st2, outs). (st2, SendCommand (command_of (last q)) # outs)) rest"
        by (cases "last q") (auto simp: bind_eq_Some_conv)
      show ?thesis unfolding rest(2) by (rule drains_pop [OF 1(1) [OF rest(1)] False refl])
    qed
  qed
qed

text \<open>What one turn does: a run of the handlers whose actions it sends.\<close>

definition turn_ok ::
  "('x) exec_lib_scheme \<Rightarrow> 's storage_trait \<Rightarrow> 's node \<Rightarrow> 's node \<Rightarrow> node_output list \<Rightarrow> bool" where
  "turn_ok X V n n' outs = (\<exists>acts. run X V (n_state n) acts (n_state n') \<and>
     sent_commands outs \<subseteq> send_of ` set acts)"

lemma process_actions_run:
  assumes "process_actions X V n r = Some (Some (n', outs))"
  shows "\<exists>acts. run X V (n_state n) acts (n_state n') \<and>
    sent_commands outs \<subseteq> send_of ` (set (actions_of r) \<union> set acts)"
proof (cases r)
  case (Inl e)
  with assms show ?thesis using run.start by (fastforce simp: process_actions_def)
next
  case (Inr q)
  with assms obtain st where "drain X V (n_state n) q = Some (Some (st, outs))" "n' = n\<lparr>n_state := st\<rparr>"
    by (auto simp: process_actions_def bind_eq_Some_conv)
  with drain_drains [of X V "n_state n" q] Inr show ?thesis by (fastforce simp: drains_def)
qed

lemma turn_okI:
  assumes "run X V (n_state n) acts (n_state n1)" and "set (actions_of r) \<subseteq> set acts"
    and "process_actions X V n1 r = Some (Some (n', outs))" and "sent_commands outs0 \<subseteq> send_of ` set acts"
  shows "turn_ok X V n n' (outs0 @ outs)"
proof -
  from process_actions_run [OF assms(3)] obtain acts' where a: "run X V (n_state n1) acts' (n_state n')"
    "sent_commands outs \<subseteq> send_of ` (set (actions_of r) \<union> set acts')" by blast
  have "sent_commands (outs0 @ outs) \<subseteq> send_of ` set (acts @ acts')" using a(2) assms(2,4) by auto
  with run_trans [OF a(1) assms(1)] show ?thesis unfolding turn_ok_def by blast
qed

lemma dispatch_handled:
  assumes "handle X V (n_state n) ev = Some (n_state n1, r)" and "sent_commands outs = {}"
  shows "\<exists>acts. run X V (n_state n) acts (n_state n1) \<and> set (actions_of r) \<subseteq> set acts \<and>
    sent_commands outs \<subseteq> send_of ` set acts"
  using run_handle [OF assms(1)] assms(2) by blast

lemma first_connection_run:
  assumes "first_connection X V n = Some (n1, outs)"
  shows "\<exists>acts. run X V (n_state n) acts (n_state n1) \<and> sent_commands outs \<subseteq> send_of ` set acts"
proof (cases "1 \<le> sint (n_connected_peers n + 1) \<and> \<not> n_started n")
  case True
  with assms obtain st r where p: "try_propose X V (n_state n) = Some (st, r)" "n_state n1 = st"
    "outs = ResetTimer # map (\<lambda>a. SendCommand (command_of a)) (rev (actions_of r))"
    by (auto simp: first_connection_def Let_def split: option.splits sum.splits)
  have "run X V (n_state n) (actions_of r) (n_state n1)"
    using run_handle [of X V "n_state n" Propose st r] p(1,2) by simp
  moreover have "sent_commands outs \<subseteq> send_of ` set (actions_of r)"
    unfolding p(3) sent_commands_simps by simp
  ultimately show ?thesis by blast
next
  case False
  with assms show ?thesis using run.start by (fastforce simp: first_connection_def Let_def)
qed

lemma dispatch_run:
  assumes "dispatch X V n ev = Some (n1, outs, r)"
  shows "\<exists>acts. run X V (n_state n) acts (n_state n1) \<and> set (actions_of r) \<subseteq> set acts \<and>
    sent_commands outs \<subseteq> send_of ` set acts"
proof (cases ev)
  case (VoteReceived v)
  with assms show ?thesis
    by (intro dispatch_handled [where ev = "VoteIn v"]) (auto split: option.splits prod.splits)
next
  case (BlockReceived b)
  with assms show ?thesis
    by (intro dispatch_handled [where ev = "ProposalIn b"]) (auto split: option.splits prod.splits)
next
  case (PeerConnected p)
  with assms have "first_connection X V n = Some (n1, outs)" "r = Inr []" by (auto split: option.splits prod.splits)
  with first_connection_run [of X V n n1 outs] show ?thesis by simp
next
  case (SyncMessageReceived m p)
  show ?thesis
  proof (cases m)
    case (RequestBlock h)
    with SyncMessageReceived assms show ?thesis
      by (intro dispatch_handled [where ev = "RequestIn h p"]) (auto split: option.splits prod.splits)
  next
    case (ResponseBlock b)
    with SyncMessageReceived assms show ?thesis
      by (intro dispatch_handled [where ev = "ResponseIn b"]) (auto split: option.splits prod.splits)
  qed
next
  case (EvidenceReceived e)
  with assms show ?thesis by (intro dispatch_handled [where ev = "EvidenceIn e"]) auto
next
  case (TransactionReceived tx)
  with assms show ?thesis by (intro dispatch_handled [where ev = "TransactionIn tx"]) auto
qed

lemma network_turn_ok: "network_turn X V n ev = Some (Some (n', outs)) \<Longrightarrow> turn_ok X V n n' outs"
proof -
  assume t: "network_turn X V n ev = Some (Some (n', outs))"
  then obtain n1 outs1 r where d: "dispatch X V n ev = Some (n1, outs1, r)"
    by (auto simp: network_turn_def split: option.splits)
  from dispatch_run [OF d] obtain acts where a: "run X V (n_state n) acts (n_state n1)"
    "set (actions_of r) \<subseteq> set acts" "sent_commands outs1 \<subseteq> send_of ` set acts" by blast
  show ?thesis
  proof (cases "n_started n1")
    case True
    with t d obtain outs2 where p: "process_actions X V n1 r = Some (Some (n', outs2))" "outs = outs1 @ outs2"
      by (auto simp: network_turn_def bind_eq_Some_conv)
    from turn_okI [OF a(1,2) p(1) a(3)] p(2) show ?thesis by simp
  next
    case False
    with t d a show ?thesis by (auto simp: network_turn_def turn_ok_def)
  qed
qed

lemma timer_turn_ok: "timer_turn X V n = Some (Some (n', outs)) \<Longrightarrow> turn_ok X V n n' outs"
proof -
  assume t: "timer_turn X V n = Some (Some (n', outs))"
  show ?thesis
  proof (cases "n_started n")
    case True
    with t obtain st r where o: "on_timeout X (n_state n) (current_view (n_state n)) = Some (st, r)"
      "process_actions X V (n\<lparr>n_state := st\<rparr>) r = Some (Some (n', outs))"
      by (auto simp: timer_turn_def split: option.splits)
    have "run X V (n_state n) (actions_of r) (n_state (n\<lparr>n_state := st\<rparr>))"
      using run_handle [of X V "n_state n" "TimeoutAt (current_view (n_state n))"] o(1) by simp
    from turn_okI [OF this order.refl o(2), of "[]"] show ?thesis by simp
  next
    case False
    with t show ?thesis using run.start by (fastforce simp: timer_turn_def turn_ok_def)
  qed
qed

lemma request_turn_run:
  assumes "request_turn X V n req = Some (n', outs)"
  shows "\<exists>acts r. run X V (n_state n) acts (n_state n') \<and> outs = [Answer req r] \<and>
    n_bg_tx n' = n_bg_tx n @ accepted_txs req r"
proof -
  from assms obtain impl r where s: "serve X V (rpc_of n) req = Some (impl, r)" "outs = [Answer req r]"
    "n_state n' = (n_state n)\<lparr>ss_tx_pool := rpc_tx_pool impl\<rparr>" "n_bg_tx n' = rpc_broadcast impl"
    by (auto simp: request_turn_def split: option.splits)
  note rpc = rpc_of_def new_ockham_rpc_impl_def
  have "(\<exists>acts. run X V (n_state n) acts (n_state n')) \<and> n_bg_tx n' = n_bg_tx n @ accepted_txs req r"
  proof (cases "\<exists>tx. req = SendTransaction tx")
    case True
    then obtain tx where req: "req = SendTransaction tx" ..
    note t = serve_transaction [OF s(1) [unfolded req]]
    have "handle X V (n_state n) (TransactionIn tx) = Some (n_state n', Inr [])" using t(1) s(3) by (simp add: rpc)
    from run_handle [OF this] t(2) s(4) show ?thesis by (auto simp: rpc req)
  next
    case False
    with serve_query [OF s(1)] s(3,4) have "n_state n' = n_state n \<and> n_bg_tx n' = n_bg_tx n @ accepted_txs req r"
      by (simp add: rpc)
    then show ?thesis using run.start by metis
  qed
  with s(2) show ?thesis by blast
qed

lemma turn_extends:
  assumes "\<exists>acts. run X V st0 acts (n_state n) \<and> sent_commands outs \<subseteq> send_of ` set acts \<union> extra"
    and "turn_ok X V n n' outs'"
  shows "\<exists>acts. run X V st0 acts (n_state n') \<and> sent_commands (outs @ outs') \<subseteq> send_of ` set acts \<union> extra"
proof -
  from assms obtain a1 a2 where a: "run X V st0 a1 (n_state n)" "sent_commands outs \<subseteq> send_of ` set a1 \<union> extra"
    "run X V (n_state n) a2 (n_state n')" "sent_commands outs' \<subseteq> send_of ` set a2"
    by (auto simp: turn_ok_def)
  from a(2,4) have "sent_commands (outs @ outs') \<subseteq> send_of ` set (a1 @ a2) \<union> extra" by auto
  with run_trans [OF a(3,1)] show ?thesis by blast
qed

text \<open>The transactions a node has gossiped, and those its server has accepted.\<close>

definition gossiped :: "node_output list \<Rightarrow> transaction list" where
  "gossiped outs = concat (map (\<lambda>out. case out of SendCommand (CommandBroadcastTransaction tx) \<Rightarrow> [tx] | _ \<Rightarrow> []) outs)"

definition accepted :: "node_output list \<Rightarrow> transaction list" where
  "accepted outs = concat (map (\<lambda>out. case out of Answer req r \<Rightarrow> accepted_txs req r | _ \<Rightarrow> []) outs)"

lemma command_not_gossip: "command_of a \<noteq> CommandBroadcastTransaction tx"
  by (cases a) simp_all

lemma turn_accounts:
  assumes "turn_ok X V n n' outs"
  shows "gossiped outs = []" "accepted outs = []"
proof -
  have "out = ResetTimer \<or> (\<exists>a. out = send_of a)" if "out \<in> set outs" for out
    using assms that unfolding turn_ok_def sent_commands_def by blast
  then show "gossiped outs = []" "accepted outs = []"
    using command_not_gossip by (fastforce simp: gossiped_def accepted_def split: network_command.splits)+
qed

lemma dispatch_bg: "dispatch X V n ev = Some (n1, outs, r) \<Longrightarrow> n_bg_tx n1 = n_bg_tx n"
  by (cases "(X, V, n, ev)" rule: dispatch.cases)
    (auto simp: first_connection_def Let_def split: option.splits prod.splits if_splits)

lemma process_actions_bg: "process_actions X V n r = Some (Some (n', outs)) \<Longrightarrow> n_bg_tx n' = n_bg_tx n"
  by (auto simp: process_actions_def bind_eq_Some_conv split: sum.splits)

lemma network_turn_bg: "network_turn X V n ev = Some (Some (n', outs)) \<Longrightarrow> n_bg_tx n' = n_bg_tx n"
  by (auto simp: network_turn_def bind_eq_Some_conv dest!: process_actions_bg dispatch_bg split: option.splits if_splits)

lemma timer_turn_bg: "timer_turn X V n = Some (Some (n', outs)) \<Longrightarrow> n_bg_tx n' = n_bg_tx n"
  by (auto simp: timer_turn_def dest!: process_actions_bg split: option.splits if_splits)

lemma accounts_append [simp]:
  "gossiped (outs @ outs') = gossiped outs @ gossiped outs'" "accepted (outs @ outs') = accepted outs @ accepted outs'"
  by (simp_all add: gossiped_def accepted_def)

lemma node_run_accounts:
  assumes "node_run X V n0 outs n" and "n_bg_tx n0 = []"
  shows "mset (gossiped outs) + mset (n_bg_tx n) = mset (accepted outs)"
  using assms(1)
proof induction
  case (network outs n ev n' outs')
  with turn_accounts [OF network_turn_ok [OF network.hyps(2)]] network_turn_bg [OF network.hyps(2)] show ?case by simp
next
  case (timer outs n n' outs')
  with turn_accounts [OF timer_turn_ok [OF timer.hyps(2)]] timer_turn_bg [OF timer.hyps(2)] show ?case by simp
next
  case (request outs n req n' outs')
  from request_turn_run [OF request.hyps(2)] obtain r where "outs' = [Answer req r]"
    "n_bg_tx n' = n_bg_tx n @ accepted_txs req r" by blast
  with request.IH show ?case by (simp add: gossiped_def accepted_def)
next
  case (gossip outs n tx n' outs')
  from gossip.hyps(2) have t: "tx \<in> set (n_bg_tx n)" "n' = n\<lparr>n_bg_tx := remove1 tx (n_bg_tx n)\<rparr>"
    "outs' = [SendCommand (CommandBroadcastTransaction tx)]" by (auto simp: rpc_turn_def split: if_splits)
  then have "mset (n_bg_tx n) = add_mset tx (mset (n_bg_tx n'))" by simp
  moreover have "gossiped outs' = [tx]" "accepted outs' = []" unfolding t(3) by (simp_all add: gossiped_def accepted_def)
  ultimately show ?case using gossip.IH by simp
qed (simp add: assms(2) gossiped_def accepted_def)

lemma node_run_refines:
  assumes "node_run X V n0 outs n"
  shows "\<exists>acts. run X V (n_state n0) acts (n_state n) \<and>
    sent_commands outs \<subseteq> send_of ` set acts \<union> (range (case_prod Answer) \<union> range (\<lambda>tx. SendCommand (CommandBroadcastTransaction tx)))"
  using assms
proof induction
  case init
  then show ?case using run.start by fastforce
next
  case (network outs n ev n' outs')
  from turn_extends [OF network.IH network_turn_ok [OF network.hyps(2)]] show ?case .
next
  case (timer outs n n' outs')
  from turn_extends [OF timer.IH timer_turn_ok [OF timer.hyps(2)]] show ?case .
next
  case (request outs n req n' outs')
  from request_turn_run [OF request.hyps(2)] obtain acts r where a: "run X V (n_state n) acts (n_state n')"
    "outs' = [Answer req r]" by blast
  from request.IH obtain acts0 where "run X V (n_state n0) acts0 (n_state n)" "sent_commands outs \<subseteq> send_of ` set acts0 \<union>
    (range (case_prod Answer) \<union> range (\<lambda>tx. SendCommand (CommandBroadcastTransaction tx)))" by blast
  with run_trans [OF a(1)] a(2) show ?case by (intro exI [of _ "acts0 @ acts"]) auto
next
  case (gossip outs n tx n' outs')
  then show ?case by (auto simp: rpc_turn_def split: if_splits)
qed

lemma start_node_simplex:
  assumes "start_node X V i limit s = Some n"
  obtains pk sk cmt root where "new_simplex_state X V pk sk cmt s new_tx_pool root limit limit = Some (n_state n)"
  using assms that by (auto simp: start_node_def Let_def bind_eq_Some_conv split: prod.splits)

section \<open>The node behind its channels\<close>

text \<open>The application of the network component: one turn of the loop, and the commands it sends.\<close>

fun commands_of :: "node_output list \<Rightarrow> network_command list" where
  "commands_of [] = []"
| "commands_of (SendCommand c # outs) = c # commands_of outs"
| "commands_of (ResetTimer # outs) = commands_of outs"
| "commands_of (Answer req r # outs) = commands_of outs"

definition node_react ::
  "('x) exec_lib_scheme \<Rightarrow> 's storage_trait \<Rightarrow> 's node \<Rightarrow> network_event \<Rightarrow> ('s node \<times> network_command list) option" where
  "node_react X V n ev = (case network_turn X V n ev of
     Some (Some (n', outs)) \<Rightarrow> Some (n', commands_of outs) | _ \<Rightarrow> None)"

lemma block_request_react:
  assumes "n_started n" and "get_block V (ss_storage (n_state n)) h = Inr (Some b)"
  shows "node_react X V n (SyncMessageReceived (RequestBlock h) p) =
    Some (n, [CommandBroadcastSync (ResponseBlock b)])"
proof -
  have "drain X V (n_state n) [SendBlock b p] =
      Some (Some (n_state n, [SendCommand (CommandBroadcastSync (ResponseBlock b))]))"
    by (subst drain.simps, subst (2) drain.simps) simp
  with assms show ?thesis by (simp add: node_react_def network_turn_def on_block_request_def process_actions_def)
qed

end
