(* ===== verification/Node_Properties.thy ===== *)
theory Node_Properties
  imports Node_Loop Sample_Run
begin

text \<open>
  Properties of the running node and of its network task: every turn ends, the loop is a run of
  the handlers, a stopped node resumes, what is gossiped arrives, and when the two tasks block
  each other.
\<close>

section \<open>A sample node\<close>

definition sample_node :: "u64 \<Rightarrow> mem_storage node option" where
  "sample_node i = start_node sample_lib (mem_impl sample_lib) i 30000 new_mem_storage"

definition connected :: "u64 \<Rightarrow> (mem_storage node \<times> mem_storage node \<times> node_output list) option" where
  "connected i =
     (case sample_node i of None \<Rightarrow> None
      | Some n \<Rightarrow>
          (case network_turn sample_lib (mem_impl sample_lib) n (PeerConnected ''peer'') of
             Some (Some (n', outs)) \<Rightarrow> Some (n, n', outs)
           | _ \<Rightarrow> None))"

lemma connectedE:
  assumes "case connected i of None \<Rightarrow> False | Some (n, n', outs) \<Rightarrow> Q n n' outs"
  obtains n n' outs where "start_node sample_lib (mem_impl sample_lib) i 30000 new_mem_storage = Some n"
    "network_turn sample_lib (mem_impl sample_lib) n (PeerConnected ''peer'') = Some (Some (n', outs))"
    "Q n n' outs"
  using assms unfolding connected_def sample_node_def
  by (auto split: option.splits prod.splits)

section \<open>The event loop\<close>

text \<open>
  C17: no turn of the event loop runs forever.  The queue of actions grows only when the node's
  own vote completes a certificate for a view that had none, so on any store that keeps what it
  is given the processing of every network event and of every timeout ends.
\<close>

theorem turns_end:
  assumes "chain_store V absm hb"
  shows "network_turn X V n ev \<noteq> None \<and> timer_turn X V n \<noteq> None"
proof -
  have p: "\<exists>y. process_actions X V n' r = Some y" for n' r
  proof (cases r)
    case (Inr q)
    obtain y where "drain X V (n_state n') q = Some y" using chain_store.drain_returns [OF assms] by blast
    then show ?thesis by (simp add: Inr process_actions_def)
  qed (simp add: process_actions_def)
  have "\<exists>y. network_turn X V n ev = Some y"
  proof (cases "dispatch X V n ev")
    case (Some d)
    obtain n1 outs r where d: "d = (n1, outs, r)" by (cases d)
    obtain y where "process_actions X V n1 r = Some y" using p by blast
    then show ?thesis by (simp add: Some d network_turn_def)
  qed (simp add: network_turn_def)
  moreover have "\<exists>y. timer_turn X V n = Some y"
    using p by (cases "on_timeout X (n_state n) (current_view (n_state n))") (auto simp: timer_turn_def)
  ultimately show ?thesis by auto
qed

theorem turns_end_witness:
  "\<exists>n n' outs. sample_node 1 = Some n \<and>
     network_turn sample_lib (mem_impl sample_lib) n (PeerConnected ''peer'') = Some (Some (n', outs)) \<and>
     n_started n' \<and> timer_turn sample_lib (mem_impl sample_lib) n' \<noteq> None"
proof -
  have "case connected 1 of None \<Rightarrow> False | Some (n, n', outs) \<Rightarrow> n_started n'" by code_simp
  then show ?thesis
  proof (rule connectedE)
    fix n n' outs
    assume "start_node sample_lib (mem_impl sample_lib) 1 30000 new_mem_storage = Some n"
      "network_turn sample_lib (mem_impl sample_lib) n (PeerConnected ''peer'') = Some (Some (n', outs))"
      and "n_started n'"
    with turns_end [OF reliable_store.axioms(1) [OF mem.reliable_store_axioms [of sample_lib]], of sample_lib n']
    show ?thesis unfolding sample_node_def by blast
  qed
qed

text \<open>
  C6: the running node is a run of the consensus handlers.  Whatever the peers send, the timer
  does and the users of the server ask for, the state of the node is one that the handlers
  reach from its initial state, and all it sends are the actions they returned and the
  transactions its server accepted: each accepted transaction has been gossiped once or is
  still waiting.
\<close>

theorem node_refines_run:
  assumes "start_node X V i limit s = Some n0" and "node_run X V n0 outs n"
  shows "reachable X V (n_state n) \<and>
    (\<exists>acts. run X V (n_state n0) acts (n_state n) \<and>
       (\<forall>c. SendCommand c \<in> set outs \<longrightarrow> c \<in> command_of ` set acts \<or> (\<exists>tx. c = CommandBroadcastTransaction tx))) \<and>
    mset (gossiped outs) + mset (n_bg_tx n) = mset (accepted outs)"
proof -
  from node_run_refines [OF assms(2)] obtain acts where r: "run X V (n_state n0) acts (n_state n)"
    and c: "sent_commands outs \<subseteq> send_of ` set acts \<union>
      (range (case_prod Answer) \<union> range (\<lambda>tx. SendCommand (CommandBroadcastTransaction tx)))" by blast
  obtain pk sk cmt root where "new_simplex_state X V pk sk cmt s new_tx_pool root limit limit = Some (n_state n0)"
    by (rule start_node_simplex [OF assms(1)])
  from reachableI [OF this r] have "reachable X V (n_state n)" .
  moreover have "\<forall>c. SendCommand c \<in> set outs \<longrightarrow> c \<in> command_of ` set acts \<or> (\<exists>tx. c = CommandBroadcastTransaction tx)"
    using c by (auto simp: sent_commands_def)
  moreover have "n_bg_tx n0 = []" using assms(1) by (auto simp: start_node_def Let_def bind_eq_Some_conv)
  ultimately show ?thesis using r node_run_accounts [OF assms(2)] by blast
qed

theorem node_refines_run_witness:
  "\<exists>n n' outs v. sample_node 1 = Some n \<and> node_run sample_lib (mem_impl sample_lib) n outs n' \<and>
     reachable sample_lib (mem_impl sample_lib) (n_state n') \<and>
     SendCommand (CommandBroadcastVote v) \<in> set outs"
proof -
  have "case connected 1 of None \<Rightarrow> False | Some (n, n', outs) \<Rightarrow>
    list_ex (\<lambda>c. case c of SendCommand (CommandBroadcastVote v) \<Rightarrow> True | _ \<Rightarrow> False) outs" by code_simp
  then show ?thesis
  proof (rule connectedE)
    fix n n' outs
    assume s: "start_node sample_lib (mem_impl sample_lib) 1 30000 new_mem_storage = Some n"
      and t: "network_turn sample_lib (mem_impl sample_lib) n (PeerConnected ''peer'') = Some (Some (n', outs))"
      and v: "list_ex (\<lambda>c. case c of SendCommand (CommandBroadcastVote v) \<Rightarrow> True | _ \<Rightarrow> False) outs"
    from node_run.network [OF node_run.init t] have r: "node_run sample_lib (mem_impl sample_lib) n outs n'" by simp
    from v obtain c where c: "c \<in> set outs" "case c of SendCommand (CommandBroadcastVote v) \<Rightarrow> True | _ \<Rightarrow> False"
      by (auto simp: list_ex_iff)
    from c(2) obtain v' where "c = SendCommand (CommandBroadcastVote v')"
      by (auto split: node_output.splits network_command.splits)
    with c(1) have "SendCommand (CommandBroadcastVote v') \<in> set outs" by simp
    with node_refines_run [OF s r] s r show ?thesis unfolding sample_node_def by blast
  qed
qed

text \<open>
  C15: the tables of a running node are well-formed at every moment.  Each vote it has counted is
  filed under its own view, type and author and carries a valid signature; each transaction in
  its pool is filed under its own hash, within the gas limit and correctly signed, and the queue
  lists the same hashes once each; each entry of its evidence pool is about two blocks of one
  view and one author; and each buffered orphan waits for its own parent.
\<close>

theorem running_node_well_formed:
  assumes "start_node X V i limit s = Some n0" and "node_run X V n0 outs n"
  shows "votes_wf X (n_state n) \<and> pools_wf X (n_state n) \<and> orphans_wf (n_state n)"
proof -
  from node_run_refines [OF assms(2)] obtain acts where r: "run X V (n_state n0) acts (n_state n)" by blast
  obtain pk sk cmt root where n: "new_simplex_state X V pk sk cmt s new_tx_pool root limit limit = Some (n_state n0)"
    by (rule start_node_simplex [OF assms(1)])
  show ?thesis
    using vtab.keeps_run [OF r start_votes_wf [OF n]] pool.keeps_run [OF r start_pools [OF n pool_wf_new]]
      orph.keeps_run [OF r start_orphans_wf [OF n]] by blast
qed

theorem running_node_well_formed_witness:
  "\<exists>n n' outs. sample_node 1 = Some n \<and> node_run sample_lib (mem_impl sample_lib) n outs n' \<and>
     n_started n' \<and> pools_wf sample_lib (n_state n')"
proof -
  have "case connected 1 of None \<Rightarrow> False | Some (n, n', outs) \<Rightarrow> n_started n'" by code_simp
  then show ?thesis
  proof (rule connectedE)
    fix n n' outs
    assume s: "start_node sample_lib (mem_impl sample_lib) 1 30000 new_mem_storage = Some n"
      and t: "network_turn sample_lib (mem_impl sample_lib) n (PeerConnected ''peer'') = Some (Some (n', outs))"
      and n': "n_started n'"
    from node_run.network [OF node_run.init t] have r: "node_run sample_lib (mem_impl sample_lib) n outs n'" by simp
    with running_node_well_formed [OF s r] s n' show ?thesis unfolding sample_node_def by blast
  qed
qed

section \<open>Restart\<close>

text \<open>
  C5: a node that is stopped and started again resumes.  On any store whose operations do not
  fail, whenever the signal comes, the program starts again on the store that is left, with
  empty pools and vote tables, and has the view, the finalized height, the preferred block and
  the last voted view that it had in memory when it stopped.
\<close>

theorem restart_recovers:
  assumes "reliable_store V absm hb" and "start_node X V i limit s = Some n0" and "main_run X V n0 outs (Stopped s')"
  shows "\<exists>n n1. node_run X V n0 outs n \<and> start_node X V i limit' s' = Some n1 \<and> ss_storage (n_state n1) = s' \<and>
    current_view (n_state n1) = current_view (n_state n) \<and> finalized_height (n_state n1) = finalized_height (n_state n) \<and>
    preferred_block (n_state n1) = preferred_block (n_state n) \<and> preferred_view (n_state n1) = preferred_view (n_state n) \<and>
    last_voted_view (n_state n1) = last_voted_view (n_state n)"
proof -
  from assms(3) obtain n where n: "node_run X V n0 outs n" "s' = ss_storage (n_state n)" by (auto simp: main_run_simps)
  from node_run_refines [OF n(1)] obtain acts where r: "run X V (n_state n0) acts (n_state n)" by blast
  from assms(2) obtain pk sk cmt root where k: "generate_keypair_from_id X i = Some (pk, sk)"
    "committee_of_ids X [0, 1, 2, 3, 4] = Some cmt"
    "new_simplex_state X V pk sk cmt s new_tx_pool root limit limit = Some (n_state n0)"
    by (auto simp: start_node_def Let_def bind_eq_Some_conv)
  obtain st2 where st2: "new_simplex_state X V pk sk cmt (ss_storage (n_state n)) new_tx_pool
      (sm_root (new_state_manager s' (initial_root V s'))) limit' limit' = Some st2"
    "in_memory st2 = in_memory (n_state n)" "ss_storage st2 = s'"
    using restarts [OF assms(1) k(3) r] n(2) by metis
  then have "start_node X V i limit' s' =
      Some \<lparr> n_state = st2, n_block_gas_limit = limit', n_bg_tx = [], n_connected_peers = 0, n_started = False \<rparr>"
    using k(1,2) n(2) by (simp add: start_node_def Let_def)
  with n(1) st2(2,3) show ?thesis by (simp add: in_memory_def) blast
qed

theorem restart_recovers_witness:
  "\<exists>n outs s' n1. sample_node 1 = Some n \<and> main_run sample_lib (mem_impl sample_lib) n outs (Stopped s') \<and> outs \<noteq> [] \<and>
     start_node sample_lib (mem_impl sample_lib) 1 40000 s' = Some n1 \<and> ss_storage (n_state n1) = s'"
proof -
  have "case connected 1 of None \<Rightarrow> False | Some (n, n', outs) \<Rightarrow> outs \<noteq> []" by code_simp
  then show ?thesis
  proof (rule connectedE)
    fix n n' outs
    assume s: "start_node sample_lib (mem_impl sample_lib) 1 30000 new_mem_storage = Some n"
      and t: "network_turn sample_lib (mem_impl sample_lib) n (PeerConnected ''peer'') = Some (Some (n', outs))"
      and o: "outs \<noteq> []"
    from node_run.network [OF node_run.init t] have "node_run sample_lib (mem_impl sample_lib) n outs n'" by simp
    from main_run.ctrl_c [OF main_run.running [OF this]]
    have m: "main_run sample_lib (mem_impl sample_lib) n outs (Stopped (ss_storage (n_state n')))" .
    from restart_recovers [OF mem.reliable_store_axioms s m, of 40000] s m o show ?thesis
      unfolding sample_node_def by blast
  qed
qed

section \<open>Gossip\<close>

text \<open>
  What a node asks to broadcast arrives as it was meant.  If the codec parses back what it
  wrote and takes no message for one of a type that is tried earlier, the data published for an
  action becomes exactly one event at each peer: the vote, the evidence, the block, the request
  or the block asked for.
\<close>

theorem gossip_delivers:
  assumes "gossip_codec_ok N" and "encode_command N (command_of a) = Some (Inr data)"
  shows "handle_swarm_event N w (GossipMessage (Some peer) data) =
    (w, [case a of BroadcastVote v \<Rightarrow> VoteReceived v
         | BroadcastEvidence e \<Rightarrow> EvidenceReceived e
         | BroadcastBlock b \<Rightarrow> BlockReceived b
         | BroadcastRequest h \<Rightarrow> SyncMessageReceived (RequestBlock h) peer
         | SendBlock b _ \<Rightarrow> SyncMessageReceived (ResponseBlock b) peer])"
  using decode_encoded [OF assms, of "Some peer"] by (cases a) auto

text \<open>A network whose codec writes one message, a request for the block \<open>h\<close>.\<close>

definition sample_net :: "hash \<Rightarrow> unit net_lib" where
  "sample_net h = \<lparr>
     build_swarm = Inr (), parse_multiaddr = Inr, listen_on = (\<lambda>_ _. Inr ()), subscribe = (\<lambda>_ _. Inr ()),
     publish = (\<lambda>_ _ _. Inr ()), add_explicit_peer = (\<lambda>_ _. ()), remove_explicit_peer = (\<lambda>_ _. ()),
     swarm_dial = (\<lambda>_ _. Inr ()),
     to_vec_block = (\<lambda>_. Inl ''unsupported''), from_slice_block = (\<lambda>_. Inl ''missing field''),
     to_vec_vote = (\<lambda>_. Inl ''unsupported''), from_slice_vote = (\<lambda>_. Inl ''missing field''),
     to_vec_evidence = (\<lambda>_. Inl ''unsupported''), from_slice_evidence = (\<lambda>_. Inl ''missing field''),
     to_vec_transaction = (\<lambda>_. Inl ''unsupported''), from_slice_transaction = (\<lambda>_. Inl ''missing field''),
     to_vec_sync = (\<lambda>m. if m = RequestBlock h then Inr [82] else Inl ''unsupported''),
     from_slice_sync = (\<lambda>bs. if bs = [82] then Inr (RequestBlock h) else Inl ''invalid'') \<rparr>"

theorem gossip_delivers_witness:
  "encode_command (sample_net (Hash 7)) (command_of (BroadcastRequest (Hash 7))) = Some (Inr [82]) \<and>
   handle_swarm_event (sample_net (Hash 7)) () (GossipMessage (Some ''peer'') [82]) =
     ((), [SyncMessageReceived (RequestBlock (Hash 7)) ''peer''])"
proof -
  have "gossip_codec_ok (sample_net (Hash 7))"
    by (auto simp: gossip_codec_ok_def sample_net_def split: if_splits)
  moreover have "encode_command (sample_net (Hash 7)) (command_of (BroadcastRequest (Hash 7))) = Some (Inr [82])"
    by (simp add: sample_net_def)
  ultimately show ?thesis
    using gossip_delivers [of "sample_net (Hash 7)" "BroadcastRequest (Hash 7)" "[82]" "()" "''peer''"] by simp
qed

section \<open>Two tasks and two channels\<close>

text \<open>
  The network task and the application, as long as the application does not panic on the
  next event, can always go on, except in one situation: both channels are full, and both wait
  to send.
\<close>

theorem stuck_iff_deadlocked:
  assumes "net_steps N react idle (net_start w m) st" and "\<And>ev. react (main_state st) ev \<noteq> None"
  shows "(\<nexists>st'. net_step N react idle st st') \<longleftrightarrow> deadlocked st"
proof -
  have "channels_bounded (net_start w m)" by (simp add: channels_bounded_def net_start_def)
  from net_steps_bounded [OF assms(1) this] have "channels_bounded st" .
  from progress [where react = react, OF this _ assms(2)] deadlocked_stuck show ?thesis by blast
qed

theorem stuck_iff_deadlocked_witness:
  "\<exists>st'. net_step (sample_net (Hash 7)) (\<lambda>m ev. Some (m, [])) (\<lambda>_ _. False) (net_start () ()) st'"
proof -
  have "\<not> deadlocked (net_start () ())" by (simp add: deadlocked_def net_start_def)
  with stuck_iff_deadlocked [of "sample_net (Hash 7)" "\<lambda>m ev. Some (m, [])" "\<lambda>_ _. False" "()" "()" "net_start () ()"]
  show ?thesis by blast
qed

text \<open>
  C40: that situation can be forced from outside.  If the swarm keeps delivering requests for a
  stored block (identical messages are dropped, but requests may differ in white space), a
  started node can get, from empty channels, into a state from which neither task ever moves
  again: first the channel of the commands fills with the answers, then that of the events.
\<close>

theorem requests_deadlock:
  assumes "n_started n" and "get_block V (ss_storage (n_state n)) h = Inr (Some b)"
    and "decode_message N (Some peer) data = [SyncMessageReceived (RequestBlock h) peer]"
  shows "\<exists>st. net_steps N (node_react X V) idle (net_start w n) st \<and> deadlocked st \<and>
    (\<forall>st'. \<not> net_step N (node_react X V) idle st st')"
proof (rule flood_deadlock)
  show "handle_swarm_event N w (GossipMessage (Some peer) data) = (w, [SyncMessageReceived (RequestBlock h) peer])"
    using assms(3) by simp
  show "node_react X V n (SyncMessageReceived (RequestBlock h) peer) = Some (n, [CommandBroadcastSync (ResponseBlock b)])"
    by (rule block_request_react [OF assms(1,2)])
qed

theorem requests_deadlock_witness:
  "\<exists>(n :: mem_storage node) h st. n_started n \<and>
     net_steps (sample_net h) (node_react sample_lib (mem_impl sample_lib)) (\<lambda>_ _. True) (net_start () n) st \<and>
     deadlocked st"
proof -
  have "case connected 1 of None \<Rightarrow> False | Some (n, n', outs) \<Rightarrow>
    n_started n' \<and> \<not> Option.is_none (ms_blocks (ss_storage (n_state n')) (preferred_block (n_state n')))" by code_simp
  then obtain n :: "mem_storage node" where n: "n_started n"
    "\<not> Option.is_none (ms_blocks (ss_storage (n_state n)) (preferred_block (n_state n)))"
    by (rule connectedE) (elim conjE, erule that)
  let ?h = "preferred_block (n_state n)"
  from n(2) obtain b where b: "ms_blocks (ss_storage (n_state n)) ?h = Some b"
    by (cases "ms_blocks (ss_storage (n_state n)) ?h") auto
  have "get_block (mem_impl sample_lib) (ss_storage (n_state n)) ?h = Inr (Some b)"
    using b by (simp add: mem_impl_def)
  moreover have "decode_message (sample_net ?h) (Some ''peer'') [82] = [SyncMessageReceived (RequestBlock ?h) ''peer'']"
    by (simp add: decode_message_def sample_net_def)
  ultimately obtain st where
    "net_steps (sample_net ?h) (node_react sample_lib (mem_impl sample_lib)) (\<lambda>_ _. True) (net_start () n) st"
    "deadlocked st"
    using requests_deadlock [OF n(1), of "mem_impl sample_lib" ?h b "sample_net ?h" "''peer''" "[82]" sample_lib "\<lambda>_ _. True" "()"]
    by blast
  with n(1) show ?thesis by blast
qed

end
