(* ===== verification/Client.thy ===== *)
theory Client
  imports Rpc
begin

text \<open>
  The model of \<open>src/src/client.rs\<close>.  The HTTP client is a third-party package: it is the record
  \<open>http_client\<close> of the requests the code makes, each with the answer and the next state of the
  world.  \<open>local_client\<close> connects a client to the server of \<open>Rpc\<close>.
\<close>

record ('w, 'e) http_client =
  request_block_by_hash :: "'w \<Rightarrow> hash \<Rightarrow> 'w \<times> ('e + block option)"
  request_latest_block :: "'w \<Rightarrow> 'w \<times> ('e + block option)"
  request_balance :: "'w \<Rightarrow> address \<Rightarrow> 'w \<times> ('e + u256)"
  request_transaction_count :: "'w \<Rightarrow> address \<Rightarrow> 'w \<times> ('e + u64)"
  request_chain_id :: "'w \<Rightarrow> 'w \<times> ('e + u64)"
  request_suggest_base_fee :: "'w \<Rightarrow> 'w \<times> ('e + u256)"
  request_send_transaction :: "'w \<Rightarrow> transaction \<Rightarrow> 'w \<times> ('e + hash)"

section \<open>Queries\<close>

definition client_get_block_by_hash :: "('w, 'e) http_client \<Rightarrow> 'w \<Rightarrow> hash \<Rightarrow> 'w \<times> ('e + block option)" where
  "client_get_block_by_hash C w h = request_block_by_hash C w h"

definition client_get_latest_block :: "('w, 'e) http_client \<Rightarrow> 'w \<Rightarrow> 'w \<times> ('e + block option)" where
  "client_get_latest_block C w = request_latest_block C w"

definition client_get_balance :: "('w, 'e) http_client \<Rightarrow> 'w \<Rightarrow> address \<Rightarrow> 'w \<times> ('e + u256)" where
  "client_get_balance C w a = request_balance C w a"

definition client_get_transaction_count :: "('w, 'e) http_client \<Rightarrow> 'w \<Rightarrow> address \<Rightarrow> 'w \<times> ('e + u64)" where
  "client_get_transaction_count C w a = request_transaction_count C w a"

section \<open>Sending a transaction\<close>

definition saturating_mul :: "u256 \<Rightarrow> u256 \<Rightarrow> u256" where
  "saturating_mul a b = (if unat a * unat b < 2 ^ 256 then a * b else - 1)"

definition saturating_add :: "u256 \<Rightarrow> u256 \<Rightarrow> u256" where
  "saturating_add a b = (if unat a + unat b < 2 ^ 256 then a + b else - 1)"

text \<open>The transaction of lines 86 to 99, still under the default signature.\<close>

definition unsigned_transaction ::
  "('x) blst_lib_scheme \<Rightarrow> signature \<Rightarrow> u64 \<Rightarrow> u256 \<Rightarrow> u64 \<Rightarrow> address option \<Rightarrow> u256 \<Rightarrow> bytes \<Rightarrow>
   private_key \<Rightarrow> transaction" where
  "unsigned_transaction X sig chain_id base_fee nonce to val data key =
     (let priority_fee = 1000000;
          max_fee = saturating_add (saturating_mul base_fee 2) priority_fee
      in \<lparr> tx_chain_id = chain_id, tx_nonce = nonce, tx_max_priority_fee_per_gas = priority_fee,
           tx_max_fee_per_gas = max_fee, tx_gas_limit = 100000, tx_to = to, tx_value = val,
           tx_data = data, tx_access_list = [], tx_public_key = public_key_of X key,
           tx_signature = sig \<rparr>)"

definition sign_transaction :: "('x) types_lib_scheme \<Rightarrow> private_key \<Rightarrow> transaction \<Rightarrow> transaction" where
  "sign_transaction X key tx = tx\<lparr>tx_signature := sign X key (hash_bytes (sighash X tx))\<rparr>"

definition client_tx ::
  "('x) types_lib_scheme \<Rightarrow> signature \<Rightarrow> u64 \<Rightarrow> u256 \<Rightarrow> u64 \<Rightarrow> address option \<Rightarrow> u256 \<Rightarrow> bytes \<Rightarrow>
   private_key \<Rightarrow> transaction" where
  "client_tx X sig chain_id base_fee nonce to val data key =
     sign_transaction X key (unsigned_transaction X sig chain_id base_fee nonce to val data key)"

definition client_send_transaction ::
  "('x) types_lib_scheme \<Rightarrow> ('w, 'e) http_client \<Rightarrow> 'w \<Rightarrow> u64 \<Rightarrow> address option \<Rightarrow> u256 \<Rightarrow> bytes \<Rightarrow>
   private_key \<Rightarrow> ('w \<times> ('e + hash)) option" where
  "client_send_transaction X C w nonce to val data key =
     (case request_chain_id C w of
        (w1, Inl e) \<Rightarrow> Some (w1, Inl e)
      | (w1, Inr chain_id) \<Rightarrow>
          (case request_suggest_base_fee C w1 of
             (w2, Inl e) \<Rightarrow> Some (w2, Inl e)
           | (w2, Inr base_fee) \<Rightarrow> do {
               sig \<leftarrow> default_signature X;
               Some (request_send_transaction C w2 (client_tx X sig chain_id base_fee nonce to val data key))
             }))"

section \<open>A client of the node's own server\<close>

text \<open>No answer at all, when the handler panics, is the error \<^term>\<open>None\<close>.\<close>

definition local_client ::
  "('x) exec_lib_scheme \<Rightarrow> 's storage_trait \<Rightarrow> ('s ockham_rpc_impl, rpc_error option) http_client" where
  "local_client X V =
     \<lparr> request_block_by_hash = (\<lambda>w h. (w, map_err Some (rpc_get_block_by_hash V w h))),
       request_latest_block = (\<lambda>w. (w, map_err Some (rpc_get_latest_block V w))),
       request_balance = (\<lambda>w a. (w, map_err Some (rpc_get_balance V w a))),
       request_transaction_count = (\<lambda>w a. (w, map_err Some (rpc_get_transaction_count V w a))),
       request_chain_id = (\<lambda>w. (w, map_err Some rpc_chain_id)),
       request_suggest_base_fee = (\<lambda>w. (w, case rpc_suggest_base_fee V w of
          Some r \<Rightarrow> map_err Some r | None \<Rightarrow> Inl None)),
       request_send_transaction = (\<lambda>w tx. (case rpc_send_transaction X V w tx of (w', r) \<Rightarrow> (w', map_err Some r))) \<rparr>"

lemma sighash_unsigned [simp]: "sighash X (tx\<lparr>tx_signature := s\<rparr>) = sighash X tx"
  by (simp add: sighash_def)

lemma signed_transaction_verifies:
  assumes "blst_sign_ok X" and "tx_public_key tx = public_key_of X key"
  shows "verify X (tx_public_key (sign_transaction X key tx))
    (hash_bytes (sighash X (sign_transaction X key tx))) (tx_signature (sign_transaction X key tx))"
  using assms by (simp add: sign_transaction_def verify_sign)

lemma max_fee_covers: "fee \<le> saturating_add (saturating_mul fee 2) p"
proof -
  have "fee \<le> saturating_mul fee 2"
  proof (cases "unat fee * 2 < 2 ^ 256")
    case True
    then have "unat (fee * 2) = unat fee * 2" by (simp add: unat_word_ariths)
    with True show ?thesis by (simp add: saturating_mul_def word_le_nat_alt)
  qed (simp add: saturating_mul_def)
  also have "\<dots> \<le> saturating_add (saturating_mul fee 2) p"
  proof (cases "unat (saturating_mul fee 2) + unat p < 2 ^ 256")
    case True
    then have "unat (saturating_mul fee 2 + p) = unat (saturating_mul fee 2) + unat p"
      by (simp add: unat_word_ariths)
    with True show ?thesis by (simp add: saturating_add_def word_le_nat_alt)
  qed (simp add: saturating_add_def)
  finally show ?thesis .
qed

lemma client_tx_simps:
  "tx_gas_limit (client_tx X sig c fee nonce to val data key) = 100000"
  "tx_nonce (client_tx X sig c fee nonce to val data key) = nonce"
  "tx_public_key (client_tx X sig c fee nonce to val data key) = public_key_of X key"
  "tx_max_fee_per_gas (client_tx X sig c fee nonce to val data key) = saturating_add (saturating_mul fee 2) 1000000"
  by (simp_all add: client_tx_def sign_transaction_def unsigned_transaction_def)

lemma client_tx_verifies:
  assumes "blst_sign_ok X"
  shows "verify X (public_key_of X key) (hash_bytes (sighash X (client_tx X sig c fee nonce to val data key)))
    (tx_signature (client_tx X sig c fee nonce to val data key))"
  using signed_transaction_verifies [OF assms, of "unsigned_transaction X sig c fee nonce to val data key" key]
  by (simp add: client_tx_def sign_transaction_def unsigned_transaction_def)

end
