(* ===== verification/Service_Properties.thy ===== *)
theory Service_Properties
  imports Redb Client Node_Properties
begin

text \<open>
  Properties of the parts around the state machine: the persistent store, the JSON-RPC server
  and the client that talks to it.
\<close>

section \<open>The persistent store\<close>

text \<open>
  C18: \<open>RedbStorage\<close> refines \<open>MemStorage\<close>.  If the database keeps what a committed transaction
  inserted and the codec parses back what it wrote, every operation that succeeds on the
  database gives the answer, or leads to the state, that the same operation of the in-memory
  store gives on the tables read as maps; keys never collide, not even the composite ones of
  storage slots and tree branches.
\<close>

theorem redb_refines_memory:
  assumes "redb_ok R contents" and "bincode_ok R"
  shows "refines_store (redb_impl X R) (redb_abs R contents) (mem_impl X)"
  by (rule chain_store_refines_mem [OF redb_chain_store [OF assms]])

text \<open>A database that is its tables, with a codec that writes byte strings only.\<close>

type_synonym tables = "redb_table \<Rightarrow> redb_key \<rightharpoonup> bytes"

definition sample_redb :: "(tables, tables, tables) redb_lib" where
  "sample_redb = \<lparr>
     create_dir_all = (\<lambda>_. Inr ()), database_create = (\<lambda>_. Inr (\<lambda>_ _. None)), begin_write = Inr,
     open_table = (\<lambda>txn _. Inr txn), table_insert = (\<lambda>txn t k v. Inr (txn(t := (txn t)(k \<mapsto> v)))),
     txn_commit = (\<lambda>_ txn. Inr txn), begin_read = Inr, open_table_ro = (\<lambda>_ _. Inr ()),
     table_get = (\<lambda>txn t k. Inr (txn t k)),
     ser_block = (\<lambda>_. Inl ''unsupported''), de_block = (\<lambda>_. Inl ''unsupported''),
     ser_qc = (\<lambda>_. Inl ''unsupported''), de_qc = (\<lambda>_. Inl ''unsupported''),
     ser_state = (\<lambda>_. Inl ''unsupported''), de_state = (\<lambda>_. Inl ''unsupported''),
     ser_account = (\<lambda>_. Inl ''unsupported''), de_account = (\<lambda>_. Inl ''unsupported''),
     ser_bytes = Inr, de_bytes = Inr,
     ser_u256 = (\<lambda>_. Inl ''unsupported''), de_u256 = (\<lambda>_. Inl ''unsupported'') \<rparr>"

theorem redb_refines_memory_witness:
  "\<exists>db db'. new_redb_storage sample_redb [''db'', ''node_0''] = Inr db \<and>
     save_code (redb_impl sample_lib sample_redb) db (Hash 7) [1, 2] = Inr db' \<and>
     get_code (mem_impl sample_lib) (redb_abs sample_redb (\<lambda>db. db) db') (Hash 7) = Inr (Some [1, 2])"
proof -
  have ok: "redb_ok sample_redb (\<lambda>db. db)" "bincode_ok sample_redb"
    by (simp_all add: redb_ok_def bincode_ok_def sample_redb_def)
  let ?db = "(\<lambda>_ _. None) :: tables"
  let ?db' = "?db(TABLE_CODE := [KeyBytes (hash_bytes (Hash 7)) \<mapsto> [1, 2]])"
  have "new_redb_storage sample_redb [''db'', ''node_0''] = Inr ?db"
    by (simp add: new_redb_storage_def all_tables_def sample_redb_def)
  moreover have "save_code (redb_impl sample_lib sample_redb) ?db (Hash 7) [1, 2] = Inr ?db'"
    by (simp add: redb_impl_def redb_ops redb_write_def sample_redb_def)
  moreover have "get_code (redb_impl sample_lib sample_redb) ?db' (Hash 7) = Inr (Some [1, 2])"
    by (simp add: redb_impl_def redb_ops redb_read_def sample_redb_def)
  then have "get_code (mem_impl sample_lib) (redb_abs sample_redb (\<lambda>db. db) ?db') (Hash 7) = Inr (Some [1, 2])"
    by (rule refines_get_code [OF redb_refines_memory [OF ok]])
  ultimately show ?thesis by blast
qed

section \<open>The suggested fee\<close>

text \<open>
  C29: \<open>suggest_base_fee\<close> mirrors the consensus code.  On a store that does not fail, at any moment
  of a node's life, if the server has the gas limit of the node, the fee it suggests is the
  base fee of the block that the node would propose on its preferred block.
\<close>

theorem suggested_fee_is_charged:
  assumes "reliable_store V absm hb" and "start_node X V i limit s = Some n0" and "node_run X V n0 outs n"
    and "n_block_gas_limit n = ss_block_gas_limit (n_state n)"
    and "create_proposal X V (n_state n) vw qc (preferred_block (n_state n)) = Some (Inr b)"
  shows "serve X V (rpc_of n) SuggestBaseFee = Some (rpc_of n, Inr (AmountReply (b_base_fee_per_gas b)))"
proof -
  from node_run_refines [OF assms(3)] obtain acts where r: "run X V (n_state n0) acts (n_state n)" by blast
  obtain pk sk cmt root where "new_simplex_state X V pk sk cmt s new_tx_pool root limit limit = Some (n_state n0)"
    by (rule start_node_simplex [OF assms(2)])
  from started_synced [OF assms(1) this r] obtain cs where
    cs: "ms_state (absm (ss_storage (n_state n))) = Some cs" "cs_preferred_block cs = preferred_block (n_state n)"
    by (auto simp: synced_def managed_def in_memory_def)
  from cs(1) have "get_consensus_state V (ss_storage (n_state n)) = Inr (Some cs)"
    using reliable_store.get_consensus_state_eq [OF assms(1)] by simp
  moreover from assms(5) obtain p where "get_block V (ss_storage (n_state n)) (preferred_block (n_state n)) = Inr (Some p)"
    "calculate_next_base_fee (ss_block_gas_limit (n_state n)) p = Some (b_base_fee_per_gas b)"
    by (auto simp: create_proposal_def new_block_def Let_def bind_eq_Some_conv split: sum.splits option.splits)
  ultimately show ?thesis using cs(2) assms(4)
    by (auto simp: rpc_suggest_base_fee_def rpc_of_def new_ockham_rpc_impl_def reply_def calculate_next_base_fee_def Let_def split: if_splits)
qed

text \<open>The block node 1 of the sample committee would propose first.\<close>

definition first_block :: "(mem_storage node \<times> block) option" where
  "first_block =
     (case sample_node 1 of None \<Rightarrow> None
      | Some n \<Rightarrow>
          (case create_proposal sample_lib (mem_impl sample_lib) (n_state n) 1
                  \<lparr> qc_view = 0, qc_block_hash = preferred_block (n_state n), qc_signature = Signature [], qc_signers = [] \<rparr>
                  (preferred_block (n_state n)) of
             Some (Inr b) \<Rightarrow> Some (n, b)
           | _ \<Rightarrow> None))"

lemma first_blockE:
  assumes "case first_block of None \<Rightarrow> False | Some (n, b) \<Rightarrow> Q n b"
  obtains n b qc where "start_node sample_lib (mem_impl sample_lib) 1 30000 new_mem_storage = Some n"
    "create_proposal sample_lib (mem_impl sample_lib) (n_state n) 1 qc (preferred_block (n_state n)) = Some (Inr b)"
    "Q n b"
  using assms unfolding first_block_def sample_node_def
  by (auto split: option.splits sum.splits)

theorem suggested_fee_is_charged_witness:
  "\<exists>n b qc. sample_node 1 = Some n \<and>
     create_proposal sample_lib (mem_impl sample_lib) (n_state n) 1 qc (preferred_block (n_state n)) = Some (Inr b) \<and>
     serve sample_lib (mem_impl sample_lib) (rpc_of n) SuggestBaseFee = Some (rpc_of n, Inr (AmountReply (b_base_fee_per_gas b)))"
proof -
  have "case first_block of None \<Rightarrow> False | Some (n, b) \<Rightarrow> n_block_gas_limit n = ss_block_gas_limit (n_state n)" by code_simp
  then show ?thesis
  proof (rule first_blockE)
    fix n b qc
    assume s: "start_node sample_lib (mem_impl sample_lib) 1 30000 new_mem_storage = Some n"
      and p: "create_proposal sample_lib (mem_impl sample_lib) (n_state n) 1 qc (preferred_block (n_state n)) = Some (Inr b)"
      and l: "n_block_gas_limit n = ss_block_gas_limit (n_state n)"
    from suggested_fee_is_charged [OF mem.reliable_store_axioms [of sample_lib] s node_run.init l p] s p
    show ?thesis unfolding sample_node_def by auto
  qed
qed

section \<open>A transaction from the client\<close>

text \<open>
  C28: a transaction that the client builds is accepted.  With a working signature library, a
  nonce that is not below the account's and no such transaction in the pool, sending it to a
  node's server returns its hash, puts it into the pool and hands it to the broadcast channel;
  it is correctly signed, and its fee cap is at least the suggested base fee, also when that
  is so high that doubling it saturates.
\<close>

theorem client_transaction_accepted:
  assumes "blst_sign_ok X" and "default_signature X = Some sig"
    and "rpc_suggest_base_fee V srv = Some (Inr fee)"
    and "get_account V (rpc_storage srv) (pk_address X (public_key_of X key)) = Inr acc"
    and "(case acc of Some a \<Rightarrow> ai_nonce a | None \<Rightarrow> 0) \<le> nonce"
    and "tx = client_tx X sig 1337 fee nonce to val data key"
    and "map_of (tp_transactions (rpc_tx_pool srv)) (hash_transaction X tx) = None"
  shows "\<exists>srv'. client_send_transaction X (local_client X V) srv nonce to val data key =
      Some (srv', Inr (hash_transaction X tx)) \<and>
    map_of (tp_transactions (rpc_tx_pool srv')) (hash_transaction X tx) = Some tx \<and>
    rpc_broadcast srv' = rpc_broadcast srv @ [tx] \<and>
    verify X (tx_public_key tx) (hash_bytes (sighash X tx)) (tx_signature tx) \<and> fee \<le> tx_max_fee_per_gas tx"
proof -
  let ?h = "hash_transaction X tx" and ?p = "rpc_tx_pool srv"
  let ?p' = "?p\<lparr>tp_transactions := AList.update ?h tx (tp_transactions ?p), tp_queue := tp_queue ?p @ [?h]\<rparr>"
  have v: "verify X (tx_public_key tx) (hash_bytes (sighash X tx)) (tx_signature tx)"
    using client_tx_verifies [OF assms(1)] by (simp add: assms(6) client_tx_simps)
  have "\<not> tx_nonce tx < (case acc of Some a \<Rightarrow> ai_nonce a | None \<Rightarrow> 0)"
    using assms(5) by (simp add: assms(6) client_tx_simps not_less)
  moreover have "\<not> tx_gas_limit tx > MAX_TX_GAS_LIMIT" by (simp add: assms(6) client_tx_simps MAX_TX_GAS_LIMIT_def)
  moreover have "get_account V (rpc_storage srv) (sender X tx) = Inr acc"
    using assms(4) by (simp add: sender_def assms(6) client_tx_simps)
  ultimately have "add_transaction X V (rpc_storage srv) ?p tx = (?p', Inr ())"
    using v assms(7) by (simp add: add_transaction_def Let_def)
  then have "client_send_transaction X (local_client X V) srv nonce to val data key =
      Some (srv\<lparr>rpc_tx_pool := ?p', rpc_broadcast := rpc_broadcast srv @ [tx]\<rparr>, Inr ?h)"
    using assms(2,3,6)
    by (simp add: client_send_transaction_def local_client_def rpc_chain_id_def rpc_send_transaction_def Let_def)
  moreover have "fee \<le> tx_max_fee_per_gas tx" by (simp add: assms(6) client_tx_simps max_fee_covers)
  ultimately show ?thesis using v by (simp add: update_conv')
qed

theorem client_transaction_accepted_witness:
  "\<exists>srv' h. client_send_transaction sample_lib (local_client sample_lib (mem_impl sample_lib))
      (new_ockham_rpc_impl new_mem_storage new_tx_pool 0 30000) 0 None 5 [] (PrivateKey [1]) = Some (srv', Inr h) \<and>
    rpc_broadcast srv' \<noteq> []"
proof -
  let ?srv = "new_ockham_rpc_impl new_mem_storage new_tx_pool 0 30000"
  obtain sig where sig: "default_signature sample_lib = Some sig"
    by (simp add: default_signature_def sample_lib_def)
  have "rpc_suggest_base_fee (mem_impl sample_lib) ?srv = Some (Inr (ucast INITIAL_BASE_FEE))"
    "get_account (mem_impl sample_lib) (rpc_storage ?srv) (pk_address sample_lib (public_key_of sample_lib (PrivateKey [1]))) = Inr None"
    "map_of (tp_transactions (rpc_tx_pool ?srv)) h = None" for h
    by (simp_all add: rpc_suggest_base_fee_def new_ockham_rpc_impl_def mem_impl_def new_mem_storage_def new_tx_pool_def)
  from client_transaction_accepted [OF sample_sign_ok sig this(1,2) _ refl this(3), of 0 None 5 "[]"]
  show ?thesis by auto
qed

section \<open>Blocks by number\<close>

lemma char_digit_10: "d < 10 \<Longrightarrow> char_digit 10 (char_of (48 + d)) = Some d"
  by (simp add: char_digit_def Let_def of_char_of)

lemma decimal_digits:
  "\<exists>ds. map (char_digit 10) (decimal n) = map Some ds \<and> digits_value 10 0 ds = n"
proof (induction n rule: decimal.induct)
  case (1 n)
  show ?case
  proof (cases "n < 10")
    case True
    then show ?thesis
      by (intro exI [of _ "[n]"]) (simp add: decimal.simps char_digit_10 digits_value_def)
  next
    case False
    with 1 obtain ds where "map (char_digit 10) (decimal (n div 10)) = map Some ds" "digits_value 10 0 ds = n div 10"
      by blast
    with False show ?thesis
      by (intro exI [of _ "ds @ [n mod 10]"])
         (subst decimal.simps, simp add: char_digit_10 digits_value_def)
  qed
qed

lemma decimal_chars: "c \<in> set (decimal n) \<Longrightarrow> char_digit 10 c \<noteq> None"
proof -
  assume "c \<in> set (decimal n)"
  then have "char_digit 10 c \<in> set (map (char_digit 10) (decimal n))" by simp
  moreover obtain ds where "map (char_digit 10) (decimal n) = map Some ds" using decimal_digits [of n] by blast
  ultimately show ?thesis by (auto simp del: set_map simp: set_map [of Some])
qed

lemma decimal_not_Nil: "decimal n \<noteq> []"
  by (subst decimal.simps) simp

lemma decimal_parses: "from_str_radix 10 (decimal (unat v)) = Some v"
proof -
  have "hd (decimal (unat v)) \<noteq> CHR ''+''"
    using decimal_chars [OF hd_in_set [OF decimal_not_Nil], of "unat v"] by (auto simp: char_digit_def)
  moreover have "parse_digits 10 0 (decimal (unat v)) = Some v"
    using decimal_digits [of "unat v"] by (subst parse_digits_value) auto
  ultimately show ?thesis
    using decimal_not_Nil [of "unat v"] by (auto simp: from_str_radix_def Let_def split: list.split)
qed

lemma view_of_decimal: "view_of_number (decimal (unat v)) = v"
proof (cases "decimal (unat v)")
  case (Cons c1 cs)
  show ?thesis
  proof (cases cs)
    case Nil
    with Cons decimal_parses [of v] show ?thesis by (simp add: view_of_number_def)
  next
    case (Cons c2 cs')
    with \<open>decimal (unat v) = c1 # cs\<close> have "c2 \<noteq> CHR ''x''"
      using decimal_chars [of c2 "unat v"] by (auto simp: char_digit_def)
    with Cons \<open>decimal (unat v) = c1 # cs\<close> decimal_parses [of v] show ?thesis by (simp add: view_of_number_def)
  qed
qed (simp add: decimal_not_Nil)

text \<open>
  \<open>get_block_by_number\<close> with a view written in decimal returns the block certified in exactly
  that view, for every 64-bit view; but a name that is no number, such as the usual tag
  \<open>pending\<close>, is not refused: it is answered as view 0.
\<close>

theorem block_by_number:
  "rpc_get_block_by_number V srv (decimal (unat v)) = block_of_view V srv v \<and>
   rpc_get_block_by_number V srv ''pending'' = block_of_view V srv 0"
proof -
  have "decimal (unat v) \<noteq> ''latest''"
    using decimal_chars [of "CHR ''l''" "unat v"] by (auto simp: char_digit_def)
  then have "rpc_get_block_by_number V srv (decimal (unat v)) = block_of_view V srv v"
    by (simp add: rpc_get_block_by_number_def view_of_decimal)
  moreover have "view_of_number ''pending'' = 0" by code_simp
  ultimately show ?thesis by (simp add: rpc_get_block_by_number_def)
qed

end
