(* ===== verification/System.thy ===== *)
theory System
  imports Startup Certificates
begin

text \<open>
  Several nodes and a network between them.  The network may delay, drop, reorder, repeat and
  invent messages; what it cannot do is sign for an honest node.  A system is the honest nodes
  and everything they have broadcast, with its sender.
\<close>

section \<open>Systems\<close>

type_synonym sent_log = "(public_key \<times> consensus_action) list"

record 's system =
  sys_nodes :: "(public_key \<times> 's simplex_state) list"
  sys_sent :: sent_log

text \<open>A network that delivers nothing but what was sent.\<close>

fun genuine :: "sent_log \<Rightarrow> event \<Rightarrow> bool" where
  "genuine sent (VoteIn v) = ((v_author v, BroadcastVote v) \<in> set sent)"
| "genuine sent (ProposalIn b) = ((b_author b, BroadcastBlock b) \<in> set sent)"
| "genuine sent (ResponseIn b) = list_ex (\<lambda>(_, a). case a of SendBlock b' _ \<Rightarrow> b' = b | _ \<Rightarrow> False) sent"
| "genuine sent (EvidenceIn e) = list_ex (\<lambda>(_, a). a = BroadcastEvidence e) sent"
| "genuine sent _ = True"

definition has_voted :: "sent_log \<Rightarrow> public_key \<Rightarrow> hash \<Rightarrow> bool" where
  "has_voted sent a h =
     list_ex (\<lambda>(p, act). p = a \<and> (case act of BroadcastVote u \<Rightarrow> v_block_hash u = h | _ \<Rightarrow> False)) sent"

text \<open>
  An adversary: any message at all, but a vote with a valid signature of an honest node is for
  a block that node has signed, in whatever view.
\<close>

fun unforged :: "('x) blst_lib_scheme \<Rightarrow> public_key set \<Rightarrow> sent_log \<Rightarrow> event \<Rightarrow> bool" where
  "unforged X H sent (VoteIn v) =
     (verified_vote X v \<longrightarrow> v_author v \<in> H \<longrightarrow> has_voted sent (v_author v) (v_block_hash v))"
| "unforged X H sent _ = True"

definition system_turn ::
  "('x) exec_lib_scheme \<Rightarrow> 's storage_trait \<Rightarrow> (sent_log \<Rightarrow> event \<Rightarrow> bool) \<Rightarrow> 's system \<Rightarrow>
   public_key \<times> event \<Rightarrow> 's system option" where
  "system_turn X V ok s t =
     (case t of (p, ev) \<Rightarrow>
      case map_of (sys_nodes s) p of
        None \<Rightarrow> None
      | Some st \<Rightarrow>
          (if \<not> ok (sys_sent s) ev then None
           else case handle X V st ev of
             None \<Rightarrow> None
           | Some (st', r) \<Rightarrow>
               Some \<lparr> sys_nodes = AList.update p st' (sys_nodes s), sys_sent = sys_sent s @ map (Pair p) (actions_of r) \<rparr>))"

text \<open>Runs as long as the nodes that act have the committee \<open>cmt\<close>: one epoch of validators.\<close>

inductive system_run ::
  "('x) exec_lib_scheme \<Rightarrow> 's storage_trait \<Rightarrow> (sent_log \<Rightarrow> event \<Rightarrow> bool) \<Rightarrow> public_key list \<Rightarrow>
   's system \<Rightarrow> 's system \<Rightarrow> bool" for X V ok cmt s0 where
  init: "system_run X V ok cmt s0 s0"
| turn: "system_run X V ok cmt s0 s \<Longrightarrow> map_of (sys_nodes s) p = Some st \<Longrightarrow> committee st = cmt \<Longrightarrow>
     system_turn X V ok s (p, ev) = Some s' \<Longrightarrow> system_run X V ok cmt s0 s'"

definition fresh_node ::
  "('x) exec_lib_scheme \<Rightarrow> 's storage_trait \<Rightarrow> ('s \<Rightarrow> mem_storage) \<Rightarrow> public_key list \<Rightarrow> public_key \<Rightarrow>
   's simplex_state \<Rightarrow> bool" where
  "fresh_node X V absm cmt p st = (\<exists>sk s pool r el lim.
     new_simplex_state X V p sk cmt s pool r el lim = Some st \<and> ms_qcs (absm s) = Map.empty)"

definition system_start ::
  "('x) exec_lib_scheme \<Rightarrow> 's storage_trait \<Rightarrow> ('s \<Rightarrow> mem_storage) \<Rightarrow> public_key list \<Rightarrow> 's system \<Rightarrow> bool" where
  "system_start X V absm cmt s = (sys_sent s = [] \<and>
     (\<forall>p st. map_of (sys_nodes s) p = Some st \<longrightarrow> fresh_node X V absm cmt p st))"

fun system_turns ::
  "('x) exec_lib_scheme \<Rightarrow> 's storage_trait \<Rightarrow> (sent_log \<Rightarrow> event \<Rightarrow> bool) \<Rightarrow> public_key list \<Rightarrow>
   's system \<Rightarrow> (public_key \<times> event) list \<Rightarrow> 's system option" where
  "system_turns X V ok cmt s [] = Some s"
| "system_turns X V ok cmt s (t # ts) =
     (case map_of (sys_nodes s) (fst t) of
        None \<Rightarrow> None
      | Some st \<Rightarrow>
          (if committee st \<noteq> cmt then None
           else case system_turn X V ok s t of
             None \<Rightarrow> None
           | Some s' \<Rightarrow> system_turns X V ok cmt s' ts))"

lemma system_turns_run:
  "system_run X V ok cmt s0 s \<Longrightarrow> system_turns X V ok cmt s ts = Some s' \<Longrightarrow> system_run X V ok cmt s0 s'"
proof (induction ts arbitrary: s)
  case (Cons t ts)
  then obtain st s1 where t: "map_of (sys_nodes s) (fst t) = Some st" "committee st = cmt"
    "system_turn X V ok s t = Some s1" "system_turns X V ok cmt s1 ts = Some s'"
    by (auto split: option.splits if_splits)
  have "system_run X V ok cmt s0 s1"
    using system_run.turn [OF Cons.prems(1) t(1,2), of "snd t"] t(3) by simp
  then show ?case using t(4) by (rule Cons.IH)
qed simp

lemma system_turn_mono:
  assumes "\<And>sent ev. ok sent ev \<Longrightarrow> ok' sent ev" and "system_turn X V ok s t = Some s'"
  shows "system_turn X V ok' s t = Some s'"
  using assms by (cases t) (auto simp: system_turn_def split: option.splits if_splits)

lemma system_run_mono:
  assumes "\<And>sent ev. ok sent ev \<Longrightarrow> ok' sent ev" and "system_run X V ok cmt s0 s"
  shows "system_run X V ok' cmt s0 s"
  using assms(2)
proof induction
  case (turn s p st ev s')
  from system_run.turn [OF turn.IH turn.hyps(2,3) system_turn_mono [OF assms(1) turn.hyps(4)]] show ?case .
qed (rule system_run.init)

section \<open>Votes are counted once they arrive\<close>

interpretation tbl: quiet_steps X V "\<lambda>st. votes_received st = T" for X V T
  by unfold_locales (auto simp: step_defs elim!: step_elims)

lemma finalize_keeps_votes: "on_finalize_vote X V st v = Some (st', r) \<Longrightarrow> votes_received st' = votes_received st"
  by (erule on_finalize_voteE) (auto split: if_splits elim!: step_elims)

lemma handle_votes_received:
  assumes "handle X V st ev = Some (st', r)"
  shows "votes_received st' = votes_received st \<or>
    (\<exists>v. ev = VoteIn v \<and> verified_vote X v \<and> v_vote_type v = Notarize \<and>
       votes_received st' = votes_received (record_vote st v))"
proof (cases "\<exists>v. ev = VoteIn v")
  case True
  then obtain v where ev: "ev = VoteIn v" ..
  with assms have "on_vote X V st v = Some (st', r)" by simp
  then show ?thesis
  proof (cases rule: on_voteE)
    case finalize
    with finalize_keeps_votes show ?thesis by blast
  next
    case quorum
    from quorum(4) have "votes_received st' = votes_received (record_vote st v)"
    proof (cases rule: on_quorumE)
      case (formed qc s1 st1 st2 acts)
      show ?thesis by (rule tbl.keeps_certified [OF _ formed(4-6)]) simp
    qed simp
    with ev quorum(1,2) show ?thesis by (auto simp: verified_vote_def)
  qed (auto simp: ev verified_vote_def)
next
  case False
  then show ?thesis using tbl.keeps_quiet_handle [OF assms] by blast
qed

section \<open>What the network cannot invent\<close>

interpretation epoch: two_thirds_quorum "set cmt" "length cmt * 2 div 3 + 1" for cmt :: "public_key list"
proof
  show "2 * card (set cmt) < 3 * (length cmt * 2 div 3 + 1)" using card_length [of cmt] by presburger
qed simp

lemma has_votedI: "(a, BroadcastVote u) \<in> set sent \<Longrightarrow> v_block_hash u = h \<Longrightarrow> has_voted sent a h"
  by (force simp: has_voted_def list_ex_iff)

lemma has_voted_append [simp]: "has_voted sent a h \<Longrightarrow> has_voted (sent @ acts) a h"
  by (auto simp: has_voted_def)

lemma genuine_unforged: "genuine sent ev \<Longrightarrow> unforged X H sent ev"
  by (cases ev) (auto intro: has_votedI)

text \<open>
  A node is backed by what was sent: the votes of honest nodes it has counted, and the honest
  signers of the certificates it has stored, have signed those blocks.
\<close>

definition backed ::
  "('x) exec_lib_scheme \<Rightarrow> ('s \<Rightarrow> mem_storage) \<Rightarrow> public_key set \<Rightarrow> nat \<Rightarrow> sent_log \<Rightarrow>
   's simplex_state \<Rightarrow> bool" where
  "backed X absm H k sent st = (votes_wf X st \<and>
     (\<forall>vw a v. map_of (votes_of (votes_received st) vw) a = Some v \<longrightarrow> a \<in> H \<longrightarrow> has_voted sent a (v_block_hash v)) \<and>
     (\<forall>vw qc. qcs_of absm st vw = Some qc \<longrightarrow> vw \<noteq> 0 \<longrightarrow> certified X qc \<and> k \<le> length (qc_signers qc) \<and>
        (\<forall>a \<in> set (qc_signers qc). a \<in> H \<longrightarrow> has_voted sent a (qc_block_hash qc))))"

lemma backedD:
  assumes "backed X absm H k sent st"
  shows "votes_wf X st"
    "map_of (votes_of (votes_received st) vw) a = Some v \<Longrightarrow> a \<in> H \<Longrightarrow> has_voted sent a (v_block_hash v)"
    "qcs_of absm st vw = Some qc \<Longrightarrow> vw \<noteq> 0 \<Longrightarrow> certified X qc \<and> k \<le> length (qc_signers qc) \<and>
       (\<forall>a \<in> set (qc_signers qc). a \<in> H \<longrightarrow> has_voted sent a (qc_block_hash qc))"
  using assms unfolding backed_def by blast+

lemma backed_more: "backed X absm H k sent st \<Longrightarrow> backed X absm H k (sent @ acts) st"
  unfolding backed_def by (blast intro: has_voted_append)

context chain_store
begin

lemma fresh_backed:
  assumes "fresh_node X V absm cmt p st"
  shows "backed X absm H k sent st"
proof -
  from assms obtain sk s pool r el lim where
    n: "new_simplex_state X V p sk cmt s pool r el lim = Some st" and e: "ms_qcs (absm s) = Map.empty"
    unfolding fresh_node_def by blast
  have "votes_received st = Map.empty" using n by (auto elim!: new_simplex_stateE)
  moreover have "qcs_of absm st vw = None" if "vw \<noteq> 0" for vw
    using start_ledger [OF n] e that by (auto simp: ledger_def qcs_of_def)
  ultimately show ?thesis using start_votes_wf [OF n] by (fastforce simp: backed_def votes_of_def)
qed

lemma handle_backed:
  assumes "iteration_ok X" and "blst_aggregate_ok X" and b: "backed X absm H (threshold st) sent st"
    and h: "handle X V st ev = Some (st', r)" and u: "unforged X H sent ev"
  shows "backed X absm H (threshold st) sent st'"
proof -
  note wf = backedD(1) [OF b] and tb = backedD(2) [OF b]
  have rec: "has_voted sent a (v_block_hash v)"
    if "ev = VoteIn w" "verified_vote X w" "map_of (votes_of (votes_received (record_vote st w)) vw) a = Some v" "a \<in> H" for w vw a v
    using that u tb [of vw a v] by (auto simp: record_vote_def update_conv' split: if_splits)
  have "votes_wf X st'" using vtab.keeps_handle [OF h wf] .
  moreover have "has_voted sent a (v_block_hash v)"
    if "map_of (votes_of (votes_received st') vw) a = Some v" "a \<in> H" for vw a v
    using handle_votes_received [OF h] that tb rec by metis
  moreover have "certified X qc \<and> threshold st \<le> length (qc_signers qc) \<and>
      (\<forall>a \<in> set (qc_signers qc). a \<in> H \<longrightarrow> has_voted sent a (qc_block_hash qc))"
    if q: "qcs_of absm st' vw = Some qc" "vw \<noteq> 0" for vw qc
  proof (cases "qcs_of absm st' = qcs_of absm st")
    case True
    with q backedD(3) [OF b] show ?thesis by simp
  next
    case False
    then obtain w c where w: "ev = VoteIn w" "v_vote_type w = Notarize" "verified_vote X w"
      and c: "qcs_of absm st' = (qcs_of absm st)(v_view w \<mapsto> c)" "certified X c" "qc_block_hash c = v_block_hash w"
        "qc_signers c = map v_author (matching_votes X (record_vote st w) w)" "threshold st \<le> length (qc_signers c)"
      by (rule new_certificate [OF assms(1,2) wf h])
    have wf': "votes_wf X (record_vote st w)" using vtab.vote [OF wf w(3,2)] .
    have "has_voted sent a (qc_block_hash c)" if "a \<in> set (qc_signers c)" "a \<in> H" for a
    proof -
      from that(1) c(4) obtain v where v: "v \<in> set (matching_votes X (record_vote st w) w)" "a = v_author v" by auto
      note m = matching_votes_props [OF assms(1) wf' v(1)]
      from rec [OF w(1,3), of "v_view w" a v] m v(2) that(2) c(3) show ?thesis by simp
    qed
    with c q backedD(3) [OF b] show ?thesis by (cases "vw = v_view w") auto
  qed
  ultimately show ?thesis unfolding backed_def by blast
qed

lemma system_backed:
  assumes "iteration_ok X" and "blst_aggregate_ok X"
    and "system_run X V (unforged X H) cmt s0 s" and "system_start X V absm cmt s0"
    and "map_of (sys_nodes s) p = Some st"
  shows "backed X absm H (length cmt * 2 div 3 + 1) (sys_sent s) st"
  using assms(3,5)
proof (induction arbitrary: p st)
  case init
  with assms(4) show ?case by (auto simp: system_start_def intro: fresh_backed)
next
  case (turn s q stq ev s')
  from turn.hyps(2,4) obtain st' r where h: "unforged X H (sys_sent s) ev" "handle X V stq ev = Some (st', r)"
    "s' = \<lparr> sys_nodes = AList.update q st' (sys_nodes s), sys_sent = sys_sent s @ map (Pair q) (actions_of r) \<rparr>"
    by (auto simp: system_turn_def split: option.splits if_splits)
  have k: "threshold stq = length cmt * 2 div 3 + 1" using turn.hyps(3) by (simp add: threshold_def)
  have "backed X absm H (length cmt * 2 div 3 + 1) (sys_sent s) st'"
    using handle_backed [OF assms(1,2) _ h(2,1)] turn.IH [OF turn.hyps(2)] by (simp only: k)
  with turn.prems turn.IH [of p st] show ?case
    by (auto simp: h(3) update_conv' intro: backed_more split: if_splits)
qed

end

end
