(* ===== verification/System_Properties.thy ===== *)
theory System_Properties
  imports System Sample_Run
begin

text \<open>
  Properties of several nodes together: what agreement the certificates give, and how far the
  nodes can drift apart.
\<close>

section \<open>A system of four\<close>

definition four_nodes :: "mem_storage system option" where
  "four_nodes =
     (case sample_start [1] of None \<Rightarrow> None | Some st1 \<Rightarrow>
     (case sample_start [2] of None \<Rightarrow> None | Some st2 \<Rightarrow>
     (case sample_start [3] of None \<Rightarrow> None | Some st3 \<Rightarrow>
     (case sample_start [4] of None \<Rightarrow> None | Some st4 \<Rightarrow>
       Some \<lparr> sys_nodes = [(pk1, st1), (pk2, st2), (pk3, st3), (pk4, st4)], sys_sent = [] \<rparr>))))"

text \<open>The block that the second node proposes in view 1 once it has the transaction.\<close>

definition proposed_block :: "block option" where
  "proposed_block =
     (case sample_events [2] [TransactionIn funded_tx, Propose] of
        Some (st, BroadcastBlock b # acts) \<Rightarrow> Some b
      | _ \<Rightarrow> None)"

text \<open>
  The second node proposes and all vote for its block; then the others time out before they
  see the votes.  Two nodes hear the votes for the block first, two the timeouts.
\<close>

definition split_turns :: "block \<Rightarrow> (public_key \<times> event) list" where
  "split_turns b = (let h = hash_block sample_lib b in
     [(pk2, TransactionIn funded_tx), (pk2, Propose),
      (pk1, ProposalIn b), (pk3, ProposalIn b), (pk4, ProposalIn b),
      (pk1, TimeoutAt 1), (pk3, TimeoutAt 1), (pk4, TimeoutAt 1),
      (pk1, vote_in [2] Notarize 1 h), (pk1, vote_in [3] Notarize 1 h), (pk1, vote_in [4] Notarize 1 h),
      (pk3, vote_in [1] Notarize 1 h), (pk3, vote_in [2] Notarize 1 h), (pk3, vote_in [4] Notarize 1 h),
      (pk2, vote_in [1] Notarize 1 default_hash), (pk2, vote_in [3] Notarize 1 default_hash),
      (pk2, vote_in [4] Notarize 1 default_hash),
      (pk4, vote_in [1] Notarize 1 default_hash), (pk4, vote_in [3] Notarize 1 default_hash),
      (pk4, vote_in [4] Notarize 1 default_hash),
      (pk1, vote_in [2] Finalize 1 default_hash), (pk1, vote_in [4] Finalize 1 default_hash),
      (pk1, vote_in [3] Finalize 1 h),
      (pk2, vote_in [1] Finalize 1 h), (pk2, vote_in [3] Finalize 1 h), (pk2, vote_in [4] Finalize 1 default_hash)])"

lemma split_evaluates:
  "case four_nodes of None \<Rightarrow> False | Some s0 \<Rightarrow>
   (case proposed_block of None \<Rightarrow> False | Some b \<Rightarrow>
   (case system_turns sample_lib (mem_impl sample_lib) genuine [pk1, pk2, pk3, pk4] s0 (split_turns b) of
      None \<Rightarrow> False
    | Some s \<Rightarrow>
        (case map_of (sys_nodes s) pk1 of None \<Rightarrow> False | Some st1 \<Rightarrow>
        (case map_of (sys_nodes s) pk2 of None \<Rightarrow> False | Some st2 \<Rightarrow>
        (case ms_qcs (ss_storage st1) 1 of None \<Rightarrow> False | Some qc1 \<Rightarrow>
        (case ms_qcs (ss_storage st2) 1 of None \<Rightarrow> False | Some qc2 \<Rightarrow>
          finalized_height st1 = 1 \<and> finalized_height st2 = 1 \<and> executor_root st1 \<noteq> executor_root st2 \<and>
          qc_block_hash qc1 \<noteq> qc_block_hash qc2 \<and>
          list_all (\<lambda>a. a \<in> set [pk1, pk2, pk3, pk4]) (qc_signers qc1 @ qc_signers qc2)))))))"
  by code_simp

lemma four_nodes_start:
  assumes "four_nodes = Some s"
  shows "system_start sample_lib (mem_impl sample_lib) (\<lambda>m. m) [pk1, pk2, pk3, pk4] s"
proof -
  have n: "fresh_node sample_lib (mem_impl sample_lib) (\<lambda>m. m) [pk1, pk2, pk3, pk4] (PublicKey k) st" if "sample_start k = Some st" for k st
    using that unfolding sample_start_def fresh_node_def by (fastforce simp: new_mem_storage_def)
  show ?thesis using assms n [of "[1]", folded pk1_def] n [of "[2]", folded pk2_def]
      n [of "[3]", folded pk3_def] n [of "[4]", folded pk4_def]
    by (auto simp: four_nodes_def system_start_def split: option.splits if_splits)
qed

lemma split_run:
  obtains s0 s st1 st2 qc1 qc2 where "four_nodes = Some s0"
    "system_run sample_lib (mem_impl sample_lib) genuine [pk1, pk2, pk3, pk4] s0 s"
    "map_of (sys_nodes s) pk1 = Some st1" "map_of (sys_nodes s) pk2 = Some st2"
    "ms_qcs (ss_storage st1) 1 = Some qc1" "ms_qcs (ss_storage st2) 1 = Some qc2"
    "finalized_height st1 = 1" "finalized_height st2 = 1" "executor_root st1 \<noteq> executor_root st2"
    "qc_block_hash qc1 \<noteq> qc_block_hash qc2"
    "set (qc_signers qc1) \<subseteq> set [pk1, pk2, pk3, pk4]" "set (qc_signers qc2) \<subseteq> set [pk1, pk2, pk3, pk4]"
proof -
  obtain s0 b s st1 st2 qc1 qc2 where e: "four_nodes = Some s0"
    "system_turns sample_lib (mem_impl sample_lib) genuine [pk1, pk2, pk3, pk4] s0 (split_turns b) = Some s"
    "map_of (sys_nodes s) pk1 = Some st1" "map_of (sys_nodes s) pk2 = Some st2"
    "ms_qcs (ss_storage st1) 1 = Some qc1" "ms_qcs (ss_storage st2) 1 = Some qc2"
    "finalized_height st1 = 1" "finalized_height st2 = 1" "executor_root st1 \<noteq> executor_root st2"
    "qc_block_hash qc1 \<noteq> qc_block_hash qc2"
    "list_all (\<lambda>a. a \<in> set [pk1, pk2, pk3, pk4]) (qc_signers qc1 @ qc_signers qc2)"
    using split_evaluates by (elim case_optionE FalseE conjE) blast
  from e(11) have "set (qc_signers qc1) \<subseteq> set [pk1, pk2, pk3, pk4]" "set (qc_signers qc2) \<subseteq> set [pk1, pk2, pk3, pk4]"
    by (auto simp: list_all_iff)
  with that [OF e(1) system_turns_run [OF system_run.init e(2)] e(3-10)] show ?thesis by blast
qed

section \<open>Agreement\<close>

text \<open>
  C1: what agreement the certificates give.  Honest nodes start with one committee and no
  certificates, on stores that keep what they are given, and then handle any messages in any
  order, except that nobody else can sign for them.  If at most a third of the committee is not
  honest and two honest nodes hold certificates of the same view with signers from the
  committee, then some honest member has itself broadcast votes for both certified blocks.
\<close>

theorem system_agreement:
  assumes "chain_store V absm hb" and "iteration_ok X" and "blst_aggregate_ok X"
    and "system_start X V absm cmt s0" and "system_run X V (unforged X H) cmt s0 s"
    and "3 * card (set cmt - H) \<le> card (set cmt)"
    and "map_of (sys_nodes s) p = Some st1" "ms_qcs (absm (ss_storage st1)) vw = Some qc1" "set (qc_signers qc1) \<subseteq> set cmt"
    and "map_of (sys_nodes s) q = Some st2" "ms_qcs (absm (ss_storage st2)) vw = Some qc2" "set (qc_signers qc2) \<subseteq> set cmt"
    and "vw \<noteq> 0"
  shows "\<exists>a \<in> set cmt \<inter> H. has_voted (sys_sent s) a (qc_block_hash qc1) \<and> has_voted (sys_sent s) a (qc_block_hash qc2)"
proof -
  let ?k = "length cmt * 2 div 3 + 1"
  note b = chain_store.system_backed [OF assms(1-3,5,4)]
  have c1: "certified X qc1 \<and> ?k \<le> length (qc_signers qc1) \<and>
      (\<forall>a \<in> set (qc_signers qc1). a \<in> H \<longrightarrow> has_voted (sys_sent s) a (qc_block_hash qc1))"
    using backedD(3) [OF b [OF assms(7)], of vw] assms(8,13) by (simp add: qcs_of_def)
  have c2: "certified X qc2 \<and> ?k \<le> length (qc_signers qc2) \<and>
      (\<forall>a \<in> set (qc_signers qc2). a \<in> H \<longrightarrow> has_voted (sys_sent s) a (qc_block_hash qc2))"
    using backedD(3) [OF b [OF assms(10)], of vw] assms(11,13) by (simp add: qcs_of_def)
  have "?k \<le> card (set (qc_signers qc1))" "?k \<le> card (set (qc_signers qc2))"
    using c1 c2 by (simp_all add: certified_def distinct_card)
  from epoch.correct_in_both [OF assms(9,12) this assms(6)] obtain a
    where "a \<in> set (qc_signers qc1)" "a \<in> set (qc_signers qc2)" "a \<notin> set cmt - H" by auto
  with c1 c2 assms(9) show ?thesis by blast
qed

theorem system_agreement_witness:
  "\<exists>s0 s a h h'. system_run sample_lib (mem_impl sample_lib) genuine [pk1, pk2, pk3, pk4] s0 s \<and>
    h \<noteq> h' \<and> has_voted (sys_sent s) a h \<and> has_voted (sys_sent s) a h'"
proof (rule split_run)
  fix s0 s st1 st2 qc1 qc2
  let ?c = "[pk1, pk2, pk3, pk4]"
  assume s0: "four_nodes = Some s0" and r: "system_run sample_lib (mem_impl sample_lib) genuine ?c s0 s"
    and n: "map_of (sys_nodes s) pk1 = Some st1" "map_of (sys_nodes s) pk2 = Some st2"
    and q: "ms_qcs (ss_storage st1) 1 = Some qc1" "ms_qcs (ss_storage st2) 1 = Some qc2"
    and ne: "qc_block_hash qc1 \<noteq> qc_block_hash qc2"
    and m: "set (qc_signers qc1) \<subseteq> set ?c" "set (qc_signers qc2) \<subseteq> set ?c"
  have "system_run sample_lib (mem_impl sample_lib) (unforged sample_lib (set ?c)) ?c s0 s"
    by (rule system_run_mono [OF genuine_unforged r])
  from system_agreement [OF mem.chain_store_axioms [of sample_lib] sample_iteration_ok sample_aggregate_ok
      four_nodes_start [OF s0] this _ n(1) q(1) m(1) n(2) q(2) m(2)]
  obtain a where "has_voted (sys_sent s) a (qc_block_hash qc1)" "has_voted (sys_sent s) a (qc_block_hash qc2)" by auto
  with r ne show ?thesis by blast
qed

text \<open>
  A run in which honest nodes end apart: four of them, over a network that only delivers what
  they sent, each message unchanged.  Two finalize the same view and end with different state
  roots, since finalize votes for the block and for the timeout are counted together.
\<close>

theorem four_nodes_diverge:
  "\<exists>s0 s st1 st2. system_start sample_lib (mem_impl sample_lib) (\<lambda>m. m) [pk1, pk2, pk3, pk4] s0 \<and>
     system_run sample_lib (mem_impl sample_lib) genuine [pk1, pk2, pk3, pk4] s0 s \<and>
     map_of (sys_nodes s) pk1 = Some st1 \<and> map_of (sys_nodes s) pk2 = Some st2 \<and>
     finalized_height st1 = 1 \<and> finalized_height st2 = 1 \<and> executor_root st1 \<noteq> executor_root st2"
  by (rule split_run) (blast dest: four_nodes_start)

end
