(* ===== verification/Progress.thy ===== *)
theory Progress
  imports Acceptance Certificates Quorum Startup
begin

text \<open>
  What enough votes achieve: votes that arrive one by one, in any state of the tables, certify
  their block as soon as they are a quorum, and finalize votes commit it.
\<close>

section \<open>Counting notarize votes\<close>

definition supporters :: "'s simplex_state \<Rightarrow> view \<Rightarrow> hash \<Rightarrow> public_key set" where
  "supporters st w h = {a. \<exists>v. map_of (votes_of (votes_received st) w) a = Some v \<and> v_block_hash v = h}"

lemma finite_supporters [simp]: "finite (supporters st w h)"
  by (rule finite_subset [OF _ finite_dom_map_of [of "votes_of (votes_received st) w"]]) (auto simp: supporters_def)

lemma record_vote_fields [simp]:
  "committee (record_vote st v) = committee st" "my_id (record_vote st v) = my_id st" "my_key (record_vote st v) = my_key st"
  "current_view (record_vote st v) = current_view st" "ss_storage (record_vote st v) = ss_storage st"
  "threshold (record_vote st v) = threshold st" "is_leader (record_vote st v) w = is_leader st w"
  by (simp_all add: record_vote_def threshold_def is_leader_def)

lemma create_vote_cong: "my_id st' = my_id st \<Longrightarrow> my_key st' = my_key st \<Longrightarrow> create_vote X st' = create_vote X st"
  by (simp add: create_vote_def fun_eq_iff)

lemma supporters_record:
  "supporters (record_vote st v) (v_view v) (v_block_hash v) = insert (v_author v) (supporters st (v_view v) (v_block_hash v))"
  by (auto simp: supporters_def record_vote_def update_conv' split: if_splits)

lemma voters_supporters:
  assumes "iteration_ok X" and "votes_wf X st"
  shows "voters X st v = supporters st (v_view v) (v_block_hash v)"
proof
  show "voters X st v \<subseteq> supporters st (v_view v) (v_block_hash v)"
    using voter_recorded [OF assms] unfolding supporters_def by blast
  show "supporters st (v_view v) (v_block_hash v) \<subseteq> voters X st v"
  proof
    fix a
    let ?l = "votes_of (votes_received st) (v_view v)"
    assume "a \<in> supporters st (v_view v) (v_block_hash v)"
    then obtain u where u: "map_of ?l a = Some u" "v_block_hash u = v_block_hash v" unfolding supporters_def by blast
    have wf: "table_wf X Notarize (v_view v) ?l" using assms(2) by (simp add: votes_wf_def)
    have "set (iter_votes X ?l) = set ?l" using assms(1) unfolding iteration_ok_def by (metis set_mset_mset)
    with map_of_SomeD [OF u(1)] have "u \<in> snd ` set (iter_votes X ?l)" by force
    with u(2) have "u \<in> set (matching_votes X st v)" by (simp add: matching_votes_def)
    with table_wfD(1) [OF wf u(1)] show "a \<in> voters X st v" unfolding voters_def by blast
  qed
qed

lemma matching_count:
  assumes "iteration_ok X" and "votes_wf X st"
  shows "length (matching_votes X st v) = card (supporters st (v_view v) (v_block_hash v))"
  using card_voters [OF assms, of v] voters_supporters [OF assms, of v] by simp

definition ballot :: "('x) exec_lib_scheme \<Rightarrow> view \<Rightarrow> hash \<Rightarrow> vote \<Rightarrow> bool" where
  "ballot X w h v = (verified_vote X v \<and> v_vote_type v = Notarize \<and> v_view v = w \<and> v_block_hash v = h)"

definition unopposed :: "'s simplex_state \<Rightarrow> vote \<Rightarrow> bool" where
  "unopposed st v = (\<forall>u. map_of (votes_of (votes_received st) (v_view v)) (v_author v) = Some u \<longrightarrow> \<not> conflicting u v)"

lemma unopposed_record:
  "unopposed st u \<Longrightarrow> v_view u = v_view v \<Longrightarrow> v_block_hash u = v_block_hash v \<Longrightarrow> unopposed (record_vote st v) u"
  by (auto simp: unopposed_def record_vote_def update_conv' conflicting_def split: if_splits)

lemma ballot_wf: "votes_wf X st \<Longrightarrow> ballot X w h v \<Longrightarrow> votes_wf X (record_vote st v)"
  using vtab.vote by (auto simp: ballot_def)

lemma on_vote_unopposed:
  assumes "verified_vote X v" and "v_vote_type v = Notarize" and "unopposed st v"
  shows "on_vote X V st v =
    (if threshold st \<le> length (matching_votes X (record_vote st v) v)
     then on_quorum X V (record_vote st v) v (matching_votes X (record_vote st v) v)
     else Some (record_vote st v, Inr []))"
proof (cases "map_of (votes_of (votes_received st) (v_view v)) (v_author v)")
  case None
  with assms(1,2) show ?thesis
    by (simp add: on_vote_def Let_def verified_vote_def matching_votes_def record_vote_def threshold_def)
next
  case (Some u)
  then have "\<not> (v_block_hash u \<noteq> v_block_hash v \<and> v_block_hash u \<noteq> default_hash \<and> v_block_hash v \<noteq> default_hash)"
    using assms(3) by (simp add: unopposed_def conflicting_def)
  with Some assms(1,2) show ?thesis
    by (simp only: on_vote_def Let_def verified_vote_def matching_votes_def record_vote_def threshold_def
        vote_type.distinct simp_thms if_True if_False option.case votes_of_upd) simp
qed

lemma on_vote_ballot:
  assumes "iteration_ok X" and "votes_wf X st" and b: "ballot X w h v" and "unopposed st v"
  shows "on_vote X V st v =
    (if threshold st \<le> card (supporters (record_vote st v) w h)
     then on_quorum X V (record_vote st v) v (matching_votes X (record_vote st v) v)
     else Some (record_vote st v, Inr []))"
  using matching_count [OF assms(1) ballot_wf [OF assms(2) b], of v] on_vote_unopposed [of X v st V] assms(3,4)
  by (simp add: ballot_def)

section \<open>From votes to a certificate\<close>

context reliable_store
begin

lemma quorum_certifies:
  assumes "iteration_ok X" and "blst_aggregate_ok X" and "votes_wf X st"
    and "threshold st \<le> length (matching_votes X st v)" and "ms_qcs (absm (ss_storage st)) (v_view v) = None"
    and "v_view v < v_view v + 1" and "is_leader st (v_view v + 1) = Some False"
  obtains st' qc where "on_quorum X V st v (matching_votes X st v) =
      Some (st', Inr [BroadcastVote (create_vote X st (v_view v) (v_block_hash v) Finalize)])"
    "v_view v < current_view st'" "ms_qcs (absm (ss_storage st')) (v_view v) = Some qc" "qc_block_hash qc = v_block_hash v"
    "votes_received st' = votes_received st" "votes_wf X st'"
proof -
  from form_qc_certified [OF assms(1-4)] obtain qc where qc: "form_qc X v (matching_votes X st v) = Some qc"
    "qc_view qc = v_view v" "qc_block_hash qc = v_block_hash v" by metis
  obtain s1 where s1: "save_qc V (ss_storage st) qc = Inr s1" using save_qc_ok by blast
  obtain st1 where st1: "update_preferred_chain X V (st\<lparr>ss_storage := s1\<rparr>) qc = Some st1" using preferred_returns by blast
  obtain st2 where st2: "(if v_view v + 1 > current_view st1
      then persist_state X V (st1\<lparr>current_view := v_view v + 1\<rparr>) else Some st1) = Some st2"
    using persist_returns [of X "st1\<lparr>current_view := v_view v + 1\<rparr>"] by (cases "v_view v + 1 > current_view st1") auto
  have f1: "my_id st1 = my_id st" "my_key st1 = my_key st" "committee st1 = committee st"
    "votes_received st1 = votes_received st" "finalize_votes_received st1 = finalize_votes_received st"
    using st1 by (auto elim!: update_preferred_chainE)
  have f2: "committee st2 = committee st" "my_id st2 = my_id st" "v_view v < current_view st2"
    "votes_received st2 = votes_received st" "finalize_votes_received st2 = finalize_votes_received st"
    using st2 f1 assms(6) by (auto split: if_splits elim!: persist_stateE)
  have "is_leader st2 (qc_view qc + 1) = Some False" using assms(7) f2 qc(2) by (simp add: is_leader_def split: if_splits)
  then have cp: "chain_proposal X V st2 qc = Some (st2, [])" by (simp add: chain_proposal_def)
  have none: "get_qc V (ss_storage st) (v_view v) = Inr None" using assms(5) get_qc_eq by simp
  have "on_quorum X V st v (matching_votes X st v) =
      Some (st2, Inr [BroadcastVote (create_vote X st (v_view v) (v_block_hash v) Finalize)])"
    using qc(1) none s1 st1 st2 cp create_vote_cong [OF f1(1,2), of X] by (simp add: on_quorum_def Let_def)
  moreover have "ms_qcs (absm (ss_storage st2)) (v_view v) = Some qc" using stored_after [OF s1 st1 st2] qc(2) by simp
  moreover have "votes_wf X st2" using assms(3) f2(4,5) by (simp add: votes_wf_def)
  ultimately show ?thesis using that f2 qc(3) by blast
qed

lemma quorum_again:
  assumes "iteration_ok X" and "blst_aggregate_ok X" and "votes_wf X st"
    and "threshold st \<le> length (matching_votes X st v)" and "ms_qcs (absm (ss_storage st)) (v_view v) = Some qc"
  shows "on_quorum X V st v (matching_votes X st v) = Some (st, Inr [])"
proof -
  from form_qc_certified [OF assms(1-4)] obtain qc' where "form_qc X v (matching_votes X st v) = Some qc'" by metis
  with assms(5) get_qc_eq show ?thesis by (simp add: on_quorum_def)
qed

text \<open>Votes that come after the certificate are counted and change nothing else.\<close>

lemma ballots_after:
  assumes "iteration_ok X" and "blst_aggregate_ok X" and "votes_wf X st"
    and "\<forall>v \<in> set vs. ballot X w h v \<and> unopposed st v" and "ms_qcs (absm (ss_storage st)) w = Some qc"
  shows "\<exists>st'. run_events X V st (map VoteIn vs) = Some (st', []) \<and> current_view st' = current_view st \<and>
    ss_storage st' = ss_storage st"
  using assms(3-5)
proof (induction vs arbitrary: st)
  case (Cons v vs)
  then have b: "ballot X w h v" "unopposed st v" by simp_all
  let ?st = "record_vote st v"
  note wf = ballot_wf [OF Cons.prems(1) b(1)]
  have "on_vote X V st v = Some (?st, Inr [])"
    using on_vote_ballot [OF assms(1) Cons.prems(1) b, of V] matching_count [OF assms(1) wf, of v] b(1)
      quorum_again [OF assms(1,2) wf, of v qc] Cons.prems(3) by (auto simp: ballot_def)
  moreover have "\<forall>u \<in> set vs. ballot X w h u \<and> unopposed ?st u"
    using Cons.prems(2) by (auto simp: ballot_def intro: unopposed_record)
  with Cons.IH [OF wf] Cons.prems(3) obtain st' where "run_events X V ?st (map VoteIn vs) = Some (st', [])"
    "current_view st' = current_view ?st" "ss_storage st' = ss_storage ?st" by auto
  ultimately show ?case by simp
qed simp

lemma ballots_certify:
  assumes "iteration_ok X" and "blst_aggregate_ok X" and "votes_wf X st" and "vs \<noteq> []"
    and "\<forall>v \<in> set vs. ballot X w h v \<and> unopposed st v" and "threshold st \<le> card (supporters st w h \<union> v_author ` set vs)"
    and "ms_qcs (absm (ss_storage st)) w = None" and "w < w + 1" and "is_leader st (w + 1) = Some False"
  shows "\<exists>st' qc. run_events X V st (map VoteIn vs) = Some (st', [BroadcastVote (create_vote X st w h Finalize)]) \<and>
    w < current_view st' \<and> ms_qcs (absm (ss_storage st')) w = Some qc \<and> qc_block_hash qc = h"
  using assms(3-7,9)
proof (induction vs arbitrary: st)
  case (Cons v vs)
  then have b: "ballot X w h v" "unopposed st v" by simp_all
  then have w: "v_view v = w" "v_block_hash v = h" by (simp_all add: ballot_def)
  let ?st = "record_vote st v"
  note wf = ballot_wf [OF Cons.prems(1) b(1)] and step = on_vote_ballot [OF assms(1) Cons.prems(1) b, of V]
  have sup: "supporters ?st w h = insert (v_author v) (supporters st w h)" using supporters_record [of st v] w by simp
  have rest: "\<forall>u \<in> set vs. ballot X w h u \<and> unopposed ?st u"
    using Cons.prems(3) w by (auto simp: ballot_def intro: unopposed_record)
  show ?case
  proof (cases "threshold st \<le> card (supporters ?st w h)")
    case True
    then have "threshold ?st \<le> length (matching_votes X ?st v)" using matching_count [OF assms(1) wf, of v] w by simp
    moreover have "ms_qcs (absm (ss_storage ?st)) w = None" "w < w + 1"
      "is_leader ?st (w + 1) = Some False" using Cons.prems(5,6) assms(8) w by simp_all
    ultimately obtain st1 qc where
      q: "on_quorum X V ?st v (matching_votes X ?st v) = Some (st1, Inr [BroadcastVote (create_vote X ?st w h Finalize)])"
        "w < current_view st1" "ms_qcs (absm (ss_storage st1)) w = Some qc" "qc_block_hash qc = h"
        "votes_received st1 = votes_received ?st" "votes_wf X st1"
      by (rule quorum_certifies [OF assms(1,2) wf, of v, unfolded w])
    have "\<forall>u \<in> set vs. ballot X w h u \<and> unopposed st1 u" using rest q(5) by (simp add: unopposed_def)
    from ballots_after [OF assms(1,2) q(6) this q(3)] obtain st' where "run_events X V st1 (map VoteIn vs) = Some (st', [])"
      "current_view st' = current_view st1" "ss_storage st' = ss_storage st1" by blast
    with step True q show ?thesis by (simp add: create_vote_def)
  next
    case False
    have t: "threshold ?st \<le> card (supporters ?st w h \<union> v_author ` set vs)" using Cons.prems(4) sup by simp
    with False have "vs \<noteq> []" by auto
    from Cons.IH [OF wf this rest t] Cons.prems(5,6) step False show ?thesis by (auto simp: create_vote_def)
  qed
qed simp

end

section \<open>From finalize votes to a commit\<close>

text \<open>What a node does when a view is final, apart from its table of finalize votes.\<close>

definition finalize_at ::
  "('x) exec_lib_scheme \<Rightarrow> 's storage_trait \<Rightarrow> 's simplex_state \<Rightarrow> view \<Rightarrow> hash \<Rightarrow> 's simplex_state option" where
  "finalize_at X V st w h = do {
     st1 \<leftarrow> persist_state X V (st\<lparr>finalized_height := w\<rparr>);
     if h = default_hash then Some st1 else commit_finalized X V st1 h
   }"

definition finalizers :: "'s simplex_state \<Rightarrow> view \<Rightarrow> public_key set" where
  "finalizers st w = fst ` set (votes_of (finalize_votes_received st) w)"

abbreviation with_finalizers :: "(view \<rightharpoonup> vote_map) \<Rightarrow> 's simplex_state \<Rightarrow> 's simplex_state" where
  "with_finalizers T st \<equiv> st\<lparr>finalize_votes_received := T\<rparr>"

lemma persist_with_finalizers:
  "persist_state X V (with_finalizers T st) = map_option (with_finalizers T) (persist_state X V st)"
  by (cases "unwrap (get_consensus_state V (ss_storage st))")
    (auto simp: persist_state_def Let_def managed_fields_def fresh_state_def split: option.split sum.split)

lemma commit_with_finalizers:
  "commit_finalized X V (with_finalizers T st) h = map_option (with_finalizers T) (commit_finalized X V st h)"
proof -
  have "executor_manager (with_finalizers T st) = executor_manager st" by (simp add: executor_manager_def)
  then show ?thesis
    by (auto simp: commit_finalized_def Let_def bind_eq_None_conv split: option.splits sum.splits bind_splits prod.splits)
qed

lemma finalize_with_finalizers:
  "finalize_at X V (with_finalizers T st) w h = map_option (with_finalizers T) (finalize_at X V st w h)"
proof -
  have e: "(with_finalizers T st)\<lparr>finalized_height := w\<rparr> = with_finalizers T (st\<lparr>finalized_height := w\<rparr>)" by simp
  have "persist_state X V ((with_finalizers T st)\<lparr>finalized_height := w\<rparr>) =
      map_option (with_finalizers T) (persist_state X V (st\<lparr>finalized_height := w\<rparr>))"
    unfolding e by (rule persist_with_finalizers)
  then show ?thesis
    by (cases "persist_state X V (st\<lparr>finalized_height := w\<rparr>)") (simp_all add: finalize_at_def commit_with_finalizers)
qed

lemma finalizers_record:
  "finalizers (record_finalize st v) (v_view v) = insert (v_author v) (finalizers st (v_view v))"
  by (simp add: finalizers_def record_finalize_def dom_update)

lemma on_vote_finalize:
  assumes "votes_wf X st" and "verified_vote X v" and "v_vote_type v = Finalize"
  shows "on_vote X V st v =
    (if threshold st \<le> card (finalizers (record_finalize st v) (v_view v)) \<and> finalized_height st < v_view v
     then map_option (\<lambda>s. (s, Inr [])) (finalize_at X V (record_finalize st v) (v_view v) (v_block_hash v))
     else Some (record_finalize st v, Inr []))"
proof -
  let ?l = "votes_of (finalize_votes_received (record_finalize st v)) (v_view v)"
  have "hm_wf ?l" using table_wf_hm vtab.finalize_vote [OF assms] unfolding votes_wf_def by blast
  then have "card (finalizers (record_finalize st v) (v_view v)) = length ?l"
    unfolding finalizers_def hm_wf_def by (metis distinct_card length_map set_map)
  then show ?thesis using assms(2,3)
    by (auto simp: on_vote_def on_finalize_vote_def Let_def verified_vote_def record_finalize_def threshold_def
        finalize_at_def split: bind_splits)
qed

definition final_ballot :: "('x) exec_lib_scheme \<Rightarrow> view \<Rightarrow> hash \<Rightarrow> vote \<Rightarrow> bool" where
  "final_ballot X w h v = (verified_vote X v \<and> v_vote_type v = Finalize \<and> v_view v = w \<and> v_block_hash v = h)"

lemma record_finalize_with: "\<exists>T. record_finalize st v = with_finalizers T st"
  unfolding record_finalize_def by blast

lemma finalize_height: "finalize_at X V st w h = Some st' \<Longrightarrow> finalized_height st' = w"
  by (auto simp: finalize_at_def bind_eq_Some_conv split: if_splits elim!: persist_stateE commit_finalizedE)

lemma finalize_wf: "finalize_at X V st w h = Some st' \<Longrightarrow> votes_wf X st \<Longrightarrow> votes_wf X st'"
  by (auto simp: finalize_at_def bind_eq_Some_conv votes_wf_def split: if_splits elim!: persist_stateE commit_finalizedE)

text \<open>A valid finalize vote of a view, for any block.\<close>

definition final_vote :: "('x) exec_lib_scheme \<Rightarrow> view \<Rightarrow> vote \<Rightarrow> bool" where
  "final_vote X w v = (verified_vote X v \<and> v_vote_type v = Finalize \<and> v_view v = w)"

lemma final_votes_after:
  assumes "votes_wf X st" and "\<forall>v \<in> set vs. final_vote X w v" and "w \<le> finalized_height st"
  shows "\<exists>T. run_events X V st (map VoteIn vs) = Some (with_finalizers T st, [])"
  using assms
proof (induction vs arbitrary: st)
  case Nil
  have "st = with_finalizers (finalize_votes_received st) st" by simp
  then show ?case by (metis list.simps(8) run_events.simps(1))
next
  case (Cons v vs)
  then have b: "verified_vote X v" "v_vote_type v = Finalize" "v_view v = w" by (simp_all add: final_vote_def)
  obtain T where T: "record_finalize st v = with_finalizers T st" using record_finalize_with by blast
  have wf: "votes_wf X (with_finalizers T st)" using vtab.finalize_vote [OF Cons.prems(1) b(1,2)] T by simp
  from Cons.IH [OF wf] Cons.prems obtain T' where
    "run_events X V (with_finalizers T st) (map VoteIn vs) = Some (with_finalizers T' st, [])" by auto
  with on_vote_finalize [OF Cons.prems(1) b(1,2), of V] Cons.prems(3) b(3) T show ?case by auto
qed

text \<open>
  Finalize votes of one view are counted together, whatever they are for: the block that is
  committed is the one that the vote completing the quorum names.
\<close>

lemma final_votes_decide:
  assumes "votes_wf X st" and "\<forall>u \<in> set (vs @ v # us). final_vote X w u" and "finalized_height st < w"
    and "card (finalizers st w \<union> v_author ` set vs) < threshold st"
    and "threshold st \<le> card (insert (v_author v) (finalizers st w \<union> v_author ` set vs))"
    and "finalize_at X V st w (v_block_hash v) = Some st'"
  shows "\<exists>T. run_events X V st (map VoteIn (vs @ v # us)) = Some (with_finalizers T st', [])"
  using assms
proof (induction vs arbitrary: st st')
  case Nil
  then have b: "verified_vote X v" "v_vote_type v = Finalize" and w: "v_view v = w" by (simp_all add: final_vote_def)
  obtain T where T: "record_finalize st v = with_finalizers T st" using record_finalize_with by blast
  have wf: "votes_wf X (with_finalizers T st')"
    using vtab.finalize_vote [OF Nil(1) b] T finalize_wf [OF Nil(6,1)] by (simp add: votes_wf_def)
  have "w \<le> finalized_height (with_finalizers T st')" using finalize_height [OF Nil(6)] by simp
  with final_votes_after [OF wf, of us w V] Nil(2) obtain T' where
    "run_events X V (with_finalizers T st') (map VoteIn us) = Some (with_finalizers T' st', [])" by auto
  with on_vote_finalize [OF Nil(1) b, of V] finalizers_record [of st v] finalize_with_finalizers [of X V T st w "v_block_hash v"]
    Nil(3,5,6) T w show ?case by auto
next
  case (Cons u vs)
  then have b: "verified_vote X u" "v_vote_type u = Finalize" and w: "v_view u = w" by (simp_all add: final_vote_def)
  obtain T where T: "record_finalize st u = with_finalizers T st" using record_finalize_with by blast
  have wf: "votes_wf X (with_finalizers T st)" using vtab.finalize_vote [OF Cons.prems(1) b] T by simp
  have sup: "finalizers (with_finalizers T st) w = insert (v_author u) (finalizers st w)"
    using finalizers_record [of st u] T w by simp
  have "card (finalizers (with_finalizers T st) w) \<le> card (finalizers st w \<union> v_author ` set (u # vs))"
    unfolding sup by (intro card_mono) (auto simp: finalizers_def)
  then have "on_vote X V st u = Some (with_finalizers T st, Inr [])"
    using on_vote_finalize [OF Cons.prems(1) b, of V] T w Cons.prems(4) by simp
  moreover have "\<exists>T'. run_events X V (with_finalizers T st) (map VoteIn (vs @ v # us)) =
      Some (with_finalizers T' (with_finalizers T st'), [])"
    by (rule Cons.IH [OF wf]) (use Cons.prems sup in \<open>simp_all add: threshold_def finalize_with_finalizers\<close>)
  ultimately show ?case by auto
qed

lemma final_quorum_decides:
  assumes "votes_wf X st" and "\<forall>u \<in> set vs. final_vote X w u" and "vs \<noteq> []" and "distinct (map v_author vs)"
    and "length vs = threshold st" and "votes_of (finalize_votes_received st) w = []" and "finalized_height st < w"
    and "finalize_at X V st w (v_block_hash (last vs)) = Some st'"
  shows "\<exists>T. run_events X V st (map VoteIn vs) = Some (with_finalizers T st', [])"
proof -
  obtain us v where vs: "vs = us @ [v]" using assms(3) by (cases vs rule: rev_cases) auto
  have d: "distinct (map v_author (us @ [v]))" using assms(4) vs by simp
  then have "card (v_author ` set us) = length us" using distinct_card [of "map v_author us"] by simp
  moreover have "card (insert (v_author v) (v_author ` set us)) = length vs" using distinct_card [OF d] vs by simp
  moreover have "finalizers st w = {}" using assms(6) by (simp add: finalizers_def)
  ultimately show ?thesis
    using final_votes_decide [OF assms(1), of us v "[]" w V st'] assms(2,5,7,8) vs by simp
qed

lemma final_ballots_commit:
  assumes "votes_wf X st" and "vs \<noteq> []" and "\<forall>v \<in> set vs. final_ballot X w h v" and "finalized_height st < w"
    and "threshold st \<le> card (finalizers st w \<union> v_author ` set vs)" and "finalize_at X V st w h = Some st'"
  shows "\<exists>T. run_events X V st (map VoteIn vs) = Some (with_finalizers T st', [])"
  using assms
proof (induction vs arbitrary: st st')
  case (Cons v vs)
  then have b: "verified_vote X v" "v_vote_type v = Finalize" and w: "v_view v = w" "v_block_hash v = h"
    by (simp_all add: final_ballot_def)
  obtain T where T: "record_finalize st v = with_finalizers T st" using record_finalize_with by blast
  have wf: "votes_wf X (with_finalizers T st)" using vtab.finalize_vote [OF Cons.prems(1) b] T by simp
  note step = on_vote_finalize [OF Cons.prems(1) b, of V]
  have f: "finalize_at X V (with_finalizers T st) w h = Some (with_finalizers T st')"
    using Cons.prems(6) by (simp add: finalize_with_finalizers)
  have wf': "votes_wf X (with_finalizers T st')" using wf finalize_wf [OF Cons.prems(6,1)] by (simp add: votes_wf_def)
  have sup: "finalizers (with_finalizers T st) w = insert (v_author v) (finalizers st w)"
    using finalizers_record [of st v] T w by simp
  show ?case
  proof (cases "threshold st \<le> card (finalizers (with_finalizers T st) w)")
    case True
    have "w \<le> finalized_height (with_finalizers T st')" using finalize_height [OF Cons.prems(6)] by simp
    moreover have "\<forall>u \<in> set vs. final_vote X w u" using Cons.prems(3) by (simp add: final_ballot_def final_vote_def)
    ultimately obtain T' where
      "run_events X V (with_finalizers T st') (map VoteIn vs) = Some (with_finalizers T' st', [])"
      using final_votes_after [OF wf', of vs w V] by auto
    with step True T w f Cons.prems(4) show ?thesis by auto
  next
    case False
    have t: "threshold (with_finalizers T st) \<le> card (finalizers (with_finalizers T st) w \<union> v_author ` set vs)"
      using Cons.prems(5) sup by (simp add: threshold_def)
    with False have "vs \<noteq> []" by (auto simp: threshold_def)
    with Cons.IH [OF wf this _ _ t f] Cons.prems(3,4) obtain T' where
      "run_events X V (with_finalizers T st) (map VoteIn vs) = Some (with_finalizers T' st', [])" by auto
    with step False T w show ?thesis by auto
  qed
qed simp

end
