(* ===== verification/Progress_Properties.thy ===== *)
theory Progress_Properties
  imports Progress Sample_Run
begin

text \<open>
  Progress: what a quorum of nodes achieves in a view, with a leader that proposes, without one,
  and when they finalize; and what their votes can be turned into.
\<close>

section \<open>The votes of nodes that follow the protocol\<close>

lemma own_vote_ballot:
  "blst_sign_ok X \<Longrightarrow> my_id n = public_key_of X (my_key n) \<Longrightarrow> ballot X w h (create_vote X n w h Notarize)"
  using verify_sign by (simp add: ballot_def create_vote_def verified_vote_def)

lemma own_votes_certify:
  assumes R: "reliable_store V absm hb" and X: "iteration_ok X" "blst_aggregate_ok X" "blst_sign_ok X"
    and "reachable X V st" and k: "\<forall>n \<in> set ns. my_id n = public_key_of X (my_key n)"
    and d: "distinct (map my_id ns)" and t: "threshold st \<le> length ns"
    and u: "\<forall>n \<in> set ns. unopposed st (create_vote X n w h Notarize)"
    and "ms_qcs (absm (ss_storage st)) w = None" and "w < w + 1" and "is_leader st (w + 1) = Some False"
  shows "\<exists>st' qc. run_events X V st (map VoteIn (map (\<lambda>n. create_vote X n w h Notarize) ns)) =
      Some (st', [BroadcastVote (create_vote X st w h Finalize)]) \<and>
    w < current_view st' \<and> ms_qcs (absm (ss_storage st')) w = Some qc \<and> qc_block_hash qc = h"
proof (rule reliable_store.ballots_certify [OF R X(1,2) reachable_votes_wf [OF assms(5)] _ _ _ assms(10-12)])
  let ?vs = "map (\<lambda>n. create_vote X n w h Notarize) ns"
  show "?vs \<noteq> []" using t by (auto simp: threshold_def)
  show "\<forall>v \<in> set ?vs. ballot X w h v \<and> unopposed st v" using own_vote_ballot [OF X(3)] k u by auto
  have "v_author ` set ?vs = my_id ` set ns" by (force simp: create_vote_def)
  then have "card (v_author ` set ?vs) = length ns" using distinct_card [OF d] by simp
  moreover have "card (v_author ` set ?vs) \<le> card (supporters st w h \<union> v_author ` set ?vs)" by (intro card_mono) auto
  ultimately show "threshold st \<le> card (supporters st w h \<union> v_author ` set ?vs)" using t by linarith
qed

text \<open>A node that has voted for a block still votes for the timeout of its view.\<close>

lemma votes_for_both:
  assumes "reliable_store V absm hb" and "try_propose X V leader = Some (leader', Inr acts)"
    and "BroadcastBlock b \<in> set acts" and "verify_qc X (b_justify b) = Inr ()" and "same_chain leader n"
    and "current_view n \<le> b_view b" "last_voted_view n < b_view b"
  shows "\<exists>n' more. on_proposal X V n b = Some (n', Inr (BroadcastVote (create_vote X n (b_view b) (hash_block X b) Notarize) # more)) \<and>
    on_timeout X n' (b_view b) = Some (n', Inr [BroadcastVote (create_vote X n (b_view b) default_hash Notarize)])"
proof -
  from reliable_store.peer_votes [OF assms] obtain n' where
    p: "on_proposal X V n b = Some (n', Inr (proposal_votes X n' b))" "my_id n' = my_id n" "my_key n' = my_key n" by blast
  with create_vote_cong [of n' n X] on_proposal_stays [OF p(1)] show ?thesis
    by (simp add: proposal_votes_def on_timeout_def)
qed

text \<open>The other nodes of the sample committee, from one of them.\<close>

abbreviation at_key :: "bytes \<Rightarrow> 's simplex_state \<Rightarrow> 's simplex_state" where
  "at_key k st \<equiv> st\<lparr>my_id := PublicKey k, my_key := PrivateKey k\<rparr>"

lemma sample_start_at: "sample_start k = Some st \<Longrightarrow> sample_start k' = Some (at_key k' st)"
  unfolding sample_start_def by (rule start_as_other)

lemma sample_key: "public_key_of sample_lib (PrivateKey k) = PublicKey k"
  by (simp add: public_key_of_def sample_lib_def)

lemma sample_threshold: "committee st = [pk1, pk2, pk3, pk4] \<Longrightarrow> threshold st = 3"
  by (simp add: threshold_def)

lemma sample_not_leading: "committee st = [pk1, pk2, pk3, pk4] \<Longrightarrow> is_leader (at_key [1] st) 2 = Some False"
  by (simp add: is_leader_def pk3_def)

section \<open>Views\<close>

text \<open>
  C9: a view with a leader succeeds.  If a leader proposes a block and a quorum of nodes with
  the same chain, that have neither passed nor voted in the view, handle it, then each of
  them broadcasts a vote, and any node that handles these votes, in whatever order, stores
  a certificate for the block, moves past the view and sends one finalize vote for the block.
  The observing node has no certificate of the view and no votes of theirs yet and does not
  lead the next view; stores do not fail.
\<close>

theorem proposal_is_certified:
  assumes "reliable_store V absm hb" and "iteration_ok X" "blst_aggregate_ok X" "blst_sign_ok X"
    and "try_propose X V leader = Some (leader', Inr acts)" "BroadcastBlock b \<in> set acts"
    and "verify_qc X (b_justify b) = Inr ()"
    and n: "\<forall>n \<in> set ns. same_chain leader n \<and> my_id n = public_key_of X (my_key n) \<and>
      current_view n \<le> b_view b \<and> last_voted_view n < b_view b"
    and "distinct (map my_id ns)" and "threshold st \<le> length ns" and "reachable X V st"
    and free: "\<forall>n \<in> set ns. map_of (votes_of (votes_received st) (b_view b)) (my_id n) = None"
    and "ms_qcs (absm (ss_storage st)) (b_view b) = None"
    and "b_view b < b_view b + 1" and "is_leader st (b_view b + 1) = Some False"
  shows "\<exists>vs st' qc. list_all2 (\<lambda>n v. \<exists>n' more. on_proposal X V n b = Some (n', Inr (BroadcastVote v # more))) ns vs \<and>
    run_events X V st (map VoteIn vs) =
      Some (st', [BroadcastVote (create_vote X st (b_view b) (hash_block X b) Finalize)]) \<and>
    b_view b < current_view st' \<and> ms_qcs (absm (ss_storage st')) (b_view b) = Some qc \<and>
    qc_block_hash qc = hash_block X b"
proof -
  let ?v = "\<lambda>n. create_vote X n (b_view b) (hash_block X b) Notarize"
  have "\<exists>n' more. on_proposal X V n b = Some (n', Inr (BroadcastVote (?v n) # more))" if "n \<in> set ns" for n
  proof -
    from reliable_store.peer_votes [OF assms(1,5-7), of n] n that obtain n' where
      "on_proposal X V n b = Some (n', Inr (proposal_votes X n' b))" "my_id n' = my_id n" "my_key n' = my_key n" by blast
    with create_vote_cong [of n' n X] show ?thesis by (simp add: proposal_votes_def)
  qed
  then have "list_all2 (\<lambda>n v. \<exists>n' more. on_proposal X V n b = Some (n', Inr (BroadcastVote v # more))) ns (map ?v ns)"
    by (simp add: list_all2_map2 list.rel_refl_strong)
  moreover have "\<forall>n \<in> set ns. unopposed st (?v n)" using free by (simp add: unopposed_def create_vote_def)
  moreover have "\<forall>n \<in> set ns. my_id n = public_key_of X (my_key n)" using n by blast
  ultimately show ?thesis using own_votes_certify [OF assms(1-4,11) _ assms(9,10) _ assms(13-15), of "hash_block X b"] by blast
qed

theorem proposal_is_certified_witness:
  "\<exists>st b vs st' qc. sample_start [1] = Some st \<and>
    run_events sample_lib (mem_impl sample_lib) st (map VoteIn vs) =
      Some (st', [BroadcastVote (create_vote sample_lib st 1 (hash_block sample_lib b) Finalize)]) \<and>
    1 < current_view st' \<and> ms_qcs (ss_storage st') 1 = Some qc \<and> qc_block_hash qc = hash_block sample_lib b"
proof -
  have "case first_proposal of None \<Rightarrow> False | Some (st, st1, b, acts) \<Rightarrow>
    verify_qc sample_lib (b_justify b) = Inr () \<and> b_view b = 1 \<and> current_view st = 1 \<and> last_voted_view st = 0 \<and>
    committee st = [pk1, pk2, pk3, pk4] \<and> votes_of (votes_received st) 1 = [] \<and> Option.is_none (ms_qcs (ss_storage st) 1)"
    by code_simp
  then show ?thesis
  proof (rule first_proposalE, elim conjE)
    fix st st1 :: "mem_storage simplex_state" and b :: block and acts
    let ?X = sample_lib and ?V = "mem_impl sample_lib"
    assume s: "sample_start [2] = Some st" and p: "try_propose ?X ?V st = Some (st1, Inr (BroadcastBlock b # acts))"
      and q: "verify_qc ?X (b_justify b) = Inr ()" and v: "b_view b = 1" "current_view st = 1" "last_voted_view st = 0"
      and c: "committee st = [pk1, pk2, pk3, pk4]" and e: "votes_of (votes_received st) 1 = []"
      and "Option.is_none (ms_qcs (ss_storage st) 1)"
    then have none: "ms_qcs (ss_storage st) 1 = None" by (cases "ms_qcs (ss_storage st) 1") simp_all
    let ?ns = "map (\<lambda>k. at_key k st) [[1], [3], [4]]"
    note s1 = sample_start_at [OF s, of "[1]"]
    have "\<forall>n \<in> set ?ns. same_chain st n \<and> my_id n = public_key_of ?X (my_key n) \<and>
        current_view n \<le> b_view b \<and> last_voted_view n < b_view b" by (simp add: same_chain_def sample_key v)
    moreover have "distinct (map my_id ?ns)" "threshold (at_key [1] st) \<le> length ?ns"
      using sample_threshold [of "at_key [1] st"] c by simp_all
    moreover have "\<forall>n \<in> set ?ns. map_of (votes_of (votes_received (at_key [1] st)) (b_view b)) (my_id n) = None"
      "ms_qcs (ss_storage (at_key [1] st)) (b_view b) = None" "b_view b < b_view b + 1"
      "is_leader (at_key [1] st) (b_view b + 1) = Some False"
      using e none sample_not_leading [OF c] by (simp_all add: v)
    ultimately show ?thesis
      using proposal_is_certified [OF mem.reliable_store_axioms sample_iteration_ok sample_aggregate_ok sample_sign_ok p _ q,
          of ?ns "at_key [1] st"] sample_reachable [OF s1 run.start] s1 v(1) by force
  qed
qed

text \<open>
  C10: a view without a proposal ends.  If the timer of a quorum of nodes that have not passed a
  view runs out, each broadcasts a vote for its timeout, and any node that handles these
  votes, in whatever order and whatever other votes it has counted, stores a certificate of
  the timeout, moves past the view and finalizes the timeout.  The node has no certificate
  of the view and does not lead the next one; stores do not fail.
\<close>

theorem timeouts_end_view:
  assumes "reliable_store V absm hb" and "iteration_ok X" "blst_aggregate_ok X" "blst_sign_ok X"
    and n: "\<forall>n \<in> set ns. my_id n = public_key_of X (my_key n) \<and> current_view n \<le> w"
    and "distinct (map my_id ns)" and "threshold st \<le> length ns" and "reachable X V st"
    and "ms_qcs (absm (ss_storage st)) w = None" and "w < w + 1" and "is_leader st (w + 1) = Some False"
  shows "\<exists>vs st' qc. list_all2 (\<lambda>n v. on_timeout X n w = Some (n, Inr [BroadcastVote v])) ns vs \<and>
    run_events X V st (map VoteIn vs) = Some (st', [BroadcastVote (create_vote X st w default_hash Finalize)]) \<and>
    w < current_view st' \<and> ms_qcs (absm (ss_storage st')) w = Some qc \<and> qc_block_hash qc = default_hash"
proof -
  let ?v = "\<lambda>n. create_vote X n w default_hash Notarize"
  have "list_all2 (\<lambda>n v. on_timeout X n w = Some (n, Inr [BroadcastVote v])) ns (map ?v ns)"
    using n by (simp add: list_all2_map2 list.rel_refl_strong on_timeout_def not_less)
  moreover have "\<forall>n \<in> set ns. unopposed st (?v n)" by (simp add: unopposed_def conflicting_def create_vote_def)
  moreover have "\<forall>n \<in> set ns. my_id n = public_key_of X (my_key n)" using n by blast
  ultimately show ?thesis using own_votes_certify [OF assms(1-4,8) _ assms(6,7) _ assms(9-11), of default_hash] by blast
qed

theorem timeouts_end_view_witness:
  "\<exists>st vs st' qc. sample_start [1] = Some st \<and>
    run_events sample_lib (mem_impl sample_lib) st (map VoteIn vs) =
      Some (st', [BroadcastVote (create_vote sample_lib st 1 default_hash Finalize)]) \<and>
    1 < current_view st' \<and> ms_qcs (ss_storage st') 1 = Some qc \<and> qc_block_hash qc = default_hash"
proof -
  have "case sample_start [2] of None \<Rightarrow> False | Some st \<Rightarrow> current_view st = 1 \<and>
    committee st = [pk1, pk2, pk3, pk4] \<and> Option.is_none (ms_qcs (ss_storage st) 1)" by code_simp
  then obtain st where s: "sample_start [2] = Some st" and v: "current_view st = 1" and c: "committee st = [pk1, pk2, pk3, pk4]"
    and none: "ms_qcs (ss_storage st) 1 = None" by (auto split: option.splits simp: Option.is_none_def)
  let ?ns = "map (\<lambda>k. at_key k st) [[1], [2], [3]]"
  note s1 = sample_start_at [OF s, of "[1]"]
  have "\<forall>n \<in> set ?ns. my_id n = public_key_of sample_lib (my_key n) \<and> current_view n \<le> 1" by (simp add: sample_key v)
  moreover have "distinct (map my_id ?ns)" "threshold (at_key [1] st) \<le> length ?ns"
    using sample_threshold [of "at_key [1] st"] c by simp_all
  moreover have "ms_qcs (ss_storage (at_key [1] st)) 1 = None" "(1 :: view) < 1 + 1"
    "is_leader (at_key [1] st) (1 + 1) = Some False" using none sample_not_leading [OF c] by simp_all
  ultimately show ?thesis
    using timeouts_end_view [OF mem.reliable_store_axioms sample_iteration_ok sample_aggregate_ok sample_sign_ok,
        of ?ns 1 "at_key [1] st"] sample_reachable [OF s1 run.start] s1 by force
qed

text \<open>
  C11: finalize votes commit.  A quorum of valid finalize votes of distinct authors for one
  block in a view above the finalized height, handled in any order, brings the node exactly to
  the state in which that view is final and the block is executed on its store, except for the
  table of the votes themselves; it happens once, with the vote that completes the quorum.
\<close>

theorem finalize_votes_commit:
  assumes "reachable X V st"
    and v: "\<forall>v \<in> set vs. verified_vote X v \<and> v_vote_type v = Finalize \<and> v_view v = w \<and> v_block_hash v = h"
    and d: "distinct (map v_author vs)" and t: "threshold st \<le> length vs" and "finalized_height st < w"
    and "finalize_at X V st w h = Some st'"
  shows "\<exists>T. run_events X V st (map VoteIn vs) = Some (st'\<lparr>finalize_votes_received := T\<rparr>, []) \<and> finalized_height st' = w"
proof -
  have "vs \<noteq> []" using t by (auto simp: threshold_def)
  moreover have "\<forall>v \<in> set vs. final_ballot X w h v" using v by (simp add: final_ballot_def)
  moreover have "card (v_author ` set vs) \<le> card (finalizers st w \<union> v_author ` set vs)"
    by (intro card_mono) (auto simp: finalizers_def)
  then have "threshold st \<le> card (finalizers st w \<union> v_author ` set vs)" using t distinct_card [OF d] by simp
  ultimately show ?thesis using final_ballots_commit [OF reachable_votes_wf [OF assms(1)] _ _ assms(5) _ assms(6)]
      finalize_height [OF assms(6)] by blast
qed

theorem finalize_votes_commit_witness:
  "\<exists>st vs st' T. reachable sample_lib (mem_impl sample_lib) st \<and> finalized_height st = 0 \<and>
    run_events sample_lib (mem_impl sample_lib) st (map VoteIn vs) = Some (st'\<lparr>finalize_votes_received := T\<rparr>, []) \<and>
    finalized_height st' = 1"
proof -
  let ?X = sample_lib and ?V = "mem_impl sample_lib"
  let ?vs = "\<lambda>b. map (\<lambda>k. sample_vote (PrivateKey k) Finalize 1 (hash_block ?X b)) [[1], [3], [4]]"
  have "case first_proposal of None \<Rightarrow> False | Some (st, st1, b, acts) \<Rightarrow>
    committee st1 = [pk1, pk2, pk3, pk4] \<and> finalized_height st1 = 0 \<and>
    \<not> Option.is_none (finalize_at ?X ?V st1 1 (hash_block ?X b))" by code_simp
  then show ?thesis
  proof (rule first_proposalE, elim conjE)
    fix st st1 :: "mem_storage simplex_state" and b :: block and acts
    assume s: "sample_start [2] = Some st" and p: "try_propose ?X ?V st = Some (st1, Inr (BroadcastBlock b # acts))"
      and c: "committee st1 = [pk1, pk2, pk3, pk4]" and z: "finalized_height st1 = 0"
      and "\<not> Option.is_none (finalize_at ?X ?V st1 1 (hash_block ?X b))"
    then obtain st' where f: "finalize_at ?X ?V st1 1 (hash_block ?X b) = Some st'" by (auto simp: Option.is_none_def)
    have r: "reachable ?X ?V st1" using run.event [OF run.start, of ?X ?V st Propose] p
      by (intro sample_reachable [OF s]) simp
    have "\<forall>v \<in> set (?vs b). verified_vote ?X v \<and> v_vote_type v = Finalize \<and> v_view v = 1 \<and> v_block_hash v = hash_block ?X b"
      using verify_sign [OF sample_sign_ok] by (simp add: sample_vote_def verified_vote_def)
    moreover have "distinct (map v_author (?vs b))" by (simp add: sample_vote_def sample_key)
    moreover have "threshold st1 \<le> length (?vs b)" using sample_threshold [OF c] by simp
    moreover have "finalized_height st1 < 1" by (simp add: z)
    ultimately have "\<exists>T. run_events ?X ?V st1 (map VoteIn (?vs b)) = Some (st'\<lparr>finalize_votes_received := T\<rparr>, []) \<and>
      finalized_height st' = 1" using f by (rule finalize_votes_commit [OF r])
    with r z show ?thesis by blast
  qed
qed

section \<open>Finalize votes for different blocks\<close>

text \<open>What the owner of a key can send: a finalize vote for any block in any view.\<close>

definition finalize_vote :: "('x) exec_lib_scheme \<Rightarrow> view \<Rightarrow> private_key \<Rightarrow> hash \<Rightarrow> vote" where
  "finalize_vote X w sk h = \<lparr> v_view = w, v_block_hash = h, v_vote_type = Finalize,
     v_author = public_key_of X sk, v_signature = sign X sk (hash_bytes h) \<rparr>"

lemma finalize_vote_final: "blst_sign_ok X \<Longrightarrow> final_vote X w (finalize_vote X w sk h)"
  using verify_sign by (simp add: finalize_vote_def final_vote_def verified_vote_def)

text \<open>
  C37: what the count of finalize votes does not ask for.  Whoever holds as many keys as the
  threshold, none of them of a committee member, finalizes any view above the finalized height of
  any node that has counted no finalize votes of it: the node that handles one finalize vote of
  each key, for blocks that may all differ, ends in the state in which the view is final and the
  block of the last vote is committed.  Neither membership nor agreement on the block is checked.
\<close>

theorem outsiders_finalize:
  assumes "blst_sign_ok X" and "reachable X V st"
    and "\<forall>sk \<in> set sks. public_key_of X sk \<notin> set (committee st)" and "distinct (map (public_key_of X) sks)"
    and "length sks = threshold st" and "length hs = length sks"
    and "votes_of (finalize_votes_received st) w = []" and "finalized_height st < w"
    and "finalize_at X V st w (last hs) = Some st'"
  shows "\<exists>T. run_events X V st (map VoteIn (map2 (finalize_vote X w) sks hs)) =
      Some (st'\<lparr>finalize_votes_received := T\<rparr>, []) \<and> finalized_height st' = w"
proof -
  let ?vs = "map2 (finalize_vote X w) sks hs"
  have "0 < threshold st" by (simp add: threshold_def)
  then have ne: "zip sks hs \<noteq> []" using assms(5,6) by (cases sks; cases hs) auto
  have "last (zip sks hs) = (last sks, last hs)" using ne assms(6) by (intro last_zip) auto
  then have "v_block_hash (last ?vs) = last hs" using ne by (simp add: last_map finalize_vote_def)
  moreover have "map v_author ?vs = map (public_key_of X) sks"
    using assms(6) by (intro nth_equalityI) (simp_all add: finalize_vote_def)
  moreover have "\<forall>v \<in> set ?vs. final_vote X w v" using finalize_vote_final [OF assms(1)] by auto
  ultimately show ?thesis
    using final_quorum_decides [OF reachable_votes_wf [OF assms(2)], of ?vs w V st'] ne assms(4-9)
      finalize_height [OF assms(9)] by simp
qed

theorem outsiders_finalize_witness:
  "\<exists>st st' T. sample_start [1] = Some st \<and> committee st = [pk1, pk2, pk3, pk4] \<and> finalized_height st = 0 \<and>
    run_events sample_lib (mem_impl sample_lib) st (map VoteIn (map2 (finalize_vote sample_lib 1)
        [PrivateKey [7], PrivateKey [8], PrivateKey [9]] [Hash 8, Hash 9, Hash 10])) =
      Some (st'\<lparr>finalize_votes_received := T\<rparr>, []) \<and>
    finalized_height st' = 1"
proof -
  let ?X = sample_lib and ?V = "mem_impl sample_lib" and ?sks = "[PrivateKey [7], PrivateKey [8], PrivateKey [9]]"
  have "case sample_start [1] of None \<Rightarrow> False | Some st \<Rightarrow> committee st = [pk1, pk2, pk3, pk4] \<and>
    finalized_height st = 0 \<and> votes_of (finalize_votes_received st) 1 = [] \<and>
    \<not> Option.is_none (finalize_at ?X ?V st 1 (Hash 10))" by code_simp
  then obtain st where s: "sample_start [1] = Some st" and c: "committee st = [pk1, pk2, pk3, pk4]"
    and z: "finalized_height st = 0" "votes_of (finalize_votes_received st) 1 = []"
    and f: "\<not> Option.is_none (finalize_at ?X ?V st 1 (Hash 10))" by (elim case_optionE FalseE conjE) blast
  from f obtain st' where f: "finalize_at ?X ?V st 1 (last [Hash 8, Hash 9, Hash 10]) = Some st'"
    by (auto simp: Option.is_none_def)
  have "\<forall>sk \<in> set ?sks. public_key_of ?X sk \<notin> set (committee st)"
    by (simp add: sample_key c pk1_def pk2_def pk3_def pk4_def)
  moreover have "distinct (map (public_key_of ?X) ?sks)" "length ?sks = threshold st" "length [Hash 8, Hash 9, Hash 10] = length ?sks"
    using sample_threshold [OF c] by (simp_all add: sample_key)
  moreover note z(2)
  moreover have "finalized_height st < 1" using z by simp
  ultimately have "\<exists>T. run_events ?X ?V st (map VoteIn (map2 (finalize_vote ?X 1) ?sks [Hash 8, Hash 9, Hash 10])) =
      Some (st'\<lparr>finalize_votes_received := T\<rparr>, []) \<and> finalized_height st' = 1"
    using f by (rule outsiders_finalize [OF sample_sign_ok sample_reachable [OF s run.start]])
  with s c z(1) show ?thesis by blast
qed

text \<open>
  A node that is about to hear the votes of the nodes \<open>ns\<close> in a view: it has no votes of theirs and no
  certificate of the view, and does not lead the next view.
\<close>

definition hears ::
  "('x) exec_lib_scheme \<Rightarrow> 's storage_trait \<Rightarrow> ('s \<Rightarrow> mem_storage) \<Rightarrow> 's simplex_state list \<Rightarrow> view \<Rightarrow> 's simplex_state \<Rightarrow> bool" where
  "hears X V absm ns w m = (reachable X V m \<and> my_id m = public_key_of X (my_key m) \<and> threshold m \<le> length ns \<and>
     (\<forall>n \<in> set ns. map_of (votes_of (votes_received m) w) (my_id n) = None) \<and>
     ms_qcs (absm (ss_storage m)) w = None \<and> is_leader m (w + 1) = Some False)"

text \<open>A node that has counted no finalize votes of a view, and needs \<open>k\<close> of them.\<close>

definition awaits :: "('x) exec_lib_scheme \<Rightarrow> 's storage_trait \<Rightarrow> view \<Rightarrow> nat \<Rightarrow> 's simplex_state \<Rightarrow> bool" where
  "awaits X V w k m = (reachable X V m \<and> threshold m = k \<and> finalized_height m < w \<and>
     votes_of (finalize_votes_received m) w = [])"

lemma awaited_votes_decide:
  assumes "awaits X V w (length vs) st" and "\<forall>u \<in> set vs. final_vote X w u" and "vs \<noteq> []"
    and "distinct (map v_author vs)" and "finalize_at X V st w (v_block_hash (last vs)) = Some st'"
  shows "\<exists>T. run_events X V st (map VoteIn vs) = Some (st'\<lparr>finalize_votes_received := T\<rparr>, []) \<and> finalized_height st' = w"
proof -
  have "votes_wf X st" "length vs = threshold st" "votes_of (finalize_votes_received st) w = []" "finalized_height st < w"
    using assms(1) reachable_votes_wf by (auto simp: awaits_def)
  with final_quorum_decides [OF _ assms(2-4) _ _ _ assms(5)] finalize_height [OF assms(5)] show ?thesis by blast
qed

lemma heard_votes_finalize:
  assumes "reliable_store V absm hb" and "iteration_ok X" "blst_aggregate_ok X" "blst_sign_ok X"
    and "\<forall>n \<in> set ns. my_id n = public_key_of X (my_key n)" and "distinct (map my_id ns)" and "w < w + 1"
    and "\<forall>m \<in> set ms. hears X V absm ns w m"
  shows "list_all2 (\<lambda>m f. \<exists>m'. run_events X V m (map VoteIn (map (\<lambda>n. create_vote X n w h Notarize) ns)) =
      Some (m', [BroadcastVote f])) ms (map (\<lambda>m. create_vote X m w h Finalize) ms)"
proof -
  have "\<exists>m'. run_events X V m (map VoteIn (map (\<lambda>n. create_vote X n w h Notarize) ns)) =
      Some (m', [BroadcastVote (create_vote X m w h Finalize)])" if "m \<in> set ms" for m
  proof -
    from assms(8) that have m: "reachable X V m" "threshold m \<le> length ns" "ms_qcs (absm (ss_storage m)) w = None"
      "is_leader m (w + 1) = Some False" "\<forall>n \<in> set ns. unopposed m (create_vote X n w h Notarize)"
      by (auto simp: hears_def unopposed_def create_vote_def)
    from own_votes_certify [OF assms(1-4) m(1) assms(5,6) m(2,5,3) assms(7) m(4)] show ?thesis by blast
  qed
  then show ?thesis by (simp add: list_all2_map2 list.rel_refl_strong)
qed

lemma own_final_vote:
  "blst_sign_ok X \<Longrightarrow> my_id m = public_key_of X (my_key m) \<Longrightarrow> final_vote X w (create_vote X m w h Finalize)"
  using verify_sign by (simp add: final_vote_def create_vote_def verified_vote_def)

text \<open>The finalize votes of several nodes for one block.\<close>

abbreviation finals :: "('x) exec_lib_scheme \<Rightarrow> view \<Rightarrow> hash \<Rightarrow> 's simplex_state list \<Rightarrow> vote list" where
  "finals X w h ms \<equiv> map (\<lambda>m. create_vote X m w h Finalize) ms"

lemma mixed_votes_split:
  assumes "reliable_store V absm hb" and "blst_sign_ok X" and m: "\<forall>m \<in> set (ms1 @ ms2). my_id m = public_key_of X (my_key m)"
    and "distinct (map my_id (ms1 @ ms2))" and ne: "ms1 \<noteq> []" "ms2 \<noteq> []"
    and "awaits X V w (length (ms1 @ ms2)) st1" "awaits X V w (length (ms1 @ ms2)) st2"
    and "finalize_at X V st1 w h = Some st1'"
  shows "\<exists>st2' T1 T2.
    run_events X V st1 (map VoteIn (finals X w default_hash ms2 @ finals X w h ms1)) = Some (st1'\<lparr>finalize_votes_received := T1\<rparr>, []) \<and>
    run_events X V st2 (map VoteIn (finals X w h ms1 @ finals X w default_hash ms2)) = Some (st2'\<lparr>finalize_votes_received := T2\<rparr>, []) \<and>
    finalized_height st1' = w \<and> finalized_height st2' = w \<and>
    executor_root st2' = executor_root st2 \<and> committee st2' = committee st2"
proof -
  let ?fs = "finals X w h ms1" and ?gs = "finals X w default_hash ms2"
  have f: "\<forall>u \<in> set (?gs @ ?fs). final_vote X w u" "\<forall>u \<in> set (?fs @ ?gs). final_vote X w u"
    using own_final_vote [OF assms(2)] m by auto
  have d: "distinct (map v_author (?gs @ ?fs))" "distinct (map v_author (?fs @ ?gs))"
    using assms(4) by (auto simp: create_vote_def comp_def)
  have a: "awaits X V w (length (?gs @ ?fs)) st1" "?gs @ ?fs \<noteq> []" "awaits X V w (length (?fs @ ?gs)) st2" "?fs @ ?gs \<noteq> []"
    using assms(7,8) ne by (simp_all add: add.commute)
  have "finalize_at X V st1 w (v_block_hash (last (?gs @ ?fs))) = Some st1'"
    using assms(9) ne by (simp add: last_map create_vote_def)
  from awaited_votes_decide [OF a(1) f(1) a(2) d(1) this] obtain T1 where
    one: "run_events X V st1 (map VoteIn (?gs @ ?fs)) = Some (st1'\<lparr>finalize_votes_received := T1\<rparr>, [])" "finalized_height st1' = w"
    by blast
  obtain st2' where st2': "persist_state X V (st2\<lparr>finalized_height := w\<rparr>) = Some st2'"
    using reliable_store.persist_returns [OF assms(1)] by blast
  then have "finalize_at X V st2 w (v_block_hash (last (?fs @ ?gs))) = Some st2'"
    using ne by (simp add: last_map create_vote_def finalize_at_def)
  from awaited_votes_decide [OF a(3) f(2) a(4) d(2) this] obtain T2 where
    "run_events X V st2 (map VoteIn (?fs @ ?gs)) = Some (st2'\<lparr>finalize_votes_received := T2\<rparr>, [])"
    by blast
  moreover have "finalized_height st2' = w" "executor_root st2' = executor_root st2" "committee st2' = committee st2"
    using st2' by (auto elim!: persist_stateE)
  ultimately show ?thesis using one by blast
qed

lemma commit_executes:
  assumes "get_block V (ss_storage st) h = Inr (Some b)"
    and "execute_block X V (executor_gas_limit st) (executor_manager st) b = Some (db, Inr eb)"
  obtains st' where "commit_finalized X V st h = Some st'" "ss_storage st' = sm_storage db" "executor_root st' = sm_root db"
  using assms that by (fastforce simp: commit_finalized_def Let_def split: sum.splits option.splits)

text \<open>
  C32: honest nodes can diverge.  A leader proposes a block, and a quorum of nodes that follow the
  protocol votes for it; each still votes for the timeout of the view when its timer runs out.
  Nodes that hear the votes for the block send finalize votes for the block, and nodes that hear
  the votes for the timeout send finalize votes for the timeout.  When both kinds together are
  just a quorum, their order decides.  A node that counts a vote for the block last executes
  the block on its store; a node that counts a vote for the timeout last finalizes the same
  view, and its state root and committee stay as they were.  (\<open>four_nodes_diverge\<close> replays this as
  one run of a system of four.)
\<close>

theorem honest_nodes_diverge:
  assumes "reliable_store V absm hb" and "iteration_ok X" "blst_aggregate_ok X" "blst_sign_ok X"
    and "try_propose X V leader = Some (leader', Inr acts)" "BroadcastBlock b \<in> set acts"
    and "verify_qc X (b_justify b) = Inr ()"
    and n: "\<forall>n \<in> set ns. same_chain leader n \<and> my_id n = public_key_of X (my_key n) \<and>
      current_view n \<le> b_view b \<and> last_voted_view n < b_view b"
    and "distinct (map my_id ns)" and "b_view b < b_view b + 1" and "hash_block X b \<noteq> default_hash"
    and m: "\<forall>m \<in> set (ms1 @ ms2). hears X V absm ns (b_view b) m" and "distinct (map my_id (ms1 @ ms2))"
    and "ms1 \<noteq> []" "ms2 \<noteq> []"
    and "awaits X V (b_view b) (length (ms1 @ ms2)) st1" "awaits X V (b_view b) (length (ms1 @ ms2)) st2"
    and c: "persist_state X V (st1\<lparr>finalized_height := b_view b\<rparr>) = Some s1"
      "get_block V (ss_storage s1) (hash_block X b) = Inr (Some b)"
      "execute_block X V (executor_gas_limit s1) (executor_manager s1) b = Some (db, Inr eb)"
  shows "\<exists>vs ts fs gs st1' st2'.
    list_all2 (\<lambda>n v. \<exists>n' more. on_proposal X V n b = Some (n', Inr (BroadcastVote v # more))) ns vs \<and>
    list_all2 (\<lambda>n t. \<exists>n' r. on_proposal X V n b = Some (n', r) \<and>
      on_timeout X n' (b_view b) = Some (n', Inr [BroadcastVote t])) ns ts \<and>
    list_all2 (\<lambda>m f. \<exists>m'. run_events X V m (map VoteIn vs) = Some (m', [BroadcastVote f])) ms1 fs \<and>
    list_all2 (\<lambda>m g. \<exists>m'. run_events X V m (map VoteIn ts) = Some (m', [BroadcastVote g])) ms2 gs \<and>
    run_events X V st1 (map VoteIn (gs @ fs)) = Some (st1', []) \<and>
    run_events X V st2 (map VoteIn (fs @ gs)) = Some (st2', []) \<and>
    finalized_height st1' = b_view b \<and> ss_storage st1' = sm_storage db \<and> executor_root st1' = sm_root db \<and>
    finalized_height st2' = b_view b \<and> executor_root st2' = executor_root st2 \<and> committee st2' = committee st2"
proof -
  let ?w = "b_view b" and ?h = "hash_block X b"
  let ?v = "\<lambda>n. create_vote X n ?w ?h Notarize" and ?t = "\<lambda>n. create_vote X n ?w default_hash Notarize"
  have "\<exists>n' more. on_proposal X V n b = Some (n', Inr (BroadcastVote (?v n) # more)) \<and>
      on_timeout X n' ?w = Some (n', Inr [BroadcastVote (?t n)])" if "n \<in> set ns" for n
    using votes_for_both [OF assms(1,5-7)] n that by blast
  then have votes: "list_all2 (\<lambda>n v. \<exists>n' more. on_proposal X V n b = Some (n', Inr (BroadcastVote v # more))) ns (map ?v ns)"
    "list_all2 (\<lambda>n t. \<exists>n' r. on_proposal X V n b = Some (n', r) \<and> on_timeout X n' ?w = Some (n', Inr [BroadcastVote t])) ns (map ?t ns)"
    by (fastforce simp: list_all2_map2 intro!: list.rel_refl_strong)+
  have k: "\<forall>n \<in> set ns. my_id n = public_key_of X (my_key n)" using n by blast
  have m': "\<forall>m \<in> set ms1. hears X V absm ns ?w m" "\<forall>m \<in> set ms2. hears X V absm ns ?w m" using m by auto
  note heard = heard_votes_finalize [OF assms(1-4) k assms(9,10) m'(1), of ?h]
    heard_votes_finalize [OF assms(1-4) k assms(9,10) m'(2), of default_hash]
  obtain st where st: "commit_finalized X V s1 ?h = Some st" "ss_storage st = sm_storage db" "executor_root st = sm_root db"
    by (rule commit_executes [OF c(2,3)])
  have "finalize_at X V st1 ?w ?h = Some st" using c(1) st(1) assms(11) by (simp add: finalize_at_def)
  moreover have "\<forall>m \<in> set (ms1 @ ms2). my_id m = public_key_of X (my_key m)" using m by (simp add: hears_def)
  ultimately obtain st2' T1 T2 where
    "run_events X V st1 (map VoteIn (finals X ?w default_hash ms2 @ finals X ?w ?h ms1)) = Some (st\<lparr>finalize_votes_received := T1\<rparr>, [])"
    "run_events X V st2 (map VoteIn (finals X ?w ?h ms1 @ finals X ?w default_hash ms2)) = Some (st2'\<lparr>finalize_votes_received := T2\<rparr>, [])"
    "finalized_height st = ?w" "finalized_height st2' = ?w" "executor_root st2' = executor_root st2" "committee st2' = committee st2"
    using mixed_votes_split [OF assms(1,4) _ assms(13-17)] by blast
  with votes heard st(2,3) show ?thesis by (intro exI conjI) (assumption | simp)+
qed

definition changes_root :: "256 word \<Rightarrow> ('s state_manager \<times> (execution_error + block)) option \<Rightarrow> bool" where
  "changes_root r res = (case res of Some (db, Inr eb) \<Rightarrow> sm_root db \<noteq> r | _ \<Rightarrow> False)"

lemma changes_rootE:
  assumes "changes_root r res"
  obtains db eb where "res = Some (db, Inr eb)" "sm_root db \<noteq> r"
proof (cases res)
  case (Some p)
  with assms that show ?thesis by (cases p; cases "snd p") (auto simp: changes_root_def)
qed (use assms in \<open>simp add: changes_root_def\<close>)

text \<open>The first block with a transaction, a node that holds it and one that does not.\<close>

lemma split_sample:
  obtains l l1 b acts st1 st2 s1 db eb where
    "try_propose sample_lib (mem_impl sample_lib) l = Some (l1, Inr (BroadcastBlock b # acts))"
    "verify_qc sample_lib (b_justify b) = Inr ()" "b_view b = 1" "current_view l = 1" "last_voted_view l = 0"
    "hash_block sample_lib b \<noteq> default_hash" "sample_start [2] = Some st2" "committee st2 = [pk1, pk2, pk3, pk4]"
    "finalized_height st2 = 0" "votes_of (votes_received st2) 1 = []" "votes_of (finalize_votes_received st2) 1 = []"
    "ms_qcs (ss_storage st2) 1 = None" "reachable sample_lib (mem_impl sample_lib) st1"
    "committee st1 = [pk1, pk2, pk3, pk4]" "finalized_height st1 = 0" "votes_of (finalize_votes_received st1) 1 = []"
    "persist_state sample_lib (mem_impl sample_lib) (st1\<lparr>finalized_height := 1\<rparr>) = Some s1"
    "ms_blocks (ss_storage s1) (hash_block sample_lib b) = Some b"
    "execute_block sample_lib (mem_impl sample_lib) (executor_gas_limit s1) (executor_manager s1) b = Some (db, Inr eb)"
    "sm_root db \<noteq> executor_root st2"
proof -
  let ?X = sample_lib and ?V = "mem_impl sample_lib"
  have "case funded_proposal of None \<Rightarrow> False | Some (l, l1, b, acts) \<Rightarrow>
    verify_qc ?X (b_justify b) = Inr () \<and> b_view b = 1 \<and> current_view l = 1 \<and> last_voted_view l = 0 \<and>
    hash_block ?X b \<noteq> default_hash \<and>
    (case sample_start [2] of None \<Rightarrow> False | Some st2 \<Rightarrow> committee st2 = [pk1, pk2, pk3, pk4] \<and> finalized_height st2 = 0 \<and>
       votes_of (votes_received st2) 1 = [] \<and> votes_of (finalize_votes_received st2) 1 = [] \<and>
       Option.is_none (ms_qcs (ss_storage st2) 1) \<and>
       (case sample_events [1] [ProposalIn b] of None \<Rightarrow> False | Some (st1, sent) \<Rightarrow>
          committee st1 = [pk1, pk2, pk3, pk4] \<and> finalized_height st1 = 0 \<and> votes_of (finalize_votes_received st1) 1 = [] \<and>
          (case persist_state ?X ?V (st1\<lparr>finalized_height := 1\<rparr>) of None \<Rightarrow> False | Some s1 \<Rightarrow>
             ms_blocks (ss_storage s1) (hash_block ?X b) = Some b \<and>
             changes_root (executor_root st2) (execute_block ?X ?V (executor_gas_limit s1) (executor_manager s1) b))))"
    by code_simp
  then show ?thesis
    apply (elim funded_proposalE conjE)
    apply (erule case_optionE, erule FalseE, elim conjE)
    apply (erule sample_eventsE, elim conjE)
    apply (erule case_optionE, erule FalseE, elim conjE changes_rootE)
    apply (rule that)
    apply (assumption | simp only: Option.is_none_def | erule (1) sample_reachable)+
    done
qed

theorem honest_nodes_diverge_witness:
  "\<exists>st1 st2 fs gs st1' st2'. reachable sample_lib (mem_impl sample_lib) st1 \<and> reachable sample_lib (mem_impl sample_lib) st2 \<and>
    run_events sample_lib (mem_impl sample_lib) st1 (map VoteIn (gs @ fs)) = Some (st1', []) \<and>
    run_events sample_lib (mem_impl sample_lib) st2 (map VoteIn (fs @ gs)) = Some (st2', []) \<and>
    finalized_height st1' = 1 \<and> finalized_height st2' = 1 \<and> executor_root st1' \<noteq> executor_root st2'"
proof (rule split_sample)
  let ?X = sample_lib and ?V = "mem_impl sample_lib"
  fix l l1 st1 st2 s1 :: "mem_storage simplex_state" and b :: block and acts db eb
  assume p: "try_propose ?X ?V l = Some (l1, Inr (BroadcastBlock b # acts))"
    and q: "verify_qc ?X (b_justify b) = Inr ()" and v: "b_view b = 1" "current_view l = 1" "last_voted_view l = 0"
    and h: "hash_block ?X b \<noteq> default_hash" and s: "sample_start [2] = Some st2"
    and c2: "committee st2 = [pk1, pk2, pk3, pk4]"
    and z2: "finalized_height st2 = 0" "votes_of (votes_received st2) 1 = []" "votes_of (finalize_votes_received st2) 1 = []"
      "ms_qcs (ss_storage st2) 1 = None"
    and r1: "reachable ?X ?V st1" and c1: "committee st1 = [pk1, pk2, pk3, pk4]"
    and z1: "finalized_height st1 = 0" "votes_of (finalize_votes_received st1) 1 = []"
    and x: "persist_state ?X ?V (st1\<lparr>finalized_height := 1\<rparr>) = Some s1" "ms_blocks (ss_storage s1) (hash_block ?X b) = Some b"
      "execute_block ?X ?V (executor_gas_limit s1) (executor_manager s1) b = Some (db, Inr eb)" "sm_root db \<noteq> executor_root st2"
  let ?ns = "map (\<lambda>k. at_key k l) [[1], [3], [4]]" and ?ms1 = "map (\<lambda>k. at_key k st2) [[1], [2]]" and ?ms2 = "[at_key [4] st2]"
  have r: "reachable ?X ?V (at_key k st2)" for k
    using sample_reachable [OF sample_start_at [OF s] run.start] .
  have r2: "reachable ?X ?V st2" using sample_reachable [OF s run.start] .
  have lead: "is_leader (at_key k st2) 2 = Some (PublicKey k = pk3)" for k by (simp add: is_leader_def c2 eq_commute)
  have "\<forall>n \<in> set ?ns. same_chain l n \<and> my_id n = public_key_of ?X (my_key n) \<and>
      current_view n \<le> b_view b \<and> last_voted_view n < b_view b" by (simp add: same_chain_def sample_key v)
  moreover have "\<forall>m \<in> set (?ms1 @ ?ms2). hears ?X ?V (\<lambda>m. m) ?ns (b_view b) m"
    using r lead z2 by (simp add: hears_def v sample_key pk3_def threshold_def c2)
  moreover have "awaits ?X ?V (b_view b) (length (?ms1 @ ?ms2)) st1" "awaits ?X ?V (b_view b) (length (?ms1 @ ?ms2)) st2"
    using r1 r2 z1 z2 by (simp_all add: awaits_def v threshold_def c1 c2)
  ultimately obtain fs gs st1' st2' where
    "run_events ?X ?V st1 (map VoteIn (gs @ fs)) = Some (st1', [])" "run_events ?X ?V st2 (map VoteIn (fs @ gs)) = Some (st2', [])"
    "finalized_height st1' = 1" "executor_root st1' = sm_root db" "finalized_height st2' = 1" "executor_root st2' = executor_root st2"
    using honest_nodes_diverge [OF mem.reliable_store_axioms sample_iteration_ok sample_aggregate_ok sample_sign_ok p _ q,
        of ?ns ?ms1 ?ms2 st1 st2 s1 db eb] h x v(1) by fastforce
  with r1 r2 x(4) show ?thesis by metis
qed

section \<open>Replayed votes\<close>

definition replayed :: "view \<Rightarrow> vote \<Rightarrow> vote" where
  "replayed w v = v\<lparr>v_view := w, v_vote_type := Notarize\<rparr>"

text \<open>
  C33: finalize votes can be replayed.  A node that accepts a block also sends a finalize vote for
  the hash that the certificate of the block names, and a vote does not sign its view or type.
  So if a quorum of nodes accepts one block, whoever hears their votes can turn them into
  notarize votes of any view, and a node that handles these stores a certificate for that hash
  in that view, whether or not any of them ever saw a block with it.  (The certificate of the
  accepted block is only checked for its signature; a single key is enough to make one.)
\<close>

theorem finalize_votes_recertify:
  assumes "reliable_store V absm hb" and "iteration_ok X" "blst_aggregate_ok X" "blst_sign_ok X"
    and n: "\<forall>n \<in> set ns. (\<exists>n1. validate_and_store_block X V n b = Some (n1, Inr (True, []))) \<and>
      my_id n = public_key_of X (my_key n) \<and> current_view n \<le> b_view b \<and> last_voted_view n < b_view b"
    and "0 < qc_view (b_justify b)" and "distinct (map my_id ns)" and "threshold st \<le> length ns" and "reachable X V st"
    and free: "\<forall>n \<in> set ns. map_of (votes_of (votes_received st) w) (my_id n) = None"
    and "ms_qcs (absm (ss_storage st)) w = None" and "w < w + 1" and "is_leader st (w + 1) = Some False"
  shows "\<exists>vs st' acts qc. list_all2 (\<lambda>n v. \<exists>n' more. on_proposal X V n b = Some (n', Inr more) \<and> BroadcastVote v \<in> set more) ns vs \<and>
    run_events X V st (map (\<lambda>v. VoteIn (replayed w v)) vs) = Some (st', acts) \<and>
    ms_qcs (absm (ss_storage st')) w = Some qc \<and> qc_block_hash qc = qc_block_hash (b_justify b)"
proof -
  let ?h = "qc_block_hash (b_justify b)"
  let ?f = "\<lambda>n. create_vote X n (qc_view (b_justify b)) ?h Finalize" and ?v = "\<lambda>n. create_vote X n w ?h Notarize"
  have "\<exists>n' more. on_proposal X V n b = Some (n', Inr more) \<and> BroadcastVote (?f n) \<in> set more" if "n \<in> set ns" for n
  proof -
    from n that obtain n1 where v: "validate_and_store_block X V n b = Some (n1, Inr (True, []))"
      "current_view n \<le> b_view b" "last_voted_view n < b_view b" by blast
    have "last_voted_view n1 < b_view b" "my_id n1 = my_id n" "my_key n1 = my_key n"
      using v by (auto elim!: validate_and_store_blockE accept_blockE update_preferred_chainE simp: buffer_orphan_def)
    with reliable_store.stored_votes [OF assms(1) v(1,2)] obtain n' where
      "on_proposal X V n b = Some (n', Inr (proposal_votes X n' b))" "my_id n' = my_id n" "my_key n' = my_key n" by auto
    with create_vote_cong [of n' n X] assms(6) show ?thesis by (simp add: proposal_votes_def)
  qed
  then have votes: "list_all2 (\<lambda>n v. \<exists>n' more. on_proposal X V n b = Some (n', Inr more) \<and> BroadcastVote v \<in> set more) ns (map ?f ns)"
    by (simp add: list_all2_map2 list.rel_refl_strong)
  have eq: "map (\<lambda>v. VoteIn (replayed w v)) (map ?f ns) = map VoteIn (map ?v ns)"
    by (simp add: replayed_def create_vote_def)
  have "\<forall>n \<in> set ns. unopposed st (?v n)" using free by (simp add: unopposed_def create_vote_def)
  moreover have "\<forall>n \<in> set ns. my_id n = public_key_of X (my_key n)" using n by blast
  ultimately obtain st' qc where "run_events X V st (map VoteIn (map ?v ns)) = Some (st', [BroadcastVote (create_vote X st w ?h Finalize)])"
    "ms_qcs (absm (ss_storage st')) w = Some qc" "qc_block_hash qc = ?h"
    using own_votes_certify [OF assms(1-4,9) _ assms(7,8) _ assms(11-13), of ?h] by blast
  with votes show ?thesis unfolding eq [symmetric] by blast
qed

text \<open>The first block of the sample committee under a certificate that one outsider made.\<close>

definition outsider_justified :: "block \<Rightarrow> block" where
  "outsider_justified b = b\<lparr>b_justify := \<lparr> qc_view = 7, qc_block_hash = Hash 99,
     qc_signature = (case aggregate sample_lib [sign sample_lib (PrivateKey [9]) (hash_bytes (Hash 99))] of Some s \<Rightarrow> s | None \<Rightarrow> Signature []),
     qc_signers = [PublicKey [9]] \<rparr>\<rparr>"

definition stores_at :: "bytes \<Rightarrow> mem_storage simplex_state \<Rightarrow> block \<Rightarrow> bool" where
  "stores_at k st b = (case validate_and_store_block sample_lib (mem_impl sample_lib) (at_key k st) b of
     Some (s, Inr p) \<Rightarrow> fst p \<and> snd p = [] | _ \<Rightarrow> False)"

lemma stores_atD:
  "stores_at k st b \<Longrightarrow> \<exists>n1. validate_and_store_block sample_lib (mem_impl sample_lib) (at_key k st) b = Some (n1, Inr (True, []))"
  unfolding stores_at_def by (erule storedE) blast

theorem finalize_votes_recertify_witness:
  "\<exists>st (b :: block) ns vs st' acts qc. sample_start [1] = Some st \<and> qc_signers (b_justify b) = [PublicKey [9]] \<and>
    list_all2 (\<lambda>n v. \<exists>n' more. on_proposal sample_lib (mem_impl sample_lib) n b = Some (n', Inr more) \<and> BroadcastVote v \<in> set more) ns vs \<and>
    run_events sample_lib (mem_impl sample_lib) st (map (\<lambda>v. VoteIn (replayed 1 v)) vs) = Some (st', acts) \<and>
    ms_qcs (ss_storage st') 1 = Some qc \<and> qc_block_hash qc = Hash 99"
proof -
  let ?X = sample_lib and ?V = "mem_impl sample_lib"
  have "case first_proposal of None \<Rightarrow> False | Some (st, st1, b, acts) \<Rightarrow>
    b_view b = 1 \<and> current_view st = 1 \<and> last_voted_view st = 0 \<and> committee st = [pk1, pk2, pk3, pk4] \<and>
    votes_of (votes_received st) 1 = [] \<and> Option.is_none (ms_qcs (ss_storage st) 1) \<and>
    stores_at [1] st (outsider_justified b) \<and> stores_at [3] st (outsider_justified b) \<and> stores_at [4] st (outsider_justified b)"
    by code_simp
  then show ?thesis
  proof (rule first_proposalE, elim conjE)
    fix st st1 :: "mem_storage simplex_state" and b :: block and acts
    assume s: "sample_start [2] = Some st" and v: "b_view b = 1" "current_view st = 1" "last_voted_view st = 0"
      and c: "committee st = [pk1, pk2, pk3, pk4]" and e: "votes_of (votes_received st) 1 = []"
      and none: "Option.is_none (ms_qcs (ss_storage st) 1)"
      and d: "stores_at [1] st (outsider_justified b)" "stores_at [3] st (outsider_justified b)" "stores_at [4] st (outsider_justified b)"
    let ?b = "outsider_justified b" and ?ns = "map (\<lambda>k. at_key k st) [[1], [3], [4]]"
    note s1 = sample_start_at [OF s, of "[1]"]
    have b: "b_view ?b = 1" "qc_view (b_justify ?b) = 7" "qc_block_hash (b_justify ?b) = Hash 99"
      "qc_signers (b_justify ?b) = [PublicKey [9]]" by (simp_all add: outsider_justified_def v)
    have ns: "\<forall>n \<in> set ?ns. (\<exists>n1. validate_and_store_block ?X ?V n ?b = Some (n1, Inr (True, []))) \<and>
        my_id n = public_key_of ?X (my_key n) \<and> current_view n \<le> b_view ?b \<and> last_voted_view n < b_view ?b"
      using d [THEN stores_atD] by (simp add: sample_key b(1) v)
    have q: "0 < qc_view (b_justify ?b)" "distinct (map my_id ?ns)" "threshold (at_key [1] st) \<le> length ?ns"
      using sample_threshold [of "at_key [1] st"] c b(2) by simp_all
    have f: "\<forall>n \<in> set ?ns. map_of (votes_of (votes_received (at_key [1] st)) 1) (my_id n) = None"
      "ms_qcs (ss_storage (at_key [1] st)) 1 = None" "(1 :: view) < 1 + 1" "is_leader (at_key [1] st) (1 + 1) = Some False"
      using e none sample_not_leading [OF c] by (simp_all add: Option.is_none_def split: option.splits)
    from finalize_votes_recertify [OF mem.reliable_store_axioms [of sample_lib] sample_iteration_ok sample_aggregate_ok
        sample_sign_ok ns q sample_reachable [OF s1 run.start] f] b(3)
    obtain vs st' acts qc where
      "list_all2 (\<lambda>n v. \<exists>n' more. on_proposal ?X ?V n ?b = Some (n', Inr more) \<and> BroadcastVote v \<in> set more) ?ns vs"
      "run_events ?X ?V (at_key [1] st) (map (\<lambda>v. VoteIn (replayed 1 v)) vs) = Some (st', acts)"
      "ms_qcs (ss_storage st') 1 = Some qc" "qc_block_hash qc = Hash 99" by auto
    with s1 b(4) show ?thesis by blast
  qed
qed

end
