(* ===== verification/Spec2Isabelle.thy ===== *)
theory Spec2Isabelle
  imports Ledger_Properties Block_Properties Safety_Properties Voting_Properties Chain_Properties
    Node_Properties Service_Properties
    System_Properties Progress_Properties
begin

text \<open>
  \<^bold>\<open>Ockham, a Simplex BFT node: a verification library.\<close>

  \<^bold>\<open>The program.\<close>  Ockham (\<open>src/src\<close>) is a blockchain node.  Validators take turns as leader of a
  view; the leader proposes a block, the others re-execute it and vote; a quorum of notarize
  votes makes a certificate, which advances the view and justifies the next block, and a quorum
  of finalize votes commits the block's effects to the store.  \<open>consensus.rs\<close> is that state
  machine.  It executes blocks through \<open>vm.rs\<close> on the accounts of \<open>state.rs\<close>, keeps blocks,
  certificates and its own position in \<open>storage.rs\<close>, takes transactions from \<open>tx_pool.rs\<close> and
  collects double votes in \<open>evidence_pool.rs\<close>.  \<open>main.rs\<close> drives it with the events of
  \<open>network.rs\<close> and a timer; \<open>rpc.rs\<close> serves users and \<open>client.rs\<close> is their side.

  \<^bold>\<open>Conventions.\<close>  A record is a struct, a datatype an enum, and a definition a function, each
  under the name of the source, with a prefix for record fields (\<open>b_view\<close> of a block, \<open>v_view\<close>
  of a vote) and for methods whose names clash (\<open>rpc_call\<close>, \<open>client_get_balance\<close>).  \<open>u64\<close> and
  \<open>U256\<close> are words, so that sums and products wrap around as they do in a release build;
  division by zero is a panic.  A panic, an \<open>unwrap\<close> of an error included, is \<^term>\<open>None\<close>; a
  \<open>Result\<close> is a sum whose left side is the error, and \<open>?\<close> is \<open>and_then\<close>.  A method that mutates
  \<open>self\<close> returns the new state.  A \<open>HashMap\<close> whose order is observed is an association list
  together with an iteration function of the library record.  Third-party code is never
  defined: BLS, SHA-256, Keccak, JSON, \<open>bincode\<close>, the sparse Merkle tree and the EVM are fields
  of an extensible record \<open>X\<close> (\<open>blst_lib\<close>, extended up to \<open>exec_lib\<close>), \<open>redb\<close> those of
  \<open>redb_lib\<close>, \<open>libp2p\<close> and its codec those of \<open>net_lib\<close>, the HTTP client those of \<open>http_client\<close>.
  What a theorem needs of them is a named hypothesis (\<open>blst_sign_ok\<close>, \<open>blst_aggregate_ok\<close>,
  \<open>iteration_ok\<close>, \<open>redb_ok\<close>, \<open>bincode_ok\<close>, \<open>gossip_codec_ok\<close>), shown to be satisfiable by the
  sample libraries.

  \<^bold>\<open>The components.\<close>
  \<^item> \<open>Prelude\<close>: words to bytes, association lists, lists, the error monad.
  \<^item> \<open>Crypto\<close> (\<open>crypto.rs\<close>): keys, signatures, hashing, VRF, aggregation; the order of keys as
    an instance of the class of linear orders.
  \<^item> \<open>Types\<close> and \<open>Receipts_Root\<close> (\<open>types.rs\<close>): transactions, votes, certificates, blocks,
    evidence, receipts and the receipts root; that its loop is the Merkle root and binds.
  \<^item> \<open>Storage\<close> (\<open>storage.rs\<close>): the trait as a record \<open>storage_trait\<close> of operations on a state
    type, \<open>MemStorage\<close> and \<open>StateOverlay\<close>.  The locales \<open>evm_store\<close>, \<open>chain_store\<close> and
    \<open>reliable_store\<close> are its contracts of rising strength; they are interpreted on the memory
    store (\<open>mem\<close>) and on the overlay above it (\<open>mem_ov\<close>).
  \<^item> \<open>Redb\<close> (\<open>storage.rs\<close>): \<open>RedbStorage\<close>, its contract, and that it refines the memory store.
  \<^item> \<open>State_Manager\<close>, \<open>State_Manager_Proofs\<close> (\<open>state.rs\<close>): commits, forks, reads for the EVM.
  \<^item> \<open>Evidence_Pool\<close>, \<open>Tx_Pool\<close>: the pools, their invariants through the shared locale
    \<open>item_pool\<close>, and the sorted, greedy selection through the locale \<open>comparator\<close>.
  \<^item> \<open>Executor\<close>, \<open>Executor_Proofs\<close>, \<open>Validators\<close> (\<open>vm.rs\<close>): slashing, liveness scores, staking
    calls, transactions, queues, blocks and ephemeral calls.  The locale \<open>consensus_updates\<close>
    carries any predicate that the elementary updates keep through a whole block.
  \<^item> \<open>Consensus\<close> (\<open>consensus.rs\<close>): the record \<open>simplex_state\<close> and every method of it.
    \<open>Consensus_Cases\<close> has one elimination rule per handler.  \<open>Node_Invariant\<close> has the events, the
    inductive \<open>run\<close> of handled events and the locales \<open>quiet_steps\<close> and \<open>node_invariant\<close>: a
    predicate kept by each elementary step holds along every run.  \<open>Consensus_Invariants\<close>,
    \<open>Certificates\<close>, \<open>Finality\<close>, \<open>Voting\<close>, \<open>Block_Sync\<close>, \<open>Equivocation\<close>, \<open>Acceptance\<close>,
    \<open>Startup\<close>, \<open>Fees\<close>, \<open>Quorum\<close> and \<open>Progress\<close> interpret them or build on them, with the
    lemmas of one topic each.
  \<^item> \<open>Rpc\<close> (\<open>rpc.rs\<close>) and \<open>Client\<close> (\<open>client.rs\<close>): the handlers, the server \<open>serve\<close> over the requests of
    the trait, and the client; \<open>local_client\<close> connects the two.
  \<^item> \<open>Network\<close> (\<open>network.rs\<close>): decoding, commands, and the two tasks with their channels as the
    step relation \<open>net_step\<close>.
  \<^item> \<open>Node\<close> and \<open>Node_Loop\<close> (\<open>main.rs\<close>): arguments, start (\<open>main_start\<close>), the turns of the event
    loop with the requests of the server, the inductive \<open>node_run\<close> and the program \<open>main_run\<close> up
    to its shutdown; the loop ends its turns and refines \<open>run\<close>.
  \<^item> \<open>System\<close>: several nodes and a network, hostile (\<open>unforged\<close>) or faithful (\<open>genuine\<close>), as the
    inductive \<open>system_run\<close>; the votes behind every stored certificate were sent.
  \<^item> \<open>Sample_Node\<close> and \<open>Sample_Run\<close>: a concrete library, committee and runs for the instances.

  \<^bold>\<open>What is shown.\<close>  The properties are numbered; each is followed by an instance on concrete
  data that meets its hypotheses.
  \<^item> \<open>Safety_Properties\<close>: certificates and finality need a quorum, stored certificates verify,
    nothing goes back; and what a single signer can do.
  \<^item> \<open>Voting_Properties\<close>: one vote per view, its two exceptions, slashing and how honest votes can be
    abused for it; two certificates of one view share over a third of signers.
  \<^item> \<open>System_Properties\<close>: what two certificates of one view say of honest nodes among Byzantine
    ones, and a run in which four honest nodes diverge.
  \<^item> \<open>Chain_Properties\<close>: validation, errors, parents, termination of block sync, acceptance by
    peers, rotation of leaders, the base fee against EIP-1559 and its bounds.
  \<^item> \<open>Progress_Properties\<close>: a proposal that a quorum accepts is certified, timeouts of a quorum end
    a view, finalize votes of a quorum commit a block exactly once; how they can be replayed, how
    outsiders can cast them, and how their order makes honest nodes diverge.
  \<^item> \<open>Ledger_Properties\<close> and \<open>Block_Properties\<close>: the validator set, the activation delay, staking
    and withdrawal, selection of transactions, isolation of speculation, the receipts root.
  \<^item> \<open>Node_Properties\<close>: the loop refines runs, its turns end, its tables stay well-formed, a restart
    recovers, gossip arrives, and when the two tasks block each other.
  \<^item> \<open>Service_Properties\<close>: \<open>redb\<close> refines the memory store, the suggested fee is the one charged,
    client transactions are accepted, blocks by number.

  \<^bold>\<open>Loops and bounds.\<close>  \<open>on_block_response\<close> calls itself on orphans; \<open>respond\<close> has a depth argument
  and an outer \<^term>\<open>None\<close> for running out of it, which no depth above the number of buffered
  entries does.  The
  loop over the action queue is a partial function whose outer \<^term>\<open>None\<close> means that it does not
  end; it is total, since the queue grows only with a new certificate and there are finitely
  many views.  The Merkle loop and number formatting are total functions with a termination
  proof.  The fee formula is exact below \<open>2\<^sup>1\<^sup>9\<^sup>1\<close>, where the product fits into 256 bits.

  \<^bold>\<open>Not modelled.\<close>  Logging and printed output.  Wall-clock time: the timer is an event that may
  come at any moment, and \<open>ResetTimer\<close> is an output.  Thread scheduling inside one handler:
  every shared object is behind one lock that a handler holds while it uses it, so handlers are
  atomic; the two tasks of the network do interleave.  The HTTP server, of which
  only the binding of its port can fail, and the construction of the HTTP client.  The
  configuration of \<open>libp2p\<close>, such as heartbeat and deduplication.  The internals of third-party
  packages, and \<open>lib.rs\<close>, the tests and the scripts, which hold no program logic of their own.
\<close>

end
